(* ===== verification/Prelude.thy ===== *)
theory Prelude
  imports Main "HOL-Library.Word"
begin

text \<open>
  What the components share: the Go integer types and their arithmetic, durations, the result type
  of operations that can panic, and generic facts on lists.

  Go's \<^verbatim>\<open>uint8\<close>, \<^verbatim>\<open>uint64\<close> are words.  The signed types (\<^verbatim>\<open>int64\<close>, and with it \<^verbatim>\<open>PacketNumber\<close>,
  \<^verbatim>\<open>ByteCount\<close>, \<^verbatim>\<open>StreamID\<close>, \<^verbatim>\<open>monotime.Time\<close> and \<^verbatim>\<open>time.Duration\<close>) are integers; \<open>i64\<close> writes out the
  two's complement wrap-around wherever an addition, subtraction or multiplication could leave the
  64-bit range.
\<close>

section \<open>Collections of facts\<close>

named_theorems go_arith \<open>removal of wrap-around and of truncating division\<close>
named_theorems go_defs \<open>definitions of small helpers that proofs unfold\<close>

section \<open>Types\<close>

type_synonym u8 = "8 word"
type_synonym u32 = "32 word"
type_synonym u64 = "64 word"
type_synonym bytes = "u8 list"
type_synonym packet_number = int
type_synonym byte_count = int
type_synonym stream_id = int
type_synonym mtime = int
type_synonym duration = int

text \<open>A call that may panic: \<open>Inl\<close> carries the panic message.\<close>

type_synonym 'a go = "string + 'a"

definition go_bind :: "'a go \<Rightarrow> ('a \<Rightarrow> 'b go) \<Rightarrow> 'b go" where
  "go_bind m f = (case m of Inl e \<Rightarrow> Inl e | Inr x \<Rightarrow> f x)"

text \<open>\<^verbatim>\<open>for _, x := range xs\<close> over a body that may panic.\<close>

fun go_fold :: "('s \<Rightarrow> 'x \<Rightarrow> 's go) \<Rightarrow> 's \<Rightarrow> 'x list \<Rightarrow> 's go" where
  "go_fold f s [] = Inr s"
| "go_fold f s (x # xs) = go_bind (f s x) (\<lambda>s. go_fold f s xs)"

definition InvalidPacketNumber :: packet_number where
  [go_defs]: "InvalidPacketNumber = -1"

definition MaxByteCount :: byte_count where
  [go_defs]: "MaxByteCount = 2 ^ 62 - 1"

definition Microsecond :: duration where
  [go_defs]: "Microsecond = 1000"

definition Millisecond :: duration where
  [go_defs]: "Millisecond = 1000000"

definition Second :: duration where
  [go_defs]: "Second = 1000000000"

lemma go_bind_simps [simp]:
  "go_bind (Inl e) f = Inl e" "go_bind (Inr x) f = f x"
  by (simp_all add: go_bind_def)

lemma go_bind_eq_Inr [simp]: "go_bind m f = Inr y \<longleftrightarrow> (\<exists>x. m = Inr x \<and> f x = Inr y)"
  by (cases m) simp_all

lemma go_bind_eq_Inl: "go_bind m f = Inl e \<longleftrightarrow> m = Inl e \<or> (\<exists>x. m = Inr x \<and> f x = Inl e)"
  by (cases m) auto

lemma go_fold_append: "go_fold f s (xs @ ys) = go_bind (go_fold f s xs) (\<lambda>s. go_fold f s ys)"
proof (induction xs arbitrary: s)
  case Nil
  then show ?case by simp
next
  case (Cons x xs)
  then show ?case by (cases "f s x") simp_all
qed

section \<open>Signed 64-bit arithmetic\<close>

definition i64 :: "int \<Rightarrow> int" where
  "i64 x = signed_take_bit 63 x"

definition MaxInt64 :: int where
  [go_defs]: "MaxInt64 = 2 ^ 63 - 1"

definition is_i64 :: "int \<Rightarrow> bool" where
  "is_i64 x \<longleftrightarrow> - (2 ^ 63) \<le> x \<and> x < 2 ^ 63"

lemma i64_id [go_arith]: "is_i64 x \<Longrightarrow> i64 x = x"
  by (simp add: i64_def is_i64_def signed_take_bit_int_eq_self)

lemma is_i64_i64 [simp]: "is_i64 (i64 x)"
  using signed_take_bit_int_greater_eq_minus_exp [of 63 x] signed_take_bit_int_less_exp [of 63 x]
  unfolding i64_def is_i64_def by blast

lemma i64_idem [simp]: "i64 (i64 x) = i64 x"
  by (simp add: i64_id)

lemma i64_wrap: "i64 x = (x + 2 ^ 63) mod 2 ^ 64 - 2 ^ 63"
  by (simp add: i64_def signed_take_bit_eq_take_bit_shift take_bit_eq_mod)

text \<open>Go's \<^verbatim>\<open>/\<close> and \<^verbatim>\<open>%\<close> on signed integers truncate towards zero.\<close>

definition go_div :: "int \<Rightarrow> int \<Rightarrow> int" where
  "go_div a b = sgn a * sgn b * (\<bar>a\<bar> div \<bar>b\<bar>)"

definition go_mod :: "int \<Rightarrow> int \<Rightarrow> int" where
  "go_mod a b = a - go_div a b * b"

lemma go_div_nonneg [go_arith]: "0 \<le> a \<Longrightarrow> 0 < b \<Longrightarrow> go_div a b = a div b"
  by (cases "a = 0") (auto simp: go_div_def)

lemma go_mod_nonneg [go_arith]: "0 \<le> a \<Longrightarrow> 0 < b \<Longrightarrow> go_mod a b = a mod b"
  by (simp add: go_mod_def go_div_nonneg minus_div_mult_eq_mod)

section \<open>Monotonic time\<close>

definition monotime_Sub :: "mtime \<Rightarrow> mtime \<Rightarrow> duration" where
  [go_defs]: "monotime_Sub t t2 = i64 (t - t2)"

definition monotime_Add :: "mtime \<Rightarrow> duration \<Rightarrow> mtime" where
  [go_defs]: "monotime_Add t d = i64 (t + d)"

definition monotime_IsZero :: "mtime \<Rightarrow> bool" where
  [go_defs]: "monotime_IsZero t \<longleftrightarrow> t = 0"

section \<open>Lists\<close>

text \<open>\<^verbatim>\<open>slices.Delete(xs, i, j)\<close> and \<^verbatim>\<open>slices.Insert(xs, i, x)\<close>.\<close>

definition slices_Delete :: "'a list \<Rightarrow> nat \<Rightarrow> nat \<Rightarrow> 'a list" where
  [go_defs]: "slices_Delete xs i j = take i xs @ drop j xs"

definition slices_Insert :: "'a list \<Rightarrow> nat \<Rightarrow> 'a \<Rightarrow> 'a list" where
  [go_defs]: "slices_Insert xs i x = take i xs @ x # drop i xs"

lemma list_split_last: "0 < length xs \<Longrightarrow> \<exists>ys y. xs = ys @ [y]"
  by (cases xs rule: rev_cases) auto

lemma sorted_wrt_dropI [intro]: "sorted_wrt P xs \<Longrightarrow> sorted_wrt P (drop n xs)"
  by (metis append_take_drop_id sorted_wrt_append)

lemma sorted_wrt_takeI [intro]: "sorted_wrt P xs \<Longrightarrow> sorted_wrt P (take n xs)"
  by (metis append_take_drop_id sorted_wrt_append)

section \<open>Codecs\<close>

text \<open>
  The contract of an encoding on a byte stream: decoding an encoded value gives back the value and
  exactly the bytes that follow it.
\<close>

locale stream_codec =
  fixes enc :: "'a \<Rightarrow> bytes"
    and dec :: "bytes \<Rightarrow> 'e + ('a \<times> bytes)"
    and valid :: "'a \<Rightarrow> bool"
  assumes dec_enc: "valid x \<Longrightarrow> dec (enc x @ rest) = Inr (x, rest)"
begin

lemma prefix_free:
  assumes "valid x" "valid y" "enc x @ r = enc y @ s"
  shows "x = y \<and> r = s"
  using dec_enc [OF assms(1), of r] dec_enc [OF assms(2), of s]
  unfolding assms(3) by simp

lemma enc_inject: "valid x \<Longrightarrow> valid y \<Longrightarrow> enc x = enc y \<longleftrightarrow> x = y"
  by (metis prefix_free)

end

end
