(* ===== verification/Varint.thy ===== *)
theory Varint
  imports Prelude
begin

unbundle bit_operations_syntax

text \<open>
  The variable-length integers of \<^verbatim>\<open>quicvarint/varint.go\<close>: parsing from a slice, reading byte by byte
  from a reader, appending with the shortest and with a chosen length, and the length of a value.
  A reader is the list of the bytes it still holds.
\<close>

section \<open>Definitions\<close>

datatype varint_error = EOF | ErrUnexpectedEOF

definition maxVarInt1 :: u64 where
  "maxVarInt1 = 63"

definition maxVarInt2 :: u64 where
  "maxVarInt2 = 16383"

definition maxVarInt4 :: u64 where
  "maxVarInt4 = 1073741823"

definition maxVarInt8 :: u64 where
  "maxVarInt8 = 4611686018427387903"

lemmas maxVarInt_defs = maxVarInt1_def maxVarInt2_def maxVarInt4_def maxVarInt8_def

text \<open>\<^verbatim>\<open>uint64(b)\<close> of a byte, and \<^verbatim>\<open>uint8(i >> k)\<close> of a \<^verbatim>\<open>uint64\<close>.\<close>

definition w64 :: "u8 \<Rightarrow> u64" where
  "w64 b = ucast b"

definition byte_at :: "u64 \<Rightarrow> nat \<Rightarrow> u8" where
  "byte_at i k = ucast (drop_bit k i)"

text \<open>\<^verbatim>\<open>binary.BigEndian.Uint64\<close>, which reads the first eight bytes.\<close>

definition BigEndian_Uint64 :: "bytes \<Rightarrow> u64" where
  "BigEndian_Uint64 b = w64 (b ! 7) OR push_bit 8 (w64 (b ! 6)) OR push_bit 16 (w64 (b ! 5)) OR
     push_bit 24 (w64 (b ! 4)) OR push_bit 32 (w64 (b ! 3)) OR push_bit 40 (w64 (b ! 2)) OR
     push_bit 48 (w64 (b ! 1)) OR push_bit 56 (w64 (b ! 0))"

definition varint_Parse :: "bytes \<Rightarrow> varint_error + (u64 \<times> nat)" where
  "varint_Parse b =
     (if length b = 0 then Inl EOF
      else let first = b ! 0; tag = drop_bit 6 first in
        if tag = 0 then Inr (w64 (first AND 63), 1)
        else if tag = 1 then
          (if length b < 2 then Inl ErrUnexpectedEOF
           else Inr (w64 (b ! 1) OR push_bit 8 (w64 (first AND 63)), 2))
        else if tag = 2 then
          (if length b < 4 then Inl ErrUnexpectedEOF
           else Inr (w64 (b ! 3) OR push_bit 8 (w64 (b ! 2)) OR push_bit 16 (w64 (b ! 1)) OR
                     push_bit 24 (w64 (first AND 63)), 4))
        else
          (if length b < 8 then Inl ErrUnexpectedEOF
           else Inr (BigEndian_Uint64 b AND 4611686018427387903, 8)))"

fun ReadByte :: "bytes \<Rightarrow> varint_error + (u8 \<times> bytes)" where
  "ReadByte [] = Inl EOF"
| "ReadByte (c # r) = Inr (c, r)"

definition varint_Read :: "bytes \<Rightarrow> varint_error + (u64 \<times> bytes)" where
  "varint_Read r0 =
     (case ReadByte r0 of Inl e \<Rightarrow> Inl e | Inr (firstByte, r1) \<Rightarrow>
      let l = push_bit (unat (drop_bit 6 (firstByte AND 192))) (1::int);
          b1 = firstByte AND (255 - 192) in
      if l = 1 then Inr (w64 b1, r1)
      else case ReadByte r1 of Inl e \<Rightarrow> Inl e | Inr (b2, r2) \<Rightarrow>
      if l = 2 then Inr (w64 b2 + push_bit 8 (w64 b1), r2)
      else case ReadByte r2 of Inl e \<Rightarrow> Inl e | Inr (b3, r3) \<Rightarrow>
      case ReadByte r3 of Inl e \<Rightarrow> Inl e | Inr (b4, r4) \<Rightarrow>
      if l = 4 then
        Inr (w64 b4 + push_bit 8 (w64 b3) + push_bit 16 (w64 b2) + push_bit 24 (w64 b1), r4)
      else case ReadByte r4 of Inl e \<Rightarrow> Inl e | Inr (b5, r5) \<Rightarrow>
      case ReadByte r5 of Inl e \<Rightarrow> Inl e | Inr (b6, r6) \<Rightarrow>
      case ReadByte r6 of Inl e \<Rightarrow> Inl e | Inr (b7, r7) \<Rightarrow>
      case ReadByte r7 of Inl e \<Rightarrow> Inl e | Inr (b8, r8) \<Rightarrow>
        Inr (w64 b8 + push_bit 8 (w64 b7) + push_bit 16 (w64 b6) + push_bit 24 (w64 b5) +
             push_bit 32 (w64 b4) + push_bit 40 (w64 b3) + push_bit 48 (w64 b2) +
             push_bit 56 (w64 b1), r8))"

definition varint_Append :: "bytes \<Rightarrow> u64 \<Rightarrow> bytes go" where
  "varint_Append b i =
     (if i \<le> maxVarInt1 then Inr (b @ [byte_at i 0])
      else if i \<le> maxVarInt2 then Inr (b @ [byte_at i 8 OR 64, byte_at i 0])
      else if i \<le> maxVarInt4 then
        Inr (b @ [byte_at i 24 OR 128, byte_at i 16, byte_at i 8, byte_at i 0])
      else if i \<le> maxVarInt8 then
        Inr (b @ [byte_at i 56 OR 192, byte_at i 48, byte_at i 40, byte_at i 32,
                  byte_at i 24, byte_at i 16, byte_at i 8, byte_at i 0])
      else Inl ''value doesn't fit into 62 bits'')"

definition varint_Len :: "u64 \<Rightarrow> nat go" where
  "varint_Len i =
     (if i \<le> maxVarInt1 then Inr 1
      else if i \<le> maxVarInt2 then Inr 2
      else if i \<le> maxVarInt4 then Inr 4
      else if i \<le> maxVarInt8 then Inr 8
      else Inl ''value doesn't fit into 62 bits'')"

definition varint_AppendWithLen :: "bytes \<Rightarrow> u64 \<Rightarrow> nat \<Rightarrow> bytes go" where
  "varint_AppendWithLen b i len =
     (if len \<noteq> 1 \<and> len \<noteq> 2 \<and> len \<noteq> 4 \<and> len \<noteq> 8 then Inl ''invalid varint length''
      else case varint_Len i of Inl e \<Rightarrow> Inl e | Inr l \<Rightarrow>
        if l = len then varint_Append b i
        else if l > len then Inl ''cannot encode''
        else let b1 = (if len = 2 then b @ [64] else if len = 4 then b @ [128]
                       else if len = 8 then b @ [192] else b);
                 b2 = b1 @ replicate (len - l - 1) 0
             in Inr (b2 @ map (\<lambda>j. byte_at i (8 * (l - 1 - j))) [0..<l]))"

section \<open>Lemmas\<close>

lemma bit_w64 [simp]: "bit (w64 b) n \<longleftrightarrow> bit b n \<and> n < 8"
  by (auto simp: w64_def bit_simps dest: bit_imp_le_length)

lemma bit_byte_at [simp]: "bit (byte_at i k) n \<longleftrightarrow> n < 8 \<and> bit i (k + n)"
  by (auto simp: byte_at_def bit_simps)

lemma u64_bit_bound: "unat (i::u64) < 2 ^ k \<Longrightarrow> bit i n \<Longrightarrow> n < k"
  by (metis bit_imp_possible_bit bit_take_bit_iff bit_unsigned_iff possible_bit_nat
      take_bit_nat_eq_self)

lemma bit_int_consts [simp]:
  "bit (63::int) n \<longleftrightarrow> n < 6"
  "bit (255::int) n \<longleftrightarrow> n < 8"
  "bit (4611686018427387903::int) n \<longleftrightarrow> n < 62"
  "bit (64::int) n \<longleftrightarrow> n = 6"
  "bit (128::int) n \<longleftrightarrow> n = 7"
  "bit (192::int) n \<longleftrightarrow> n = 6 \<or> n = 7"
  "bit (3::int) n \<longleftrightarrow> n = 0 \<or> n = 1"
  "bit (13835058055282163712::int) n \<longleftrightarrow> n = 62 \<or> n = 63"
proof -
  show "bit (63::int) n \<longleftrightarrow> n < 6"
    using bit_mask_iff [of 6 n, where ?'a = int] by (simp add: mask_eq_exp_minus_1)
  show "bit (255::int) n \<longleftrightarrow> n < 8"
    using bit_mask_iff [of 8 n, where ?'a = int] by (simp add: mask_eq_exp_minus_1)
  show "bit (4611686018427387903::int) n \<longleftrightarrow> n < 62"
    using bit_mask_iff [of 62 n, where ?'a = int] by (simp add: mask_eq_exp_minus_1)
  show "bit (64::int) n \<longleftrightarrow> n = 6"
    using bit_exp_iff [of 6 n, where ?'a = int] by simp
  show "bit (128::int) n \<longleftrightarrow> n = 7"
    using bit_exp_iff [of 7 n, where ?'a = int] by simp
  show 3: "bit (3::int) n \<longleftrightarrow> n = 0 \<or> n = 1" for n
    using bit_mask_iff [of 2 n, where ?'a = int] by (auto simp: mask_eq_exp_minus_1)
  show "bit (192::int) n \<longleftrightarrow> n = 6 \<or> n = 7"
    using bit_push_bit_iff [of 6 "3::int" n] by (auto simp: 3 push_bit_eq_mult)
  show "bit (13835058055282163712::int) n \<longleftrightarrow> n = 62 \<or> n = 63"
    using bit_push_bit_iff [of 62 "3::int" n] by (auto simp: 3 push_bit_eq_mult)
qed

lemma le_maxVarInt:
  "i \<le> maxVarInt1 \<Longrightarrow> bit i n \<Longrightarrow> n < 6"
  "i \<le> maxVarInt2 \<Longrightarrow> bit i n \<Longrightarrow> n < 14"
  "i \<le> maxVarInt4 \<Longrightarrow> bit i n \<Longrightarrow> n < 30"
  "i \<le> maxVarInt8 \<Longrightarrow> bit i n \<Longrightarrow> n < 62"
  by (rule u64_bit_bound; simp add: maxVarInt_defs word_le_nat_alt)+

text \<open>The first byte of an encoding carries its length in the top two bits.\<close>

lemma tag1: "i \<le> maxVarInt1 \<Longrightarrow> drop_bit 6 (byte_at i 0) = 0"
  by (rule bit_eqI) (auto simp: bit_simps dest: le_maxVarInt)

lemma tag2: "i \<le> maxVarInt2 \<Longrightarrow> drop_bit 6 (byte_at i 8 OR 64) = 1"
  by (rule bit_eqI) (auto simp: bit_simps bit_1_iff dest: le_maxVarInt)

lemma tag4: "i \<le> maxVarInt4 \<Longrightarrow> drop_bit 6 (byte_at i 24 OR 128) = 2"
  by (rule bit_eqI) (auto simp: bit_simps bit_2_iff dest: le_maxVarInt)

lemma tag8: "i \<le> maxVarInt8 \<Longrightarrow> drop_bit 6 (byte_at i 56 OR 192) = 3"
  by (rule bit_eqI) (auto simp: bit_simps dest: le_maxVarInt)

text \<open>The value bits survive: every byte of the encoding is a masked part of the value.\<close>

lemma and_63: "(x::u8) AND 63 = take_bit 6 x"
  by (simp add: take_bit_eq_mask mask_eq_exp_minus_1)

lemma chunk: "push_bit k (w64 (byte_at i k)) = i AND push_bit k 255"
  by (rule bit_eqI) (auto simp: bit_push_bit_iff bit_and_iff bit_numeral_word_iff)

lemma chunk0: "w64 (byte_at i 0) = i AND 255"
  using chunk [of 0 i] by simp

lemma and_eq_self: "(\<And>n. bit i n \<Longrightarrow> bit m n) \<Longrightarrow> i AND m = (i::u64)"
  by (rule bit_eqI) (auto simp: bit_and_iff)

lemma first_byte: "w64 ((byte_at i k OR c) AND 63) = w64 (byte_at i k AND 63) OR w64 (c AND 63)"
  by (rule bit_eqI) (auto simp: bit_or_iff bit_and_iff)

lemma chunk_first: "push_bit k (w64 (byte_at i k AND 63)) = i AND push_bit k 63"
  by (rule bit_eqI) (auto simp: bit_push_bit_iff bit_and_iff)

lemmas Parse_unfold = varint_Parse_def Let_def

lemma Parse1: "drop_bit 6 f = 0 \<Longrightarrow> varint_Parse (f # rest) = Inr (w64 (f AND 63), 1)"
  by (simp add: Parse_unfold)

lemma Parse2:
  "drop_bit 6 f = 1 \<Longrightarrow>
   varint_Parse (f # a # rest) = Inr (w64 a OR push_bit 8 (w64 (f AND 63)), 2)"
  by (simp add: Parse_unfold)

lemma Parse4:
  "drop_bit 6 f = 2 \<Longrightarrow> varint_Parse (f # a # b # c # rest) =
     Inr (w64 c OR push_bit 8 (w64 b) OR push_bit 16 (w64 a) OR push_bit 24 (w64 (f AND 63)), 4)"
  by (simp add: Parse_unfold)

lemma Parse8:
  "drop_bit 6 f = 3 \<Longrightarrow> varint_Parse (f # a # b # c # d # e # g # h # rest) =
     Inr ((w64 h OR push_bit 8 (w64 g) OR push_bit 16 (w64 e) OR push_bit 24 (w64 d) OR
       push_bit 32 (w64 c) OR push_bit 40 (w64 b) OR push_bit 48 (w64 a) OR push_bit 56 (w64 f))
       AND 4611686018427387903, 8)"
  by (simp add: Parse_unfold BigEndian_Uint64_def)

lemma value1: "i \<le> maxVarInt1 \<Longrightarrow> w64 (byte_at i 0 AND 63) = i"
  using chunk_first [of 0 i] by (auto intro!: and_eq_self dest: le_maxVarInt)

lemma value2:
  assumes "i \<le> maxVarInt2"
  shows "w64 (byte_at i 0) OR push_bit 8 (w64 ((byte_at i 8 OR 64) AND 63)) = i"
proof -
  have "w64 (byte_at i 0) OR push_bit 8 (w64 ((byte_at i 8 OR 64) AND 63)) =
      (i AND 255) OR (i AND push_bit 8 63)"
    by (simp only: chunk0 first_byte chunk_first push_bit_or) (simp add: w64_def)
  also have "\<dots> = i AND mask 14"
    by (simp only: bit.conj_disj_distrib [symmetric]) (simp add: mask_eq_exp_minus_1)
  also have "\<dots> = i"
    by (rule and_eq_self) (auto simp: bit_mask_iff dest: le_maxVarInt(2) [OF assms])
  finally show ?thesis .
qed

lemma value4:
  assumes "i \<le> maxVarInt4"
  shows "w64 (byte_at i 0) OR push_bit 8 (w64 (byte_at i 8)) OR
     push_bit 16 (w64 (byte_at i 16)) OR push_bit 24 (w64 ((byte_at i 24 OR 128) AND 63)) = i"
    (is "?l = i")
proof -
  have "?l = (i AND 255) OR (i AND push_bit 8 255) OR (i AND push_bit 16 255) OR
      (i AND push_bit 24 63)"
    by (simp only: chunk0 chunk first_byte chunk_first push_bit_or) (simp add: w64_def)
  also have "\<dots> = i AND mask 30"
    by (simp only: bit.conj_disj_distrib [symmetric] or.assoc) (simp add: mask_eq_exp_minus_1)
  also have "\<dots> = i"
    by (rule and_eq_self) (auto simp: bit_mask_iff dest: le_maxVarInt(3) [OF assms])
  finally show ?thesis .
qed

lemma max_u64: "(18446744073709551615::u64) = -1"
  by simp

lemma value8:
  assumes "i \<le> maxVarInt8"
  shows "(w64 (byte_at i 0) OR push_bit 8 (w64 (byte_at i 8)) OR push_bit 16 (w64 (byte_at i 16)) OR
     push_bit 24 (w64 (byte_at i 24)) OR push_bit 32 (w64 (byte_at i 32)) OR
     push_bit 40 (w64 (byte_at i 40)) OR push_bit 48 (w64 (byte_at i 48)) OR
     push_bit 56 (w64 (byte_at i 56 OR 192))) AND 4611686018427387903 = i"
    (is "?l AND _ = i")
proof -
  have "w64 (byte_at i 56 OR 192) = w64 (byte_at i 56) OR 192"
    by (rule bit_eqI) (auto simp: bit_or_iff)
  moreover have "i AND 18446744073709551615 = i"
    by (simp only: max_u64 and.right_neutral)
  ultimately have "?l = i OR push_bit 56 192"
    by (simp only: chunk0 chunk push_bit_or or.assoc [symmetric])
      (simp only: bit.conj_disj_distrib [symmetric], simp)
  moreover have "(i OR push_bit 56 192) AND 4611686018427387903 = i"
    by (rule bit_eqI) (auto simp: bit_or_iff bit_and_iff bit_push_bit_iff dest: le_maxVarInt(4) [OF assms])
  ultimately show ?thesis by simp
qed

lemma Parse_Append:
  assumes "varint_Append [] i = Inr e"
  shows "varint_Parse (e @ rest) = Inr (i, length e)"
proof -
  consider (1) "i \<le> maxVarInt1" "e = [byte_at i 0]"
    | (2) "i \<le> maxVarInt2" "e = [byte_at i 8 OR 64, byte_at i 0]"
    | (4) "i \<le> maxVarInt4" "e = [byte_at i 24 OR 128, byte_at i 16, byte_at i 8, byte_at i 0]"
    | (8) "i \<le> maxVarInt8" "e = [byte_at i 56 OR 192, byte_at i 48, byte_at i 40, byte_at i 32,
                  byte_at i 24, byte_at i 16, byte_at i 8, byte_at i 0]"
    using assms by (simp add: varint_Append_def split: if_splits)
  then show ?thesis
  proof cases
    case 1
    show ?thesis
      using Parse1 [OF tag1 [OF 1(1)], of rest] by (simp add: 1(2) value1 [OF 1(1)])
  next
    case 2
    show ?thesis
      using Parse2 [OF tag2 [OF 2(1)], of "byte_at i 0" rest]
      unfolding value2 [OF 2(1)] by (simp add: 2(2))
  next
    case 4
    show ?thesis
      using Parse4 [OF tag4 [OF 4(1)], of "byte_at i 16" "byte_at i 8" "byte_at i 0" rest]
      unfolding value4 [OF 4(1)] by (simp add: 4(2))
  next
    case 8
    show ?thesis
      using Parse8 [OF tag8 [OF 8(1)], of "byte_at i 48" "byte_at i 40" "byte_at i 32"
          "byte_at i 24" "byte_at i 16" "byte_at i 8" "byte_at i 0" rest]
      unfolding value8 [OF 8(1)] by (simp add: 8(2))
  qed
qed

lemma Append_prefix: "varint_Append b i = map_sum id ((@) b) (varint_Append [] i)"
  by (simp add: varint_Append_def)

lemma Append_Len: "map_sum id length (varint_Append [] i) = varint_Len i"
  by (simp add: varint_Append_def varint_Len_def)

section \<open>Reading byte by byte\<close>

definition bits_below :: "nat \<Rightarrow> u64 \<Rightarrow> bool" where
  "bits_below k x \<longleftrightarrow> (\<forall>n. bit x n \<longrightarrow> n < k)"

lemma bits_below_w64: "bits_below 8 (w64 b)"
  by (simp add: bits_below_def)

lemma bits_below_or_push: "bits_below k x \<Longrightarrow> bits_below (k + 8) (x OR push_bit k (w64 y))"
  by (fastforce simp: bits_below_def bit_or_iff bit_push_bit_iff)

lemma disj_add: "bits_below k x \<Longrightarrow> x + push_bit k y = x OR push_bit k y"
  by (rule disjunctive_add) (auto simp: bits_below_def bit_push_bit_iff)

lemma bits_below_chain:
  "bits_below 16 (w64 h OR push_bit 8 (w64 g))"
  "bits_below 24 (w64 h OR push_bit 8 (w64 g) OR push_bit 16 (w64 e))"
  "bits_below 32 (w64 h OR push_bit 8 (w64 g) OR push_bit 16 (w64 e) OR push_bit 24 (w64 d))"
  "bits_below 40 (w64 h OR push_bit 8 (w64 g) OR push_bit 16 (w64 e) OR push_bit 24 (w64 d) OR
     push_bit 32 (w64 c))"
  "bits_below 48 (w64 h OR push_bit 8 (w64 g) OR push_bit 16 (w64 e) OR push_bit 24 (w64 d) OR
     push_bit 32 (w64 c) OR push_bit 40 (w64 b))"
  "bits_below 56 (w64 h OR push_bit 8 (w64 g) OR push_bit 16 (w64 e) OR push_bit 24 (w64 d) OR
     push_bit 32 (w64 c) OR push_bit 40 (w64 b) OR push_bit 48 (w64 a))"
proof -
  note step = bits_below_or_push
  note s1 = step [OF bits_below_w64, simplified or.assoc, of h g]
  note s2 = step [OF s1, simplified or.assoc, of e]
  note s3 = step [OF s2, simplified or.assoc, of d]
  note s4 = step [OF s3, simplified or.assoc, of c]
  note s5 = step [OF s4, simplified or.assoc, of b]
  note s6 = step [OF s5, simplified or.assoc, of a]
  show "bits_below 16 (w64 h OR push_bit 8 (w64 g))"
    using s1 by simp
  show "bits_below 24 (w64 h OR push_bit 8 (w64 g) OR push_bit 16 (w64 e))"
    using s2 by simp
  show "bits_below 32 (w64 h OR push_bit 8 (w64 g) OR push_bit 16 (w64 e) OR push_bit 24 (w64 d))"
    using s3 by simp
  show "bits_below 40 (w64 h OR push_bit 8 (w64 g) OR push_bit 16 (w64 e) OR push_bit 24 (w64 d) OR
     push_bit 32 (w64 c))"
    using s4 by simp
  show "bits_below 48 (w64 h OR push_bit 8 (w64 g) OR push_bit 16 (w64 e) OR push_bit 24 (w64 d) OR
     push_bit 32 (w64 c) OR push_bit 40 (w64 b))"
    using s5 by simp
  show "bits_below 56 (w64 h OR push_bit 8 (w64 g) OR push_bit 16 (w64 e) OR push_bit 24 (w64 d) OR
     push_bit 32 (w64 c) OR push_bit 40 (w64 b) OR push_bit 48 (w64 a))"
    using s6 by simp
qed

lemmas sum_or = disj_add [OF bits_below_w64] disj_add [OF bits_below_chain(1)]
  disj_add [OF bits_below_chain(2)] disj_add [OF bits_below_chain(3)]
  disj_add [OF bits_below_chain(4)] disj_add [OF bits_below_chain(5)]
  disj_add [OF bits_below_chain(6)]

lemma mask62_first:
  "(w64 h OR push_bit 8 (w64 g) OR push_bit 16 (w64 e) OR push_bit 24 (w64 d) OR
     push_bit 32 (w64 c) OR push_bit 40 (w64 b) OR push_bit 48 (w64 a) OR push_bit 56 (w64 f))
     AND 4611686018427387903 =
   w64 h OR push_bit 8 (w64 g) OR push_bit 16 (w64 e) OR push_bit 24 (w64 d) OR
     push_bit 32 (w64 c) OR push_bit 40 (w64 b) OR push_bit 48 (w64 a) OR
     push_bit 56 (w64 (f AND 63))"
proof -
  define x where "x = w64 h OR push_bit 8 (w64 g) OR push_bit 16 (w64 e) OR push_bit 24 (w64 d) OR
     push_bit 32 (w64 c) OR push_bit 40 (w64 b) OR push_bit 48 (w64 a)"
  have "bits_below 56 x"
    unfolding x_def by (rule bits_below_chain)
  then have "(x OR push_bit 56 (w64 f)) AND 4611686018427387903 = x OR push_bit 56 (w64 (f AND 63))"
    by (intro bit_eqI) (auto simp: bits_below_def bit_or_iff bit_and_iff bit_push_bit_iff)
  then show ?thesis
    by (simp only: x_def or.assoc)
qed

lemma u8_tag_cases: "drop_bit 6 (f::u8) = 0 \<or> drop_bit 6 f = 1 \<or> drop_bit 6 f = 2 \<or> drop_bit 6 f = 3"
proof -
  have "unat (drop_bit 6 f) < 4"
    using unsigned_less [of f, where ?'a = nat] by (simp add: drop_bit_eq_div unat_div)
  then have "unat (drop_bit 6 f) = 0 \<or> unat (drop_bit 6 f) = 1 \<or> unat (drop_bit 6 f) = 2 \<or>
      unat (drop_bit 6 f) = 3"
    by linarith
  then show ?thesis
    by (simp add: word_unat_eq_iff)
qed

lemma tag_masked: "drop_bit 6 ((f::u8) AND 192) = drop_bit 6 f"
  by (rule bit_eqI) (auto simp: bit_drop_bit_eq bit_and_iff dest: bit_imp_le_length)

lemma ReadByte_eq: "ReadByte r = (case r of [] \<Rightarrow> Inl EOF | c # r' \<Rightarrow> Inr (c, r'))"
  by (cases r) simp_all

lemma Read1: "drop_bit 6 f = 0 \<Longrightarrow> varint_Read (f # r) = Inr (w64 (f AND 63), r)"
  by (simp add: varint_Read_def tag_masked)

lemma Read2:
  "drop_bit 6 f = 1 \<Longrightarrow> varint_Read (f # r) =
     (case r of [] \<Rightarrow> Inl EOF | a # r' \<Rightarrow> Inr (w64 a OR push_bit 8 (w64 (f AND 63)), r'))"
  by (simp add: varint_Read_def tag_masked sum_or ReadByte_eq split: list.split)

lemma Read4:
  "drop_bit 6 f = 2 \<Longrightarrow> varint_Read (f # r) =
     (case r of a # b # c # r' \<Rightarrow> Inr (w64 c OR push_bit 8 (w64 b) OR push_bit 16 (w64 a) OR
          push_bit 24 (w64 (f AND 63)), r') | _ \<Rightarrow> Inl EOF)"
  by (simp add: varint_Read_def tag_masked sum_or ReadByte_eq or.assoc split: list.split)

lemma Read8:
  "drop_bit 6 f = 3 \<Longrightarrow> varint_Read (f # r) =
     (case r of a # b # c # d # e # g # h # r' \<Rightarrow>
        Inr (w64 h OR push_bit 8 (w64 g) OR push_bit 16 (w64 e) OR push_bit 24 (w64 d) OR
          push_bit 32 (w64 c) OR push_bit 40 (w64 b) OR push_bit 48 (w64 a) OR
          push_bit 56 (w64 (f AND 63)), r') | _ \<Rightarrow> Inl EOF)"
  by (simp add: varint_Read_def tag_masked sum_or ReadByte_eq or.assoc split: list.split)

lemma Parse_short:
  "drop_bit 6 f = 1 \<Longrightarrow> r = [] \<Longrightarrow> varint_Parse (f # r) = Inl ErrUnexpectedEOF"
  "drop_bit 6 f = 2 \<Longrightarrow> length r < 3 \<Longrightarrow> varint_Parse (f # r) = Inl ErrUnexpectedEOF"
  "drop_bit 6 f = 3 \<Longrightarrow> length r < 7 \<Longrightarrow> varint_Parse (f # r) = Inl ErrUnexpectedEOF"
  by (simp_all add: Parse_unfold)

lemma Read_Parse:
  "varint_Read b = (case varint_Parse b of Inl _ \<Rightarrow> Inl EOF | Inr (v, n) \<Rightarrow> Inr (v, drop n b))"
proof (cases b)
  case Nil
  then show ?thesis by (simp add: varint_Read_def varint_Parse_def)
next
  case (Cons f r)
  consider (1) "drop_bit 6 f = 0" | (2) "drop_bit 6 f = 1" | (4) "drop_bit 6 f = 2"
    | (8) "drop_bit 6 f = 3"
    using u8_tag_cases by blast
  then show ?thesis
  proof cases
    case 1
    then show ?thesis by (simp add: Cons Read1 Parse1)
  next
    case 2
    then show ?thesis by (simp add: Cons Read2 Parse2 Parse_short split: list.split)
  next
    case 4
    then show ?thesis
      by (simp add: Cons Read4 Parse4 Parse_short split: list.split)
  next
    case 8
    then show ?thesis
      by (simp add: Cons Read8 Parse8 mask62_first Parse_short split: list.split)
  qed
qed

section \<open>Encodings of a chosen length\<close>

lemma Len_cases:
  assumes "varint_Len i = Inr l"
  obtains "l = 1" "i \<le> maxVarInt1" | "l = 2" "i \<le> maxVarInt2"
    | "l = 4" "i \<le> maxVarInt4" | "l = 8" "i \<le> maxVarInt8"
  using assms by (auto simp: varint_Len_def split: if_splits)

lemma padded_values:
  "i \<le> maxVarInt1 \<Longrightarrow> w64 (byte_at i 0) = i"
  "i \<le> maxVarInt2 \<Longrightarrow> w64 (byte_at i 0) OR push_bit 8 (w64 (byte_at i 8)) = i"
  "i \<le> maxVarInt4 \<Longrightarrow> w64 (byte_at i 0) OR push_bit 8 (w64 (byte_at i 8)) OR
     push_bit 16 (w64 (byte_at i 16)) OR push_bit 24 (w64 (byte_at i 24)) = i"
proof -
  show "w64 (byte_at i 0) = i" if "i \<le> maxVarInt1"
    unfolding chunk0 by (rule and_eq_self) (auto dest: le_maxVarInt(1) [OF that])
  show "w64 (byte_at i 0) OR push_bit 8 (w64 (byte_at i 8)) = i" if "i \<le> maxVarInt2"
  proof -
    have "w64 (byte_at i 0) OR push_bit 8 (w64 (byte_at i 8)) = i AND mask 16"
      unfolding chunk0 chunk
      by (simp only: bit.conj_disj_distrib [symmetric]) (simp add: mask_eq_exp_minus_1)
    also have "\<dots> = i"
      by (rule and_eq_self) (auto simp: bit_mask_iff dest: le_maxVarInt(2) [OF that])
    finally show ?thesis .
  qed
  show "w64 (byte_at i 0) OR push_bit 8 (w64 (byte_at i 8)) OR
     push_bit 16 (w64 (byte_at i 16)) OR push_bit 24 (w64 (byte_at i 24)) = i"
    if "i \<le> maxVarInt4"
  proof -
    have "w64 (byte_at i 0) OR push_bit 8 (w64 (byte_at i 8)) OR
        push_bit 16 (w64 (byte_at i 16)) OR push_bit 24 (w64 (byte_at i 24)) = i AND mask 32"
      unfolding chunk0 chunk
      by (simp only: bit.conj_disj_distrib [symmetric]) (simp add: mask_eq_exp_minus_1)
    also have "\<dots> = i"
      by (rule and_eq_self) (auto simp: bit_mask_iff dest: le_maxVarInt(3) [OF that])
    finally show ?thesis .
  qed
qed

lemma w64_0 [simp]: "w64 0 = 0"
  by (simp add: w64_def)

lemma and_mask62: "i \<le> maxVarInt8 \<Longrightarrow> i AND 4611686018427387903 = i"
  by (rule and_eq_self) (auto dest: le_maxVarInt)

lemma maxVarInt_mono:
  "i \<le> maxVarInt1 \<Longrightarrow> i \<le> maxVarInt2" "i \<le> maxVarInt2 \<Longrightarrow> i \<le> maxVarInt4"
  "i \<le> maxVarInt4 \<Longrightarrow> i \<le> maxVarInt8"
  by (simp_all add: maxVarInt_defs word_le_nat_alt)

lemmas Parse8_masked = Parse8 [unfolded mask62_first]

lemma padding_lists:
  "replicate 2 x = [x, x]" "replicate 3 x = [x, x, x]" "replicate 5 x = [x, x, x, x, x]"
  "replicate 6 x = [x, x, x, x, x, x]" "[0..<2] = [0, 1]" "[0..<4] = [0, 1, 2, 3]"
  by (simp_all add: numeral_eq_Suc)

lemma AppendWithLen_cases:
  assumes e: "varint_AppendWithLen [] i len = Inr e"
  obtains "varint_Append [] i = Inr e" "length e = len"
    | "len = 2" "e = [64, byte_at i 0]" "i \<le> maxVarInt1"
    | "len = 4" "e = [128, 0, 0, byte_at i 0]" "i \<le> maxVarInt1"
    | "len = 4" "e = [128, 0, byte_at i 8, byte_at i 0]" "i \<le> maxVarInt2"
    | "len = 8" "e = [192, 0, 0, 0, 0, 0, 0, byte_at i 0]" "i \<le> maxVarInt1"
    | "len = 8" "e = [192, 0, 0, 0, 0, 0, byte_at i 8, byte_at i 0]" "i \<le> maxVarInt2"
    | "len = 8" "e = [192, 0, 0, 0, byte_at i 24, byte_at i 16, byte_at i 8, byte_at i 0]"
        "i \<le> maxVarInt4"
proof -
  from e obtain l where l: "varint_Len i = Inr l" and le: "l \<le> len"
    and len: "len = 1 \<or> len = 2 \<or> len = 4 \<or> len = 8"
    by (auto simp: varint_AppendWithLen_def split: if_splits sum.splits)
  from l have i: "l = 1 \<and> i \<le> maxVarInt1 \<or> l = 2 \<and> i \<le> maxVarInt2 \<or> l = 4 \<and> i \<le> maxVarInt4 \<or>
      l = 8 \<and> i \<le> maxVarInt8"
    by (auto elim: Len_cases)
  show ?thesis
  proof (cases "l = len")
    case True
    then have "varint_Append [] i = Inr e"
      using e l len by (simp add: varint_AppendWithLen_def split: if_splits)
    moreover from this have "length e = len"
      using Append_Len [of i] l True by simp
    ultimately show ?thesis by (rule that(1))
  next
    case False
    with le len i consider "len = 2" "l = 1" | "len = 4" "l = 1" | "len = 4" "l = 2"
      | "len = 8" "l = 1" | "len = 8" "l = 2" | "len = 8" "l = 4"
      by auto
    then show ?thesis
      using e l i that(2-) by cases (simp_all add: varint_AppendWithLen_def padding_lists)
  qed
qed

lemma Parse_AppendWithLen:
  assumes "varint_AppendWithLen [] i len = Inr e"
  shows "varint_Parse (e @ rest) = Inr (i, len) \<and> length e = len"
  using assms
  by (cases rule: AppendWithLen_cases)
    (simp_all add: Parse_Append Parse2 Parse4 Parse8_masked padded_values)

section \<open>What a parser can rely on\<close>

lemma bits_below_unat: "bits_below m v \<Longrightarrow> unat v < 2 ^ m"
proof -
  assume "bits_below m v"
  then have "v = take_bit m v"
    by (intro bit_eqI) (auto simp: bits_below_def bit_take_bit_iff)
  then have "unat v = take_bit m (unat v)"
    by (metis unsigned_take_bit_eq)
  then show ?thesis
    by (metis take_bit_nat_less_exp)
qed

lemma bits_below_le:
  "bits_below 6 v \<Longrightarrow> v \<le> maxVarInt1" "bits_below 14 v \<Longrightarrow> v \<le> maxVarInt2"
  "bits_below 30 v \<Longrightarrow> v \<le> maxVarInt4" "bits_below 62 v \<Longrightarrow> v \<le> maxVarInt8"
  by (drule bits_below_unat, simp add: maxVarInt_defs word_le_nat_alt)+

lemma Parse_cases:
  assumes "varint_Parse b = Inr (v, n)"
  obtains "n = 1" "bits_below 6 v" "1 \<le> length b" | "n = 2" "bits_below 14 v" "2 \<le> length b"
    | "n = 4" "bits_below 30 v" "4 \<le> length b" | "n = 8" "bits_below 62 v" "8 \<le> length b"
proof -
  have "bits_below 6 (w64 (f AND 63))" for f
    by (auto simp: bits_below_def bit_and_iff)
  moreover have "bits_below 14 (w64 a OR push_bit 8 (w64 (f AND 63)))" for a f
    by (auto simp: bits_below_def bit_and_iff bit_or_iff bit_push_bit_iff)
  moreover have "bits_below 30 (w64 c OR push_bit 8 (w64 b) OR push_bit 16 (w64 a) OR
      push_bit 24 (w64 (f AND 63)))" for a b c f
    by (auto simp: bits_below_def bit_and_iff bit_or_iff bit_push_bit_iff)
  moreover have "bits_below 62 (x AND 4611686018427387903)" for x
    by (auto simp: bits_below_def bit_and_iff)
  ultimately show ?thesis
    using assms that by (auto simp: Parse_unfold not_less Suc_le_eq split: if_splits)
qed

lemma Parse_bounds:
  assumes "varint_Parse b = Inr (v, n)"
  shows "v \<le> maxVarInt8 \<and> n \<le> length b \<and> (\<exists>l. varint_Len v = Inr l \<and> l \<le> n)"
  using assms
  by (cases rule: Parse_cases)
    (auto simp: varint_Len_def dest: bits_below_le intro: maxVarInt_mono)

section \<open>Properties\<close>

text \<open>
  Property C23.  Parsing inverts appending: the bytes \<^verbatim>\<open>Append\<close> writes for a value, followed by any other
  bytes, parse back to that value, and exactly the bytes written are consumed.
\<close>

theorem varint_roundtrip:
  assumes "varint_Append [] i = Inr e"
  shows "varint_Parse (e @ rest) = Inr (i, length e)"
  using assms by (rule Parse_Append)

theorem varint_roundtrip_witness:
  "varint_Append [] 494878333 = Inr [157, 127, 62, 125] \<and>
   varint_Parse ([157, 127, 62, 125] @ [7]) = Inr (494878333, 4)"
proof -
  have a: "varint_Append [] 494878333 = Inr [157, 127, 62, 125]"
    by (simp add: varint_Append_def maxVarInt_defs byte_at_def)
  show ?thesis using a varint_roundtrip [OF a, of "[7]"] by simp
qed

text \<open>
  Property C34.  Reading byte by byte agrees with parsing a slice: \<^verbatim>\<open>Read\<close> returns the same value and
  consumes the same bytes as \<^verbatim>\<open>Parse\<close>, and fails exactly when \<^verbatim>\<open>Parse\<close> fails (always with \<^verbatim>\<open>io.EOF\<close>).
\<close>

theorem varint_read_agrees:
  "varint_Read b = (case varint_Parse b of Inl _ \<Rightarrow> Inl EOF | Inr (v, n) \<Rightarrow> Inr (v, drop n b))"
  by (rule Read_Parse)

text \<open>
  An encoding padded to a chosen length parses back to the value and has that length.
\<close>

theorem varint_padded_roundtrip:
  assumes "varint_AppendWithLen [] i len = Inr e"
  shows "varint_Parse (e @ rest) = Inr (i, len) \<and> length e = len"
  using assms by (rule Parse_AppendWithLen)

theorem varint_padded_roundtrip_witness:
  "varint_AppendWithLen [] 37 2 = Inr [64, 37] \<and> varint_Parse [64, 37] = Inr (37, 2)"
proof -
  have a: "varint_AppendWithLen [] 37 2 = Inr [64, 37]"
    by (simp add: varint_AppendWithLen_def varint_Len_def maxVarInt_defs byte_at_def padding_lists)
  show ?thesis using a varint_padded_roundtrip [OF a, of "[]"] by simp
qed

text \<open>
  Property C36.  A parsed value fits in 62 bits, the parser consumes no more than the slice holds, and
  the shortest encoding of the value is never longer than the one that was parsed.
\<close>

theorem varint_parse_bounds:
  assumes "varint_Parse b = Inr (v, n)"
  shows "v \<le> maxVarInt8 \<and> n \<le> length b \<and> (\<exists>l. varint_Len v = Inr l \<and> l \<le> n)"
  using assms by (rule Parse_bounds)

theorem varint_parse_bounds_witness:
  "varint_Parse [64, 37, 1] = Inr (37, 2) \<and> (37::u64) \<le> maxVarInt8 \<and>
   (\<exists>l. varint_Len 37 = Inr l \<and> l \<le> 2)"
proof -
  have a: "varint_Parse [64, 37, 1] = Inr (37, 2)"
    by (simp add: Parse2 w64_def)
  show ?thesis using a varint_parse_bounds [OF a] by simp
qed

end
