(* ===== verification/Wire.thy ===== *)
theory Wire
  imports Varint
begin

text \<open>
  What the frame parsers of \<^verbatim>\<open>internal/wire\<close> share: their errors, \<^verbatim>\<open>replaceUnexpectedEOF\<close> of
  \<^verbatim>\<open>frame_parser.go\<close>, and the step all of them repeat: parse a varint, stop on an error, advance the
  slice.  The varints are a codec on byte streams.
\<close>

section \<open>Definitions\<close>

datatype wire_error = Io varint_error | Msg string

definition replaceUnexpectedEOF :: "varint_error \<Rightarrow> varint_error" where
  "replaceUnexpectedEOF e = (if e = ErrUnexpectedEOF then EOF else e)"

definition parse_varint :: "bytes \<Rightarrow> wire_error + (u64 \<times> bytes)" where
  "parse_varint b =
     (case varint_Parse b of
        Inl e \<Rightarrow> Inl (Io (replaceUnexpectedEOF e))
      | Inr (v, l) \<Rightarrow> Inr (v, drop l b))"

text \<open>The bytes \<^verbatim>\<open>quicvarint.Append\<close> adds for a value that fits.\<close>

definition venc :: "u64 \<Rightarrow> bytes" where
  "venc v = (case varint_Append [] v of Inl _ \<Rightarrow> [] | Inr e \<Rightarrow> e)"

definition fits62 :: "u64 \<Rightarrow> bool" where
  "fits62 v \<longleftrightarrow> v \<le> maxVarInt8"

section \<open>Lemmas\<close>

named_theorems wire_simps \<open>evaluation of parsers and writers on varints that fit\<close>

lemma fits62_int: "0 \<le> x \<Longrightarrow> x < 2 ^ 62 \<Longrightarrow> fits62 (word_of_int x)"
  by (simp add: fits62_def maxVarInt8_def word_le_def uint_word_of_int take_bit_int_eq_self)

lemma fits62_uint: "fits62 v \<longleftrightarrow> uint v < 2 ^ 62"
  unfolding fits62_def maxVarInt8_def word_le_def by (simp, arith)

lemma fits62_sint:
  assumes "fits62 v"
  shows "sint v = uint v \<and> uint v < 2 ^ 62"
proof -
  have a: "uint v < 2 ^ 62" using assms by (simp add: fits62_uint)
  moreover have "- (2 ^ 63) \<le> uint v"
    by (rule order_trans [OF _ uint_ge_0]) simp
  moreover have "uint v < 2 ^ 63"
    using a by (rule less_trans) simp
  ultimately show ?thesis
    by (simp add: sint_uint signed_take_bit_int_eq_self)
qed

lemma sint_word_of_int [simp]: "0 \<le> x \<Longrightarrow> x < 2 ^ 62 \<Longrightarrow> sint (word_of_int x :: u64) = x"
  using fits62_sint [OF fits62_int] by (simp add: uint_word_of_int take_bit_int_eq_self)

lemma Append_venc [wire_simps]: "fits62 v \<Longrightarrow> varint_Append b v = Inr (b @ venc v)"
  unfolding venc_def fits62_def varint_Append_def by simp

lemma Len_venc [wire_simps]: "fits62 v \<Longrightarrow> varint_Len v = Inr (length (venc v))"
  using Append_Len [of v] Append_venc [of v "[]"] by simp

lemma length_venc: "1 \<le> length (venc v) \<or> \<not> fits62 v" "length (venc v) \<le> 8"
  by (auto simp: venc_def fits62_def varint_Append_def)

lemma length_venc_small: "v \<le> maxVarInt1 \<Longrightarrow> length (venc v) = 1"
  by (simp add: venc_def varint_Append_def)

interpretation varint_codec: stream_codec venc parse_varint fits62
proof
  fix v rest
  assume "fits62 v"
  then have "varint_Append [] v = Inr (venc v)"
    by (simp add: Append_venc)
  then show "parse_varint (venc v @ rest) = Inr (v, rest)"
    by (simp add: parse_varint_def Parse_Append)
qed

declare varint_codec.dec_enc [wire_simps]

lemma parse_varint_bounds:
  assumes "parse_varint b = Inr (v, r)"
  shows "fits62 v" "\<exists>p. p \<noteq> [] \<and> b = p @ r"
proof -
  obtain l where l: "varint_Parse b = Inr (v, l)" "r = drop l b"
    using assms by (auto simp: parse_varint_def split: sum.splits)
  from Parse_bounds [OF l(1)] show "fits62 v" by (simp add: fits62_def)
  have "0 < l" "l \<le> length b"
    using l(1) by (cases rule: Parse_cases; simp)+
  with l(2) show "\<exists>p. p \<noteq> [] \<and> b = p @ r"
    by (intro exI [of _ "take l b"]) auto
qed

end
