(* ===== verification/Protocol.thy ===== *)
theory Protocol
  imports Prelude
begin

unbundle bit_operations_syntax

text \<open>
  The protocol vocabulary of \<^verbatim>\<open>internal/protocol\<close>: packet numbers and their truncated form in the header,
  stream identifiers, ECN code points, encryption levels and the perspective of an endpoint.
\<close>

section \<open>Definitions\<close>

subsection \<open>Perspective, encryption levels, ECN\<close>

datatype Perspective = PerspectiveServer | PerspectiveClient

fun Opposite :: "Perspective \<Rightarrow> Perspective" where
  "Opposite PerspectiveServer = PerspectiveClient"
| "Opposite PerspectiveClient = PerspectiveServer"

datatype EncryptionLevel = EncryptionInitial | EncryptionHandshake | Encryption0RTT | Encryption1RTT

datatype ECN = ECNUnsupported | ECNNon | ECT1 | ECT0 | ECNCE

definition ParseECNHeaderBits :: "u8 \<Rightarrow> ECN go" where
  "ParseECNHeaderBits bits =
     (if bits = 0 then Inr ECNNon
      else if bits = 2 then Inr ECT0
      else if bits = 1 then Inr ECT1
      else if bits = 3 then Inr ECNCE
      else Inl ''invalid ECN bits'')"

fun ToHeaderBits :: "ECN \<Rightarrow> u8 go" where
  "ToHeaderBits ECNNon = Inr 0"
| "ToHeaderBits ECT0 = Inr 2"
| "ToHeaderBits ECT1 = Inr 1"
| "ToHeaderBits ECNCE = Inr 3"
| "ToHeaderBits ECNUnsupported = Inl ''ECN unsupported''"

subsection \<open>Packet numbers\<close>

definition DecodePacketNumber :: "nat \<Rightarrow> packet_number \<Rightarrow> packet_number \<Rightarrow> packet_number" where
  "DecodePacketNumber len largest truncated =
     (let expected = largest + 1;
          win = push_bit (len * 8) 1;
          hwin = win div 2;
          mask = win - 1;
          candidate = (expected AND NOT mask) OR truncated in
      if candidate \<le> expected - hwin \<and> candidate < 2 ^ 62 - win then candidate + win
      else if candidate > expected + hwin \<and> candidate \<ge> win then candidate - win
      else candidate)"

definition PacketNumberLengthForHeader :: "packet_number \<Rightarrow> packet_number \<Rightarrow> nat" where
  "PacketNumberLengthForHeader pn largestAcked =
     (let numUnacked = (if largestAcked = InvalidPacketNumber then pn + 1 else pn - largestAcked) in
      if numUnacked < 2 ^ (16 - 1) then 2
      else if numUnacked < 2 ^ (24 - 1) then 3
      else 4)"

subsection \<open>Streams\<close>

datatype StreamType = StreamTypeUni | StreamTypeBidi

definition InvalidStreamID :: stream_id where
  "InvalidStreamID = -1"

definition MaxStreamCount :: int where
  "MaxStreamCount = 2 ^ 60"

definition MaxStreamID :: stream_id where
  "MaxStreamID = 2 ^ 62 - 1"

definition StreamNum_StreamID :: "int \<Rightarrow> StreamType \<Rightarrow> Perspective \<Rightarrow> stream_id" where
  "StreamNum_StreamID s stype pers =
     (if s = 0 then InvalidStreamID
      else let first = (case stype of
             StreamTypeBidi \<Rightarrow> (case pers of PerspectiveClient \<Rightarrow> 0 | PerspectiveServer \<Rightarrow> 1)
           | StreamTypeUni \<Rightarrow> (case pers of PerspectiveClient \<Rightarrow> 2 | PerspectiveServer \<Rightarrow> 3))
      in first + 4 * (s - 1))"

definition InitiatedBy :: "stream_id \<Rightarrow> Perspective" where
  "InitiatedBy s = (if go_mod s 2 = 0 then PerspectiveClient else PerspectiveServer)"

definition StreamID_Type :: "stream_id \<Rightarrow> StreamType" where
  "StreamID_Type s = (if go_mod s 4 \<ge> 2 then StreamTypeUni else StreamTypeBidi)"

definition StreamID_StreamNum :: "stream_id \<Rightarrow> int" where
  "StreamID_StreamNum s = go_div s 4 + 1"

section \<open>Lemmas\<close>

lemma and_not_low_or:
  fixes e t :: int
  assumes "0 \<le> t" "t < 2 ^ k"
  shows "(e AND NOT (2 ^ k - 1)) OR t = (e div 2 ^ k) * 2 ^ k + t"
proof -
  have t: "bit t n \<Longrightarrow> n < k" for n
    using assms by (metis bit_take_bit_iff take_bit_int_eq_self)
  have "e AND NOT (mask k) = push_bit k (drop_bit k e)"
    by (rule bit_eqI) (auto simp: bit_simps)
  moreover have "push_bit k (drop_bit k e) OR t = push_bit k (drop_bit k e) + t"
    by (rule disjunctive_add [symmetric]) (use t in \<open>fastforce simp: bit_simps\<close>)
  ultimately show ?thesis
    by (simp add: mask_eq_exp_minus_1 push_bit_eq_mult drop_bit_eq_div)
qed

text \<open>
  The window argument of RFC 9000, appendix A.3: a number at most half a window away from the expected
  one is the only candidate with its low bits.
\<close>

lemma Decode_near:
  fixes pn largest :: int
  assumes len: "0 < len" and pn: "0 \<le> pn" "pn < 2 ^ 62"
    and near: "largest + 1 - 2 ^ (8 * len - 1) < pn" "pn \<le> largest + 1 + 2 ^ (8 * len - 1)"
  shows "DecodePacketNumber len largest (pn mod 2 ^ (8 * len)) = pn"
proof -
  define W :: int where "W = 2 ^ (8 * len)"
  define H :: int where "H = 2 ^ (8 * len - 1)"
  have WH: "W = 2 * H" and H: "0 < H"
    using len by (auto simp: W_def H_def simp flip: power_Suc)
  define E where "E = largest + 1"
  define c where "c = (E div W) * W + pn mod W"
  define j where "j = pn div W - E div W"
  have c: "pn = c + j * W"
    by (simp add: c_def j_def algebra_simps)
  have "c - E = pn mod W - E mod W"
    by (simp add: c_def minus_div_mult_eq_mod [symmetric])
  moreover have "0 \<le> pn mod W" "pn mod W < W" "0 \<le> E mod W" "E mod W < W"
    using WH H by simp_all
  moreover have nearE: "E - H < pn" "pn \<le> E + H"
    using near by (simp_all add: E_def H_def)
  moreover have "j * W = pn - c"
    using c by simp
  ultimately have "- (2 * W) < j * W" "j * W < 2 * W"
    using WH H by linarith+
  then have "\<bar>j * W\<bar> < 2 * W"
    by (simp add: abs_less_iff)
  then have "\<bar>j\<bar> * W < 2 * W"
    using WH H by (simp add: abs_mult)
  then have "\<bar>j\<bar> < 2"
    using WH H by (simp add: mult_less_cancel_right)
  then have j: "j = -1 \<or> j = 0 \<or> j = 1"
    by arith
  have "DecodePacketNumber len largest (pn mod W) =
     (if c \<le> E - H \<and> c < 2 ^ 62 - W then c + W else if c > E + H \<and> c \<ge> W then c - W else c)"
    using and_not_low_or [of "pn mod W" "8 * len" E] WH H
    by (simp add: DecodePacketNumber_def Let_def push_bit_eq_mult E_def c_def mult.commute [of len]
        flip: W_def)
  also have "\<dots> = pn"
    using j c nearE pn WH H by auto
  finally show ?thesis
    by (simp only: W_def)
qed

text \<open>
  Property C21.  The packet number survives the header: a sender that last saw \<open>largestAcked\<close> acknowledged
  picks a length for \<open>pn\<close>, sends the low bytes, and a receiver that already has \<open>largestAcked\<close>, whose
  largest packet number is \<open>largest\<close> and less than half a window ahead of \<open>pn\<close>, decodes \<open>pn\<close>.
\<close>

theorem packet_number_roundtrip:
  assumes "len = PacketNumberLengthForHeader pn largestAcked"
    and "0 \<le> pn" "pn < 2 ^ 62" "-1 \<le> largestAcked" "largestAcked < pn"
    and "pn - largestAcked < 2 ^ 31"
    and "largestAcked \<le> largest" "largest < pn + 2 ^ (8 * len - 1) - 1"
  shows "DecodePacketNumber len largest (pn mod 2 ^ (8 * len)) = pn"
proof (rule Decode_near)
  have len: "len = 2 \<or> len = 3 \<or> len = 4" and unacked: "pn - largestAcked < 2 ^ (8 * len - 1)"
    using assms(1,6) by (auto simp: PacketNumberLengthForHeader_def Let_def InvalidPacketNumber_def)
  show "0 < len" using len by auto
  show "pn \<le> largest + 1 + 2 ^ (8 * len - 1)"
    using unacked assms(7) by simp
  show "largest + 1 - 2 ^ (8 * len - 1) < pn"
    using assms(8) by simp
qed (use assms in auto)

theorem packet_number_roundtrip_witness:
  "PacketNumberLengthForHeader 11279554 11279450 = 2 \<and>
   DecodePacketNumber 2 11279500 (11279554 mod 2 ^ (8 * 2)) = 11279554"
proof -
  have l: "2 = PacketNumberLengthForHeader 11279554 11279450"
    by (simp add: PacketNumberLengthForHeader_def InvalidPacketNumber_def)
  show ?thesis
    using packet_number_roundtrip [OF l, of 11279500] l by simp
qed

text \<open>
  Stream identifiers encode number, type and initiator: each is recovered from the
  identifier, for both endpoints and both types.
\<close>

theorem stream_id_roundtrip:
  assumes "1 \<le> s"
  shows "StreamID_StreamNum (StreamNum_StreamID s stype pers) = s \<and>
    StreamID_Type (StreamNum_StreamID s stype pers) = stype \<and>
    InitiatedBy (StreamNum_StreamID s stype pers) = pers"
  using assms
  by (cases stype; cases pers)
    (simp_all add: StreamNum_StreamID_def StreamID_StreamNum_def StreamID_Type_def InitiatedBy_def
      go_arith, presburger+)

theorem stream_id_roundtrip_witness:
  "StreamNum_StreamID 3 StreamTypeBidi PerspectiveServer = 9 \<and> StreamID_StreamNum 9 = 3"
  using stream_id_roundtrip [of 3 StreamTypeBidi PerspectiveServer]
  by (simp add: StreamNum_StreamID_def)

end
