(* ===== verification/AckFrame.thy ===== *)
theory AckFrame
  imports Wire Protocol
begin

unbundle bit_operations_syntax

text \<open>
  The ACK frame of \<^verbatim>\<open>internal/wire/ack_frame.go\<close>: the ranges, the binary search that decides whether a
  packet is acknowledged, parsing, appending, the exact length and truncation to a packet's size.
\<close>

section \<open>Definitions\<close>

record AckRange =
  Smallest :: packet_number
  Largest :: packet_number

definition AckRange_Len :: "AckRange \<Rightarrow> packet_number" where
  "AckRange_Len r = Largest r - Smallest r + 1"

record AckFrame =
  AckRanges :: "AckRange list"
  DelayTime :: duration
  ECT0_count :: u64
  ECT1_count :: u64
  ECNCE_count :: u64

definition new_AckFrame :: AckFrame where
  "new_AckFrame = \<lparr>AckRanges = [], DelayTime = 0, ECT0_count = 0, ECT1_count = 0, ECNCE_count = 0\<rparr>"

definition AckFrame_Reset :: "AckFrame \<Rightarrow> AckFrame" where
  "AckFrame_Reset f =
     f\<lparr>DelayTime := 0, ECT0_count := 0, ECT1_count := 0, ECNCE_count := 0, AckRanges := []\<rparr>"

definition MaxNumAckRanges :: nat where
  "MaxNumAckRanges = 64"

definition AckDelayExponent :: nat where
  "AckDelayExponent = 3"

definition errInvalidFirstRange :: wire_error where
  "errInvalidFirstRange = Msg ''invalid first ACK range''"

definition errInvalidAckRanges :: wire_error where
  "errInvalidAckRanges = Msg ''AckFrame: ACK frame contains invalid ACK ranges''"

definition index_panic :: string where
  "index_panic = ''index out of range''"

subsection \<open>Queries\<close>

definition HasMissingRanges :: "AckFrame \<Rightarrow> bool" where
  "HasMissingRanges f \<longleftrightarrow> length (AckRanges f) > 1"

fun validate_single :: "AckRange list \<Rightarrow> bool" where
  "validate_single [] = True"
| "validate_single (r # rs) = (if Smallest r > Largest r then False else validate_single rs)"

fun validate_consistent :: "AckRange \<Rightarrow> AckRange list \<Rightarrow> bool" where
  "validate_consistent lastAckRange [] = True"
| "validate_consistent lastAckRange (r # rs) =
     (if Smallest lastAckRange \<le> Smallest r then False
      else if Smallest lastAckRange \<le> Largest r + 1 then False
      else validate_consistent r rs)"

definition validateAckRanges :: "AckFrame \<Rightarrow> bool" where
  "validateAckRanges f =
     (if length (AckRanges f) = 0 then False
      else validate_single (AckRanges f) \<and>
        validate_consistent (hd (AckRanges f)) (tl (AckRanges f)))"

definition LargestAcked :: "AckFrame \<Rightarrow> packet_number go" where
  "LargestAcked f = (case AckRanges f of [] \<Rightarrow> Inl index_panic | r # _ \<Rightarrow> Inr (Largest r))"

definition LowestAcked :: "AckFrame \<Rightarrow> packet_number go" where
  "LowestAcked f =
     (if AckRanges f = [] then Inl index_panic else Inr (Smallest (last (AckRanges f))))"

text \<open>\<^verbatim>\<open>sort.Search\<close> of the standard library: the loop over the bounds \<open>i\<close> and \<open>j\<close>.\<close>

function sort_Search :: "nat \<Rightarrow> nat \<Rightarrow> (nat \<Rightarrow> bool) \<Rightarrow> nat" where
  "sort_Search i j f =
     (if i < j then
        let h = (i + j) div 2 in
        if \<not> f h then sort_Search (h + 1) j f else sort_Search i h f
      else i)"
  by pat_completeness auto
termination
  by (relation "measure (\<lambda>(i, j, f). j - i)") auto

declare sort_Search.simps [simp del]

definition AcksPacket :: "AckFrame \<Rightarrow> packet_number \<Rightarrow> bool go" where
  "AcksPacket f p =
     go_bind (LowestAcked f) (\<lambda>lowest. go_bind (LargestAcked f) (\<lambda>largest.
       if p < lowest \<or> p > largest then Inr False
       else let i = sort_Search 0 (length (AckRanges f)) (\<lambda>i. p \<ge> Smallest (AckRanges f ! i)) in
         if i < length (AckRanges f) then Inr (p \<le> Largest (AckRanges f ! i))
         else Inl index_panic))"

subsection \<open>Parsing\<close>

fun parse_ranges ::
  "nat \<Rightarrow> packet_number \<Rightarrow> AckRange list \<Rightarrow> bytes \<Rightarrow> wire_error + (AckRange list \<times> bytes)" where
  "parse_ranges 0 smallest ranges b = Inr (ranges, b)"
| "parse_ranges (Suc n) smallest ranges b =
     (case parse_varint b of Inl e \<Rightarrow> Inl e | Inr (g, b) \<Rightarrow>
      let gap = sint g in
      if smallest < gap + 2 then Inl errInvalidAckRanges
      else let largest = smallest - gap - 2 in
      case parse_varint b of Inl e \<Rightarrow> Inl e | Inr (ab, b) \<Rightarrow>
      let ackBlock = sint ab in
      if ackBlock > largest then Inl errInvalidAckRanges
      else let smallest = largest - ackBlock in
      parse_ranges n smallest (ranges @ [\<lparr>Smallest = smallest, Largest = largest\<rparr>]) b)"

definition decode_delay :: "u64 \<Rightarrow> nat \<Rightarrow> duration" where
  "decode_delay delay ackDelayExponent =
     (let delayTime = i64 (sint (push_bit ackDelayExponent (delay * 1)) * Microsecond) in
      if delayTime < 0 then MaxInt64 else delayTime)"

definition parse_ecn :: "AckFrame \<Rightarrow> bytes \<Rightarrow> wire_error + (AckFrame \<times> bytes)" where
  "parse_ecn frame b =
     (case parse_varint b of Inl e \<Rightarrow> Inl e | Inr (ect0, b) \<Rightarrow>
      case parse_varint b of Inl e \<Rightarrow> Inl e | Inr (ect1, b) \<Rightarrow>
      case parse_varint b of Inl e \<Rightarrow> Inl e | Inr (ecnce, b) \<Rightarrow>
      Inr (frame\<lparr>ECT0_count := ect0, ECT1_count := ect1, ECNCE_count := ecnce\<rparr>, b))"

definition parseAckFrame ::
  "AckFrame \<Rightarrow> bytes \<Rightarrow> bool \<Rightarrow> nat \<Rightarrow> wire_error + (AckFrame \<times> nat)" where
  "parseAckFrame frame b0 ecn ackDelayExponent =
     (let startLen = length b0 in
      case parse_varint b0 of Inl e \<Rightarrow> Inl e | Inr (la, b) \<Rightarrow>
      let largestAcked = sint la in
      case parse_varint b of Inl e \<Rightarrow> Inl e | Inr (delay, b) \<Rightarrow>
      let frame = frame\<lparr>DelayTime := decode_delay delay ackDelayExponent\<rparr> in
      case parse_varint b of Inl e \<Rightarrow> Inl e | Inr (numBlocks, b) \<Rightarrow>
      case parse_varint b of Inl e \<Rightarrow> Inl e | Inr (ab, b) \<Rightarrow>
      let ackBlock = sint ab in
      if ackBlock > largestAcked then Inl errInvalidFirstRange
      else let smallest = largestAcked - ackBlock in
      case parse_ranges (unat numBlocks) smallest
             (AckRanges frame @ [\<lparr>Smallest = smallest, Largest = largestAcked\<rparr>]) b of
        Inl e \<Rightarrow> Inl e
      | Inr (ranges, b) \<Rightarrow>
      let frame = frame\<lparr>AckRanges := ranges\<rparr> in
      if \<not> validateAckRanges frame then Inl errInvalidAckRanges
      else if ecn then
        (case parse_ecn frame b of Inl e \<Rightarrow> Inl e | Inr (frame, b) \<Rightarrow> Inr (frame, startLen - length b))
      else Inr (frame, startLen - length b))"

subsection \<open>Appending\<close>

definition encodeAckDelay :: "duration \<Rightarrow> u64" where
  "encodeAckDelay delay = word_of_int (go_div delay (1000 * push_bit AckDelayExponent 1))"

definition hasECN :: "AckFrame \<Rightarrow> bool" where
  "hasECN f \<longleftrightarrow> ECT0_count f > 0 \<or> ECT1_count f > 0 \<or> ECNCE_count f > 0"

definition encodeAckRange :: "AckFrame \<Rightarrow> nat \<Rightarrow> (u64 \<times> u64) go" where
  "encodeAckRange f i =
     (if i \<ge> length (AckRanges f) then Inl index_panic
      else if i = 0 then
        Inr (0, word_of_int (Largest (AckRanges f ! 0) - Smallest (AckRanges f ! 0)))
      else Inr (word_of_int (Smallest (AckRanges f ! (i - 1)) - Largest (AckRanges f ! i) - 2),
                word_of_int (Largest (AckRanges f ! i) - Smallest (AckRanges f ! i))))"

definition AckFrame_Append :: "AckFrame \<Rightarrow> bytes \<Rightarrow> bytes go" where
  "AckFrame_Append f b =
     (let b = b @ [if hasECN f then 3 else 2] in
      go_bind (LargestAcked f) (\<lambda>largest.
      go_bind (varint_Append b (word_of_int largest)) (\<lambda>b.
      go_bind (varint_Append b (encodeAckDelay (DelayTime f))) (\<lambda>b.
      let numRanges = min (length (AckRanges f)) MaxNumAckRanges in
      go_bind (varint_Append b (word_of_int (int numRanges - 1))) (\<lambda>b.
      go_bind (encodeAckRange f 0) (\<lambda>(_, firstRange).
      go_bind (varint_Append b firstRange) (\<lambda>b.
      go_bind (go_fold (\<lambda>b i. go_bind (encodeAckRange f i) (\<lambda>(gap, len).
          go_bind (varint_Append b gap) (\<lambda>b. varint_Append b len))) b [1..<numRanges]) (\<lambda>b.
      if hasECN f then
        go_bind (varint_Append b (ECT0_count f)) (\<lambda>b.
        go_bind (varint_Append b (ECT1_count f)) (\<lambda>b. varint_Append b (ECNCE_count f)))
      else Inr b))))))))"

definition AckFrame_Length :: "AckFrame \<Rightarrow> nat go" where
  "AckFrame_Length f =
     go_bind (LargestAcked f) (\<lambda>largestAcked.
     go_bind (varint_Len (word_of_int largestAcked)) (\<lambda>l1.
     go_bind (varint_Len (encodeAckDelay (DelayTime f))) (\<lambda>l2.
     let len = 1 + l1 + l2 + 1; lowestInFirstRange = Smallest (AckRanges f ! 0) in
     go_bind (varint_Len (word_of_int (largestAcked - lowestInFirstRange))) (\<lambda>l3.
     go_bind (go_fold (\<lambda>len i. go_bind (encodeAckRange f i) (\<lambda>(gap, l).
         go_bind (varint_Len gap) (\<lambda>lg. go_bind (varint_Len l) (\<lambda>ll. Inr (len + lg + ll)))))
       (len + l3) [1..<min (length (AckRanges f)) MaxNumAckRanges]) (\<lambda>len.
     if hasECN f then
       go_bind (varint_Len (ECT0_count f)) (\<lambda>a. go_bind (varint_Len (ECT1_count f)) (\<lambda>b.
       go_bind (varint_Len (ECNCE_count f)) (\<lambda>c. Inr (len + (a + b + c)))))
     else Inr len)))))"

text \<open>The loop of the slow path of \<^verbatim>\<open>numEncodableAckRanges\<close>, from range \<open>i\<close> with \<open>n\<close> ranges to go.\<close>

fun encodable_loop :: "AckFrame \<Rightarrow> byte_count \<Rightarrow> nat \<Rightarrow> nat \<Rightarrow> nat \<Rightarrow> nat go" where
  "encodable_loop f maxSize 0 i len = Inr i"
| "encodable_loop f maxSize (Suc n) i len =
     go_bind (encodeAckRange f i) (\<lambda>(gap, l).
     go_bind (varint_Len gap) (\<lambda>lg. go_bind (varint_Len l) (\<lambda>ll.
     let rangeLen = lg + ll in
     if int (len + rangeLen) > maxSize then Inr i
     else encodable_loop f maxSize n (i + 1) (len + rangeLen))))"

definition numEncodableAckRanges :: "AckFrame \<Rightarrow> byte_count \<Rightarrow> nat go" where
  "numEncodableAckRanges f maxSize =
     (let numRanges = min (length (AckRanges f)) MaxNumAckRanges;
          len = 1 + 8 + 8 + 1 + 8 + (if hasECN f then 8 + 8 + 8 else 0) +
            2 * 8 * (int numRanges - 1) in
      if len \<le> maxSize then Inr numRanges
      else
        go_bind (LargestAcked f) (\<lambda>largest.
        go_bind (varint_Len (word_of_int largest)) (\<lambda>l1.
        go_bind (varint_Len (encodeAckDelay (DelayTime f))) (\<lambda>l2.
        go_bind (encodeAckRange f 0) (\<lambda>(_, firstRange).
        go_bind (varint_Len firstRange) (\<lambda>l3.
        go_bind (if hasECN f then
            go_bind (varint_Len (ECT0_count f)) (\<lambda>a. go_bind (varint_Len (ECT1_count f)) (\<lambda>b.
            go_bind (varint_Len (ECNCE_count f)) (\<lambda>c. Inr (a + b + c))))
          else Inr 0) (\<lambda>l4.
        encodable_loop f maxSize (numRanges - 1) 1 (1 + l1 + l2 + 1 + l3 + l4))))))))"

definition Truncate :: "AckFrame \<Rightarrow> byte_count \<Rightarrow> AckFrame go" where
  "Truncate f maxSize =
     go_bind (numEncodableAckRanges f maxSize) (\<lambda>n. Inr (f\<lparr>AckRanges := take n (AckRanges f)\<rparr>))"

section \<open>Lemmas\<close>

subsection \<open>The order of the ranges\<close>

text \<open>What \<^verbatim>\<open>validateAckRanges\<close> promises: non-empty ranges in falling order with a gap between any two.\<close>

definition above :: "AckRange \<Rightarrow> AckRange \<Rightarrow> bool" where
  "above a b \<longleftrightarrow> Largest b + 1 < Smallest a"

definition ranges_ok :: "AckRange list \<Rightarrow> bool" where
  "ranges_ok rs \<longleftrightarrow> rs \<noteq> [] \<and> (\<forall>r\<in>set rs. Smallest r \<le> Largest r) \<and> sorted_wrt above rs"

definition acked :: "AckFrame \<Rightarrow> packet_number set" where
  "acked f = (\<Union>r\<in>set (AckRanges f). {Smallest r..Largest r})"

lemma AckRange_eta [simp]: "\<lparr>Smallest = Smallest r, Largest = Largest r\<rparr> = (r :: AckRange)"
  by (cases r) simp

lemma validate_single_iff: "validate_single rs \<longleftrightarrow> (\<forall>r\<in>set rs. Smallest r \<le> Largest r)"
  by (induction rs) auto

lemma validate_consistent_iff:
  assumes "\<forall>r\<in>set (a # rs). Smallest r \<le> Largest r"
  shows "validate_consistent a rs \<longleftrightarrow> sorted_wrt above (a # rs)"
  using assms
proof (induction rs arbitrary: a)
  case Nil
  then show ?case by simp
next
  case (Cons r rs)
  have "sorted_wrt above (a # r # rs) \<longleftrightarrow> above a r \<and> sorted_wrt above (r # rs)"
    using Cons.prems by (fastforce simp: above_def)
  with Cons show ?case by (auto simp: above_def)
qed

lemma validate_iff: "validateAckRanges f \<longleftrightarrow> ranges_ok (AckRanges f)"
  using validate_consistent_iff [of "hd (AckRanges f)" "tl (AckRanges f)"]
  by (cases "AckRanges f") (auto simp: validateAckRanges_def ranges_ok_def validate_single_iff)

lemma above_nth: "ranges_ok rs \<Longrightarrow> i < j \<Longrightarrow> j < length rs \<Longrightarrow> Largest (rs ! j) + 1 < Smallest (rs ! i)"
  unfolding ranges_ok_def above_def by (simp add: sorted_wrt_iff_nth_less)

lemma range_nth: "ranges_ok rs \<Longrightarrow> i < length rs \<Longrightarrow> Smallest (rs ! i) \<le> Largest (rs ! i)"
  unfolding ranges_ok_def by simp

lemma Smallest_antimono:
  "ranges_ok rs \<Longrightarrow> i \<le> j \<Longrightarrow> j < length rs \<Longrightarrow> Smallest (rs ! j) \<le> Smallest (rs ! i)"
  using above_nth [of rs i j] range_nth [of rs j] by (cases "i = j") simp_all

lemma Largest_antimono:
  "ranges_ok rs \<Longrightarrow> i \<le> j \<Longrightarrow> j < length rs \<Longrightarrow> Largest (rs ! j) \<le> Largest (rs ! i)"
  using above_nth [of rs i j] range_nth [of rs i] by (cases "i = j") simp_all

lemma ranges_ok_take: "ranges_ok rs \<Longrightarrow> 0 < n \<Longrightarrow> ranges_ok (take n rs)"
  by (auto simp: ranges_ok_def dest: in_set_takeD)

subsection \<open>Binary search\<close>

lemma sort_Search_correct:
  assumes "i \<le> j" "\<And>k l. k \<le> l \<Longrightarrow> l < j \<Longrightarrow> f k \<Longrightarrow> f l"
  shows "i \<le> sort_Search i j f \<and> sort_Search i j f \<le> j \<and>
    (\<forall>k. i \<le> k \<longrightarrow> k < sort_Search i j f \<longrightarrow> \<not> f k) \<and> (sort_Search i j f < j \<longrightarrow> f (sort_Search i j f))"
  using assms
proof (induction i j f rule: sort_Search.induct)
  case (1 i j f)
  define h where "h = (i + j) div 2"
  show ?case
  proof (cases "i < j")
    case True
    then have h: "i \<le> h" "h < j" by (auto simp: h_def)
    show ?thesis
    proof (cases "f h")
      case f: True
      have eq: "sort_Search i j f = sort_Search i h f"
        using True f by (subst sort_Search.simps) (simp add: Let_def h_def)
      have "sort_Search i h f < h \<or> sort_Search i h f = h"
        using 1(2) [OF True h_def] f h 1(4) by (simp add: le_less)
      then show ?thesis
        using 1(2) [OF True h_def] f h 1(4) unfolding eq by auto
    next
      case f: False
      have eq: "sort_Search i j f = sort_Search (h + 1) j f"
        using True f by (subst sort_Search.simps) (simp add: Let_def h_def)
      have below: "\<not> f k" if "k \<le> h" for k
        using 1(4) [of k h] f h that by blast
      have IH: "h + 1 \<le> sort_Search (h + 1) j f" "sort_Search (h + 1) j f \<le> j"
        "\<And>k. h + 1 \<le> k \<Longrightarrow> k < sort_Search (h + 1) j f \<Longrightarrow> \<not> f k"
        "sort_Search (h + 1) j f < j \<Longrightarrow> f (sort_Search (h + 1) j f)"
        using 1(1) [OF True h_def f] h 1(4) by simp_all
      have "\<not> f k" if "k < sort_Search (h + 1) j f" for k
        using below [of k] IH(3) [of k] that by (cases "k \<le> h") simp_all
      then show ?thesis
        using IH h unfolding eq by simp
    qed
  next
    case False
    then show ?thesis using 1(3) by (subst (1 2 3 4 5) sort_Search.simps) simp
  qed
qed

lemma LargestAcked_nth: "AckRanges f \<noteq> [] \<Longrightarrow> LargestAcked f = Inr (Largest (AckRanges f ! 0))"
  by (simp add: LargestAcked_def split: list.splits)

lemma AcksPacket_acked:
  assumes "validateAckRanges f"
  shows "AcksPacket f p = Inr (p \<in> acked f)"
proof -
  define rs where "rs = AckRanges f"
  define i where "i = sort_Search 0 (length rs) (\<lambda>i. p \<ge> Smallest (rs ! i))"
  have ok: "ranges_ok rs" and ne: "rs \<noteq> []"
    using assms by (simp_all add: validate_iff rs_def ranges_ok_def)
  have mem: "p \<in> acked f \<longleftrightarrow> (\<exists>k<length rs. Smallest (rs ! k) \<le> p \<and> p \<le> Largest (rs ! k))"
  proof -
    have "p \<in> acked f \<longleftrightarrow> (\<exists>r\<in>set rs. Smallest r \<le> p \<and> p \<le> Largest r)"
      by (simp add: acked_def rs_def)
    then show ?thesis by (metis in_set_conv_nth)
  qed
  have mono: "k \<le> l \<Longrightarrow> l < length rs \<Longrightarrow> p \<ge> Smallest (rs ! k) \<Longrightarrow> p \<ge> Smallest (rs ! l)" for k l
    using Smallest_antimono [OF ok, of k l] by linarith
  have s: "i \<le> length rs" "\<And>k. k < i \<Longrightarrow> p < Smallest (rs ! k)" "i < length rs \<Longrightarrow> Smallest (rs ! i) \<le> p"
    using sort_Search_correct [of 0 "length rs" "\<lambda>i. p \<ge> Smallest (rs ! i)", OF le0 mono,
        folded i_def] by (simp_all add: not_le)
  have eq: "AcksPacket f p = (if p < Smallest (last rs) \<or> p > Largest (hd rs) then Inr False
      else if i < length rs then Inr (p \<le> Largest (rs ! i)) else Inl index_panic)"
    using ne LargestAcked_nth [of f]
    by (simp add: AcksPacket_def LowestAcked_def Let_def rs_def i_def hd_conv_nth)
  have hd: "hd rs = rs ! 0" and last: "last rs = rs ! (length rs - 1)"
    using ne by (simp_all add: hd_conv_nth last_conv_nth)
  show ?thesis
  proof (cases "p < Smallest (last rs) \<or> p > Largest (hd rs)")
    case True
    have "\<not> (Smallest (rs ! k) \<le> p \<and> p \<le> Largest (rs ! k))" if k: "k < length rs" for k
    proof -
      have "k \<le> length rs - 1" "length rs - 1 < length rs" using k by simp_all
      then show ?thesis
        using True Smallest_antimono [OF ok] Largest_antimono [OF ok _ k, of 0]
        unfolding hd last by fastforce
    qed
    then have "p \<notin> acked f" unfolding mem by blast
    with True eq show ?thesis by simp
  next
    case False
    then have i: "i < length rs"
      using s(1) s(2) [of "length rs - 1"] ne last by (cases "i = length rs") simp_all
    have "p \<in> acked f \<longleftrightarrow> p \<le> Largest (rs ! i)"
    proof
      assume "p \<in> acked f"
      then obtain k where k: "k < length rs" "Smallest (rs ! k) \<le> p" "p \<le> Largest (rs ! k)"
        unfolding mem by blast
      then have "i \<le> k" using s(2) [of k] by (cases "k < i") simp_all
      then show "p \<le> Largest (rs ! i)"
        using Largest_antimono [OF ok _ k(1), of i] k(3) by simp
    qed (use i s(3) mem in blast)
    with False i eq show ?thesis by simp
  qed
qed

subsection \<open>The bytes of a frame\<close>

text \<open>The frames the sender builds: valid ranges and counters that fit into varints.\<close>

definition encodable :: "AckFrame \<Rightarrow> bool" where
  "encodable f \<longleftrightarrow> ranges_ok (AckRanges f) \<and> (\<forall>r\<in>set (AckRanges f). 0 \<le> Smallest r \<and> Largest r < 2 ^ 62) \<and>
     0 \<le> DelayTime f \<and> DelayTime f < 2 ^ 63 \<and>
     fits62 (ECT0_count f) \<and> fits62 (ECT1_count f) \<and> fits62 (ECNCE_count f)"

abbreviation numRanges :: "AckFrame \<Rightarrow> nat" where
  "numRanges f \<equiv> min (length (AckRanges f)) MaxNumAckRanges"

definition gap_of :: "AckFrame \<Rightarrow> nat \<Rightarrow> int" where
  "gap_of f i = Smallest (AckRanges f ! (i - 1)) - Largest (AckRanges f ! i) - 2"

definition block_of :: "AckFrame \<Rightarrow> nat \<Rightarrow> int" where
  "block_of f i = Largest (AckRanges f ! i) - Smallest (AckRanges f ! i)"

definition range_bytes :: "AckFrame \<Rightarrow> nat \<Rightarrow> bytes" where
  "range_bytes f i = venc (word_of_int (gap_of f i)) @ venc (word_of_int (block_of f i))"

definition ecn_bytes :: "AckFrame \<Rightarrow> bytes" where
  "ecn_bytes f =
     (if hasECN f then venc (ECT0_count f) @ venc (ECT1_count f) @ venc (ECNCE_count f) else [])"

definition head_bytes :: "AckFrame \<Rightarrow> bytes" where
  "head_bytes f = venc (word_of_int (Largest (AckRanges f ! 0))) @ venc (encodeAckDelay (DelayTime f))"

definition payload :: "AckFrame \<Rightarrow> bytes" where
  "payload f = head_bytes f @ venc (word_of_int (int (numRanges f) - 1)) @
     venc (word_of_int (block_of f 0)) @ concat (map (range_bytes f) [1..<numRanges f]) @ ecn_bytes f"

lemma numRanges_pos: "encodable f \<Longrightarrow> 0 < numRanges f"
  by (simp add: encodable_def ranges_ok_def MaxNumAckRanges_def)

lemma range_bounds:
  assumes "encodable f" "i < length (AckRanges f)"
  shows "0 \<le> Smallest (AckRanges f ! i)" "Smallest (AckRanges f ! i) \<le> Largest (AckRanges f ! i)"
    "Largest (AckRanges f ! i) < 2 ^ 62"
  using assms range_nth [of "AckRanges f" i] by (simp_all add: encodable_def)

lemma gap_bounds:
  assumes "encodable f" "0 < i" "i < length (AckRanges f)"
  shows "0 \<le> gap_of f i" "gap_of f i < 2 ^ 62" "gap_of f i + 2 \<le> Smallest (AckRanges f ! (i - 1))"
proof -
  have "i - 1 < length (AckRanges f)" "i - 1 < i" using assms by simp_all
  moreover have "ranges_ok (AckRanges f)" using assms by (simp add: encodable_def)
  ultimately have "Largest (AckRanges f ! i) + 1 < Smallest (AckRanges f ! (i - 1))"
    "Smallest (AckRanges f ! (i - 1)) < 2 ^ 62" "0 \<le> Largest (AckRanges f ! i)"
    using range_bounds [OF assms(1), of "i - 1"] range_bounds [OF assms(1,3)]
      above_nth [of "AckRanges f" "i - 1" i] assms(3) by linarith+
  then show "0 \<le> gap_of f i" "gap_of f i < 2 ^ 62" "gap_of f i + 2 \<le> Smallest (AckRanges f ! (i - 1))"
    unfolding gap_of_def by linarith+
qed

lemma block_bounds:
  assumes "encodable f" "i < length (AckRanges f)"
  shows "0 \<le> block_of f i" "block_of f i < 2 ^ 62" "block_of f i \<le> Largest (AckRanges f ! i)"
  using range_bounds [OF assms] by (simp_all add: block_of_def)

lemma fits_head:
  assumes "encodable f"
  shows "fits62 (word_of_int (Largest (AckRanges f ! 0)))" "fits62 (encodeAckDelay (DelayTime f))"
    "fits62 (word_of_int (int (numRanges f) - 1))"
proof -
  have "0 < length (AckRanges f)" using assms by (simp add: encodable_def ranges_ok_def)
  then show "fits62 (word_of_int (Largest (AckRanges f ! 0)))"
    using range_bounds [OF assms, of 0] by (intro fits62_int) simp_all
  have "0 \<le> DelayTime f div 8000" "DelayTime f div 8000 < 2 ^ 62"
    using assms by (auto simp: encodable_def)
  then show "fits62 (encodeAckDelay (DelayTime f))"
    using assms by (simp add: encodeAckDelay_def AckDelayExponent_def encodable_def go_arith fits62_int)
  show "fits62 (word_of_int (int (numRanges f) - 1))"
    using numRanges_pos [OF assms] by (intro fits62_int) (simp_all add: MaxNumAckRanges_def)
qed

lemma encodeAckRange_ok:
  assumes "encodable f" "i < length (AckRanges f)"
  shows "encodeAckRange f i =
    Inr (if i = 0 then 0 else word_of_int (gap_of f i), word_of_int (block_of f i))"
    and "fits62 (word_of_int (block_of f i))" and "0 < i \<Longrightarrow> fits62 (word_of_int (gap_of f i))"
proof -
  show "encodeAckRange f i =
      Inr (if i = 0 then 0 else word_of_int (gap_of f i), word_of_int (block_of f i))"
    using assms by (simp add: encodeAckRange_def gap_of_def block_of_def)
  show "fits62 (word_of_int (block_of f i))"
    using block_bounds [OF assms] by (intro fits62_int)
  show "0 < i \<Longrightarrow> fits62 (word_of_int (gap_of f i))"
    using gap_bounds [OF assms(1) _ assms(2)] by (intro fits62_int)
qed

lemma go_fold_total:
  assumes "\<And>s x. x \<in> set xs \<Longrightarrow> F s x = Inr (g s x)"
  shows "go_fold F s xs = Inr (foldl g s xs)"
  using assms by (induction xs arbitrary: s) auto

lemma foldl_concat: "foldl (\<lambda>b i. b @ h i) b xs = b @ concat (map h xs)"
  by (induction xs arbitrary: b) simp_all

lemma foldl_sum: "foldl (\<lambda>n i. n + h i) (n::nat) xs = n + (\<Sum>i\<leftarrow>xs. h i)"
  by (induction xs arbitrary: n) simp_all

lemma encodable_facts:
  assumes "encodable f"
  shows "AckRanges f \<noteq> []" "LargestAcked f = Inr (Largest (AckRanges f ! 0))"
    "encodeAckRange f 0 = Inr (0, word_of_int (block_of f 0))"
    "fits62 (word_of_int (block_of f 0))"
    "fits62 (ECT0_count f)" "fits62 (ECT1_count f)" "fits62 (ECNCE_count f)"
proof -
  show ne: "AckRanges f \<noteq> []" using assms by (simp add: encodable_def ranges_ok_def)
  then show "LargestAcked f = Inr (Largest (AckRanges f ! 0))" by (rule LargestAcked_nth)
  show "encodeAckRange f 0 = Inr (0, word_of_int (block_of f 0))" "fits62 (word_of_int (block_of f 0))"
    using encodeAckRange_ok [OF assms, of 0] ne by simp_all
  show "fits62 (ECT0_count f)" "fits62 (ECT1_count f)" "fits62 (ECNCE_count f)"
    using assms by (simp_all add: encodable_def)
qed

lemma append_ranges:
  assumes "encodable f"
  shows "go_fold (\<lambda>b i. go_bind (encodeAckRange f i) (\<lambda>(gap, len).
      go_bind (varint_Append b gap) (\<lambda>b. varint_Append b len))) c [1..<numRanges f] =
    Inr (c @ concat (map (range_bytes f) [1..<numRanges f]))"
proof -
  have step: "go_bind (encodeAckRange f i) (\<lambda>(gap, len).
      go_bind (varint_Append b gap) (\<lambda>b. varint_Append b len)) = Inr (b @ range_bytes f i)"
    if "i \<in> set [1..<numRanges f]" for b i
    using that encodeAckRange_ok [OF assms, of i] by (simp add: wire_simps range_bytes_def)
  show ?thesis unfolding foldl_concat [symmetric] by (rule go_fold_total, rule step)
qed

lemma length_ranges:
  assumes "encodable f"
  shows "go_fold (\<lambda>len i. go_bind (encodeAckRange f i) (\<lambda>(gap, l).
      go_bind (varint_Len gap) (\<lambda>lg. go_bind (varint_Len l) (\<lambda>ll. Inr (len + lg + ll)))))
      c [1..<numRanges f] = Inr (c + (\<Sum>i\<leftarrow>[1..<numRanges f]. length (range_bytes f i)))"
proof -
  have step: "go_bind (encodeAckRange f i) (\<lambda>(gap, l).
      go_bind (varint_Len gap) (\<lambda>lg. go_bind (varint_Len l) (\<lambda>ll. Inr (len + lg + ll)))) =
    Inr (len + length (range_bytes f i))"
    if "i \<in> set [1..<numRanges f]" for len i
    using that encodeAckRange_ok [OF assms, of i] by (simp add: wire_simps range_bytes_def)
  show ?thesis unfolding foldl_sum [symmetric] by (rule go_fold_total, rule step)
qed

lemma Append_payload:
  assumes "encodable f"
  shows "AckFrame_Append f b = Inr (b @ (if hasECN f then 3 else 2) # payload f)"
  unfolding AckFrame_Append_def Let_def encodable_facts(2) [OF assms] go_bind_simps
    Append_venc [OF fits_head(1) [OF assms]] Append_venc [OF fits_head(2) [OF assms]]
    Append_venc [OF fits_head(3) [OF assms]] encodable_facts(3) [OF assms] prod.case
    Append_venc [OF encodable_facts(4) [OF assms]] append_ranges [OF assms]
    Append_venc [OF encodable_facts(5) [OF assms]] Append_venc [OF encodable_facts(6) [OF assms]]
    Append_venc [OF encodable_facts(7) [OF assms]]
  by (simp add: payload_def head_bytes_def ecn_bytes_def)

lemma length_venc_63: "0 \<le> x \<Longrightarrow> x \<le> 63 \<Longrightarrow> length (venc (word_of_int x)) = 1"
  by (rule length_venc_small)
    (simp add: maxVarInt1_def word_le_def uint_word_of_int take_bit_int_eq_self)

lemma length_numRanges:
  assumes "encodable f"
  shows "length (venc (word_of_int (int (numRanges f) - 1))) = 1"
proof (rule length_venc_63)
  show "0 \<le> int (numRanges f) - 1" using numRanges_pos [OF assms] by simp
  show "int (numRanges f) - 1 \<le> 63" by (simp add: MaxNumAckRanges_def)
qed

lemma Length_payload:
  assumes "encodable f"
  shows "AckFrame_Length f = Inr (1 + length (payload f))"
  unfolding AckFrame_Length_def Let_def encodable_facts(2) [OF assms] go_bind_simps
    Len_venc [OF fits_head(1) [OF assms]] Len_venc [OF fits_head(2) [OF assms]]
    block_of_def [symmetric] Len_venc [OF encodable_facts(4) [OF assms]] length_ranges [OF assms]
    Len_venc [OF encodable_facts(5) [OF assms]] Len_venc [OF encodable_facts(6) [OF assms]]
    Len_venc [OF encodable_facts(7) [OF assms]]
  using length_numRanges [OF assms]
  by (simp add: payload_def head_bytes_def ecn_bytes_def length_concat comp_def del: of_int_diff)

subsection \<open>Parsing what was appended\<close>

lemma parse_ranges_step:
  assumes "encodable f" "0 < i" "i < length (AckRanges f)"
  shows "parse_ranges (Suc n) (Smallest (AckRanges f ! (i - 1))) acc (range_bytes f i @ rest) =
    parse_ranges n (Smallest (AckRanges f ! i)) (acc @ [AckRanges f ! i]) rest"
proof -
  note g = gap_bounds [OF assms] and b = block_bounds [OF assms(1,3)]
  have fits: "fits62 (word_of_int (gap_of f i))" "fits62 (word_of_int (block_of f i))"
    using encodeAckRange_ok [OF assms(1,3)] assms(2) by simp_all
  have s: "sint (word_of_int (gap_of f i) :: u64) = gap_of f i"
    "sint (word_of_int (block_of f i) :: u64) = block_of f i"
    using g b by (simp_all only: sint_word_of_int)
  have "\<not> Smallest (AckRanges f ! (i - 1)) < gap_of f i + 2"
    "Smallest (AckRanges f ! (i - 1)) - gap_of f i - 2 = Largest (AckRanges f ! i)"
    "\<not> Largest (AckRanges f ! i) < block_of f i"
    "Largest (AckRanges f ! i) - block_of f i = Smallest (AckRanges f ! i)"
    using g b by (simp_all add: gap_of_def block_of_def)
  then show ?thesis
    unfolding range_bytes_def append_assoc parse_ranges.simps varint_codec.dec_enc [OF fits(1)]
      varint_codec.dec_enc [OF fits(2)] sum.case prod.case Let_def s
    by simp
qed

lemma parse_ranges_payload:
  assumes "encodable f" "0 < i" "i + n \<le> length (AckRanges f)"
  shows "parse_ranges n (Smallest (AckRanges f ! (i - 1))) (take i (AckRanges f))
      (concat (map (range_bytes f) [i..<i + n]) @ rest) = Inr (take (i + n) (AckRanges f), rest)"
  using assms(2,3)
proof (induction n arbitrary: i)
  case 0
  then show ?case by simp
next
  case (Suc n)
  have "[i..<i + Suc n] = i # [Suc i..<Suc i + n]"
    using upt_conv_Cons [of i "i + Suc n"] by simp
  then show ?case
    using Suc.IH [of "Suc i"] Suc.prems parse_ranges_step [OF assms(1), of i n]
    by (simp add: take_Suc_conv_app_nth)
qed

lemma decode_encodeAckDelay:
  assumes "0 \<le> d" "d < 2 ^ 63"
  shows "decode_delay (encodeAckDelay d) AckDelayExponent = d - d mod 8000"
proof -
  have e: "encodeAckDelay d = word_of_int (d div 8000)"
    using assms by (simp add: encodeAckDelay_def AckDelayExponent_def go_arith)
  have q: "0 \<le> d div 8000" using assms by (simp add: pos_imp_zdiv_nonneg_iff)
  have m: "d div 8000 * 8000 \<le> d" using div_mult_mod_eq [of d 8000] pos_mod_sign [of 8000 d] by linarith
  have "d div 8000 * 8000 < 2 ^ 63" using m assms(2) by (rule le_less_trans)
  then have b: "0 \<le> d div 8000 * 8" "d div 8000 * 8 < 2 ^ 62" "d div 8000 * 8000 \<le> d"
    using q m by simp_all
  have "push_bit 3 (word_of_int (d div 8000) :: u64) = word_of_int (d div 8000 * 8)"
    by (simp add: push_bit_eq_mult)
  moreover have "sint (word_of_int (d div 8000 * 8) :: u64) = d div 8000 * 8"
    by (rule sint_word_of_int [OF b(1,2)])
  moreover have "i64 (d div 8000 * 8000) = d div 8000 * 8000"
    using b assms by (intro i64_id) (simp add: is_i64_def)
  moreover have "\<not> d div 8000 * 8000 < 0" using b(1) by linarith
  moreover have "d div 8000 * 8000 = d - d mod 8000" by (simp add: minus_mod_eq_div_mult)
  ultimately show ?thesis
    by (simp add: decode_delay_def e AckDelayExponent_def Microsecond_def Let_def mult.assoc)
qed

text \<open>The frame the peer sees: at most 64 ranges, the delay rounded down to a multiple of 8 microseconds.\<close>

definition on_the_wire :: "AckFrame \<Rightarrow> AckFrame" where
  "on_the_wire f = f\<lparr>AckRanges := take MaxNumAckRanges (AckRanges f), DelayTime := DelayTime f - DelayTime f mod 8000\<rparr>"

lemma parse_ecn_bytes:
  assumes "encodable f" "hasECN f"
  shows "parse_ecn g (ecn_bytes f @ rest) =
    Inr (g\<lparr>ECT0_count := ECT0_count f, ECT1_count := ECT1_count f, ECNCE_count := ECNCE_count f\<rparr>, rest)"
  using assms encodable_facts [OF assms(1)] by (simp add: parse_ecn_def ecn_bytes_def wire_simps)

lemma unat_small: "n < 64 \<Longrightarrow> unat (word_of_int (int n) :: u64) = n"
  by (simp add: unat_of_nat take_bit_nat_eq_self)

lemma take_numRanges: "take (min (length xs) n) xs = take n xs"
  by (cases "length xs \<le> n") (simp_all add: min_absorb1 min_absorb2)

lemma parse_payload:
  assumes "encodable f"
  shows "parseAckFrame new_AckFrame (payload f @ rest) (hasECN f) AckDelayExponent =
    Inr (on_the_wire f, length (payload f))"
proof -
  define n where "n = numRanges f - 1"
  have n: "numRanges f = 1 + n" using numRanges_pos [OF assms] by (simp add: n_def)
  have len: "0 < length (AckRanges f)" using encodable_facts(1) [OF assms] by simp
  have nw: "unat (word_of_int (int (numRanges f) - 1) :: u64) = n"
  proof -
    have "n < 64" using n by (simp add: MaxNumAckRanges_def)
    moreover have "int (numRanges f) - 1 = int n" using n by linarith
    ultimately show ?thesis by (simp only: unat_small)
  qed
  have ok: "ranges_ok (take (numRanges f) (AckRanges f))"
    using assms numRanges_pos [OF assms] by (intro ranges_ok_take) (simp_all add: encodable_def)
  have la: "sint (word_of_int (Largest (AckRanges f ! 0)) :: u64) = Largest (AckRanges f ! 0)"
    "sint (word_of_int (block_of f 0) :: u64) = block_of f 0"
    using range_bounds [OF assms len] block_bounds [OF assms len] by (simp_all only: sint_word_of_int)
  have delay: "decode_delay (encodeAckDelay (DelayTime f)) AckDelayExponent =
      DelayTime f - DelayTime f mod 8000"
    using assms by (intro decode_encodeAckDelay) (simp_all add: encodable_def)
  have first: "[\<lparr>Smallest = Largest (AckRanges f ! 0) - block_of f 0, Largest = Largest (AckRanges f ! 0)\<rparr>]
      = take 1 (AckRanges f)"
    using len by (simp add: block_of_def take_Suc_conv_app_nth [of 0, simplified])
  have ranges: "parse_ranges n (Largest (AckRanges f ! 0) - block_of f 0) (take 1 (AckRanges f))
      (concat (map (range_bytes f) [1..<numRanges f]) @ ecn_bytes f @ rest) =
    Inr (take (numRanges f) (AckRanges f), ecn_bytes f @ rest)"
    using parse_ranges_payload [OF assms, of 1 n "ecn_bytes f @ rest"] n
    by (simp add: block_of_def)
  have p: "payload f @ rest = venc (word_of_int (Largest (AckRanges f ! 0))) @
      venc (encodeAckDelay (DelayTime f)) @ venc (word_of_int (int (numRanges f) - 1)) @
      venc (word_of_int (block_of f 0)) @
      concat (map (range_bytes f) [1..<numRanges f]) @ ecn_bytes f @ rest"
    by (simp add: payload_def head_bytes_def)
  note dec = varint_codec.dec_enc [OF fits_head(1) [OF assms]] varint_codec.dec_enc [OF fits_head(2) [OF assms]]
    varint_codec.dec_enc [OF fits_head(3) [OF assms]] varint_codec.dec_enc [OF encodable_facts(4) [OF assms]]
  have nb: "\<not> Largest (AckRanges f ! 0) < block_of f 0" using block_bounds(3) [OF assms len] by simp
  have valid: "validateAckRanges (new_AckFrame\<lparr>DelayTime := x, AckRanges := take (numRanges f) (AckRanges f)\<rparr>)" for x
    using ok by (simp add: validate_iff)
  have new: "AckRanges (new_AckFrame\<lparr>DelayTime := x\<rparr>) @ ys = ys" for x ys
    by (simp add: new_AckFrame_def)
  have body: "parseAckFrame new_AckFrame (payload f @ rest) (hasECN f) AckDelayExponent =
    (let g = new_AckFrame\<lparr>DelayTime := DelayTime f - DelayTime f mod 8000,
               AckRanges := take (numRanges f) (AckRanges f)\<rparr>; b = ecn_bytes f @ rest in
     if hasECN f then
       (case parse_ecn g b of Inl e \<Rightarrow> Inl e | Inr (g, b) \<Rightarrow> Inr (g, length (payload f @ rest) - length b))
     else Inr (g, length (payload f @ rest) - length b))"
    unfolding parseAckFrame_def Let_def p dec sum.case prod.case la nw delay if_not_P [OF nb] new first ranges
    by (simp only: valid not_True_eq_False if_False)
  show ?thesis
  proof (cases "hasECN f")
    case True
    then show ?thesis
      unfolding body by (simp add: parse_ecn_bytes [OF assms] on_the_wire_def take_numRanges new_AckFrame_def)
  next
    case False
    then show ?thesis
      unfolding body
      by (cases f) (simp add: on_the_wire_def take_numRanges new_AckFrame_def ecn_bytes_def hasECN_def word_gt_0)
  qed
qed

subsection \<open>Truncation\<close>

definition size_upto :: "AckFrame \<Rightarrow> nat \<Rightarrow> nat" where
  "size_upto f k = 1 + length (head_bytes f) + 1 + length (venc (word_of_int (block_of f 0))) +
     length (ecn_bytes f) + (\<Sum>i\<leftarrow>[1..<k]. length (range_bytes f i))"

lemma encodable_take: "encodable f \<Longrightarrow> 0 < k \<Longrightarrow> encodable (f\<lparr>AckRanges := take k (AckRanges f)\<rparr>)"
  by (auto simp: encodable_def ranges_ok_take dest: in_set_takeD)

lemma Length_take:
  assumes "encodable f" "0 < k" "k \<le> numRanges f"
  shows "AckFrame_Length (f\<lparr>AckRanges := take k (AckRanges f)\<rparr>) = Inr (size_upto f k)"
proof -
  let ?g = "f\<lparr>AckRanges := take k (AckRanges f)\<rparr>"
  have g: "encodable ?g" using assms(1,2) by (rule encodable_take)
  have n: "numRanges ?g = k" using assms(2,3) by simp
  have "(\<Sum>i\<leftarrow>[1..<k]. length (range_bytes ?g i)) = (\<Sum>i\<leftarrow>[1..<k]. length (range_bytes f i))"
    by (intro arg_cong [where f = sum_list] map_cong)
      (auto simp: range_bytes_def gap_of_def block_of_def)
  moreover have "head_bytes ?g = head_bytes f" "block_of ?g 0 = block_of f 0" "ecn_bytes ?g = ecn_bytes f"
    using assms(2) by (simp_all add: head_bytes_def block_of_def ecn_bytes_def hasECN_def)
  ultimately show ?thesis
    using length_numRanges [OF g]
    unfolding Length_payload [OF g] payload_def size_upto_def n
    by (simp add: length_concat comp_def del: One_nat_def)
qed

lemma encodable_loop_spec:
  assumes "encodable f" "0 < i" "i + n \<le> length (AckRanges f)" "int len \<le> m"
  shows "\<exists>k. encodable_loop f m n i len = Inr k \<and> i \<le> k \<and> k \<le> i + n \<and>
    int (len + (\<Sum>i\<leftarrow>[i..<k]. length (range_bytes f i))) \<le> m \<and>
    (k < i + n \<longrightarrow> m < int (len + (\<Sum>i\<leftarrow>[i..<Suc k]. length (range_bytes f i))))"
  using assms(2-4)
proof (induction n arbitrary: i len)
  case 0
  then show ?case by simp
next
  case (Suc n)
  have step: "encodable_loop f m (Suc n) i len =
      (if int (len + length (range_bytes f i)) > m then Inr i
       else encodable_loop f m n (i + 1) (len + length (range_bytes f i)))"
    using encodeAckRange_ok [OF assms(1), of i] Suc.prems by (simp add: wire_simps range_bytes_def)
  show ?case
  proof (cases "int (len + length (range_bytes f i)) > m")
    case True
    with step Suc.prems show ?thesis by (intro exI [of _ i]) simp
  next
    case False
    then obtain k where k: "encodable_loop f m n (Suc i) (len + length (range_bytes f i)) = Inr k"
      "Suc i \<le> k" "k \<le> Suc i + n"
      "int (len + length (range_bytes f i) + (\<Sum>i\<leftarrow>[Suc i..<k]. length (range_bytes f i))) \<le> m"
      "k < Suc i + n \<longrightarrow> m < int (len + length (range_bytes f i) +
         (\<Sum>i\<leftarrow>[Suc i..<Suc k]. length (range_bytes f i)))"
      using Suc.IH [of "Suc i" "len + length (range_bytes f i)"] Suc.prems by auto
    have "[i..<k] = i # [Suc i..<k]" "[i..<Suc k] = i # [Suc i..<Suc k]"
      using k(2) by (simp_all add: upt_conv_Cons del: upt_Suc)
    with step False k show ?thesis by (intro exI [of _ k]) (simp add: add.assoc del: upt_Suc encodable_loop.simps)
  qed
qed

lemma numEncodable_spec:
  assumes "encodable f" "int (size_upto f 1) \<le> m"
  shows "\<exists>k. numEncodableAckRanges f m = Inr k \<and> 0 < k \<and> k \<le> numRanges f \<and> int (size_upto f k) \<le> m \<and>
    (k < numRanges f \<longrightarrow> m < int (size_upto f (Suc k)))"
proof -
  define B :: int where "B = 1 + 8 + 8 + 1 + 8 + (if hasECN f then 8 + 8 + 8 else 0) + 2 * 8 * (int (numRanges f) - 1)"
  note len = length_venc(2)
  have pos: "0 < numRanges f" using numRanges_pos [OF assms(1)] .
  define n where "n = numRanges f"
  have n: "0 < n" using pos by (simp only: n_def)
  have sum: "(\<Sum>i\<leftarrow>[1..<k]. length (range_bytes f i)) \<le> 16 * (k - 1)" for k
  proof (rule order_trans [OF sum_list_mono])
    show "length (range_bytes f i) \<le> 16" for i
      using len [of "word_of_int (gap_of f i)"] len [of "word_of_int (block_of f i)"]
      by (simp add: range_bytes_def)
  qed (simp add: sum_list_triv)
  show ?thesis
  proof (cases "B \<le> m")
    case True
    have S: "int (\<Sum>i\<leftarrow>[1..<n]. length (range_bytes f i)) \<le> 16 * int n - 16"
      using sum [of n] n by linarith
    have "int (size_upto f (numRanges f)) \<le> B"
      using S len [of "word_of_int (Largest (AckRanges f ! 0))"]
        len [of "encodeAckDelay (DelayTime f)"] len [of "word_of_int (block_of f 0)"]
        len [of "ECT0_count f"] len [of "ECT1_count f"] len [of "ECNCE_count f"]
      by (cases "hasECN f") (simp_all add: size_upto_def B_def head_bytes_def ecn_bytes_def n_def [symmetric])
    with True pos show ?thesis
      by (intro exI [of _ "numRanges f"]) (simp add: numEncodableAckRanges_def Let_def B_def)
  next
    case False
    have eq: "numEncodableAckRanges f m = encodable_loop f m (numRanges f - 1) 1 (size_upto f 1)"
      using False encodable_facts [OF assms(1)] fits_head [OF assms(1)]
      by (simp add: numEncodableAckRanges_def Let_def B_def wire_simps size_upto_def head_bytes_def
          ecn_bytes_def ac_simps)
    have split: "size_upto f k = size_upto f 1 + (\<Sum>i\<leftarrow>[1..<k]. length (range_bytes f i))" for k
      by (simp add: size_upto_def)
    show ?thesis
      using encodable_loop_spec [OF assms(1), of 1 "numRanges f - 1", OF _ _ assms(2)] pos
      unfolding eq split [symmetric] by auto
  qed
qed

section \<open>Properties\<close>

text \<open>
  Property C22.  For every frame with valid ranges, \<^verbatim>\<open>AcksPacket\<close> never panics and its binary search
  answers exactly whether the packet number lies in one of the ranges.
\<close>

theorem acks_packet_correct:
  assumes "validateAckRanges f"
  shows "AcksPacket f p = Inr (\<exists>r\<in>set (AckRanges f). Smallest r \<le> p \<and> p \<le> Largest r)"
  using AcksPacket_acked [OF assms] by (simp add: acked_def)

definition ack_example :: AckFrame where
  "ack_example = \<lparr>AckRanges = [\<lparr>Smallest = 9, Largest = 10\<rparr>, \<lparr>Smallest = 1, Largest = 5\<rparr>],
     DelayTime = 81234, ECT0_count = 3, ECT1_count = 0, ECNCE_count = 1\<rparr>"

theorem acks_packet_correct_witness: "validateAckRanges ack_example \<and> AcksPacket ack_example 4 = Inr True"
proof -
  have v: "validateAckRanges ack_example"
    by (simp add: validateAckRanges_def ack_example_def)
  show ?thesis using v acks_packet_correct [OF v, of 4] by (simp add: ack_example_def)
qed

text \<open>
  Property C9.  What \<^verbatim>\<open>Append\<close> writes for a frame, \<^verbatim>\<open>parseAckFrame\<close> reads back, whatever bytes follow and
  consuming exactly the bytes written: the ECN counts, the first 64 ranges, and the delay rounded
  down to a multiple of 8 microseconds.
\<close>

theorem ack_frame_roundtrip:
  assumes "encodable f"
  shows "\<exists>p. AckFrame_Append f b = Inr (b @ (if hasECN f then 3 else 2) # p) \<and>
    parseAckFrame new_AckFrame (p @ rest) (hasECN f) AckDelayExponent = Inr (on_the_wire f, length p)"
  using Append_payload [OF assms] parse_payload [OF assms] by blast

lemma ack_example_encodable: "encodable ack_example"
  by (simp add: encodable_def ranges_ok_def above_def ack_example_def fits62_def maxVarInt8_def)

theorem ack_frame_roundtrip_witness:
  "\<exists>p. AckFrame_Append ack_example [] = Inr (3 # p) \<and>
    parseAckFrame new_AckFrame (p @ [7]) True AckDelayExponent =
      Inr (ack_example\<lparr>DelayTime := 80000\<rparr>, length p)"
proof -
  have "hasECN ack_example" "on_the_wire ack_example = ack_example\<lparr>DelayTime := 80000\<rparr>"
    by (simp_all add: hasECN_def on_the_wire_def ack_example_def MaxNumAckRanges_def)
  then show ?thesis
    using ack_frame_roundtrip [OF ack_example_encodable, of "[]" "[7]"] by simp
qed

text \<open>
  Property C35.  \<^verbatim>\<open>Length\<close> is the number of bytes \<^verbatim>\<open>Append\<close> adds.
\<close>

theorem ack_frame_length:
  assumes "encodable f"
  shows "\<exists>p. AckFrame_Append f b = Inr (b @ p) \<and> AckFrame_Length f = Inr (length p)"
  using Append_payload [OF assms] Length_payload [OF assms] by simp

theorem ack_frame_length_witness: "\<exists>p. AckFrame_Append ack_example [] = Inr p \<and> AckFrame_Length ack_example = Inr (length p)"
  using ack_frame_length [OF ack_example_encodable, of "[]"] by simp

text \<open>
  Property C31.  When at least the first range fits, \<^verbatim>\<open>Truncate\<close> keeps a non-empty prefix of at most 64
  ranges whose encoding fits into the given size, and it keeps as many as possible: one more range
  would not fit.
\<close>

theorem truncate_fits:
  assumes "encodable f"
    and "AckFrame_Length (f\<lparr>AckRanges := take 1 (AckRanges f)\<rparr>) = Inr l" "int l \<le> maxSize"
  shows "\<exists>k n. Truncate f maxSize = Inr (f\<lparr>AckRanges := take k (AckRanges f)\<rparr>) \<and> 1 \<le> k \<and> k \<le> numRanges f \<and>
    AckFrame_Length (f\<lparr>AckRanges := take k (AckRanges f)\<rparr>) = Inr n \<and> int n \<le> maxSize \<and>
    (k < numRanges f \<longrightarrow>
      (\<exists>m. AckFrame_Length (f\<lparr>AckRanges := take (k + 1) (AckRanges f)\<rparr>) = Inr m \<and> maxSize < int m))"
proof -
  have "1 \<le> numRanges f" using numRanges_pos [OF assms(1)] by linarith
  then have "int (size_upto f 1) \<le> maxSize"
    using Length_take [OF assms(1), of 1] assms(2,3) by simp
  from numEncodable_spec [OF assms(1) this] obtain k where
    k: "numEncodableAckRanges f maxSize = Inr k" "0 < k" "k \<le> numRanges f" "int (size_upto f k) \<le> maxSize"
      "k < numRanges f \<longrightarrow> maxSize < int (size_upto f (Suc k))" by blast
  have "AckFrame_Length (f\<lparr>AckRanges := take k (AckRanges f)\<rparr>) = Inr (size_upto f k)"
    using Length_take [OF assms(1) k(2,3)] .
  moreover have "k < numRanges f \<Longrightarrow>
      AckFrame_Length (f\<lparr>AckRanges := take (k + 1) (AckRanges f)\<rparr>) = Inr (size_upto f (Suc k))"
    using Length_take [OF assms(1), of "Suc k"] by (simp only: Suc_eq_plus1 zero_less_Suc Suc_leI)
  moreover have "Truncate f maxSize = Inr (f\<lparr>AckRanges := take k (AckRanges f)\<rparr>)"
    using k(1) by (simp add: Truncate_def)
  ultimately show ?thesis using k(2-5) by (metis One_nat_def Suc_leI)
qed

theorem truncate_fits_witness:
  "\<exists>k n. Truncate ack_example 9 = Inr (ack_example\<lparr>AckRanges := take k (AckRanges ack_example)\<rparr>) \<and> 1 \<le> k \<and>
    AckFrame_Length (ack_example\<lparr>AckRanges := take k (AckRanges ack_example)\<rparr>) = Inr n \<and> int n \<le> 9"
proof -
  have "AckFrame_Length (ack_example\<lparr>AckRanges := take 1 (AckRanges ack_example)\<rparr>) = Inr 8"
    by (simp add: ack_example_def AckFrame_Length_def LargestAcked_def encodeAckDelay_def AckDelayExponent_def
        go_div_def varint_Len_def maxVarInt_defs hasECN_def MaxNumAckRanges_def)
  from truncate_fits [OF ack_example_encodable this, of 9] show ?thesis by auto
qed

end
