(* ===== verification/ReceivedPackets.thy ===== *)
theory ReceivedPackets
  imports AckFrame
begin

text \<open>
  Received packets: \<^verbatim>\<open>received_packet_history.go\<close> (the ranges of packet numbers received),
  \<^verbatim>\<open>received_packet_tracker.go\<close> (when to send an ACK and what it contains) and
  \<^verbatim>\<open>received_packet_handler.go\<close> (one tracker per packet number space) of \<^verbatim>\<open>internal/ackhandler\<close>.

  A frame returned by \<^verbatim>\<open>GetAckFrame\<close> is the object \<^verbatim>\<open>lastAck\<close> points to; the step relation at the end
  therefore lets the caller truncate it in place, as \<^verbatim>\<open>packet_packer.go\<close> does.
\<close>

section \<open>The packet history\<close>

record interval =
  Start :: packet_number
  End :: packet_number

record receivedPacketHistory =
  ranges :: "interval list"
  deletedBelow :: packet_number

definition newReceivedPacketHistory :: receivedPacketHistory where
  "newReceivedPacketHistory = \<lparr>ranges = [], deletedBelow = InvalidPacketNumber\<rparr>"

text \<open>The loop of \<^verbatim>\<open>addToRanges\<close>, with \<open>n\<close> ranges to go, from the highest one downwards.\<close>

fun addToRanges_loop :: "interval list \<Rightarrow> packet_number \<Rightarrow> nat \<Rightarrow> interval list \<times> bool" where
  "addToRanges_loop rs p 0 = (slices_Insert rs 0 \<lparr>Start = p, End = p\<rparr>, True)"
| "addToRanges_loop rs p (Suc i) =
     (if p \<ge> Start (rs ! i) \<and> p \<le> End (rs ! i) then (rs, False)
      else if End (rs ! i) = p - 1 then (rs[i := (rs ! i)\<lparr>End := p\<rparr>], True)
      else if Start (rs ! i) = p + 1 then
        let rs = rs[i := (rs ! i)\<lparr>Start := p\<rparr>] in
        if i > 0 \<and> End (rs ! (i - 1)) + 1 = Start (rs ! i) then
          let rs = rs[i - 1 := (rs ! (i - 1))\<lparr>End := End (rs ! i)\<rparr>] in
          (slices_Delete rs i (i + 1), True)
        else (rs, True)
      else if p > End (rs ! i) then (slices_Insert rs (i + 1) \<lparr>Start = p, End = p\<rparr>, True)
      else addToRanges_loop rs p i)"

definition addToRanges :: "receivedPacketHistory \<Rightarrow> packet_number \<Rightarrow> receivedPacketHistory \<times> bool" where
  "addToRanges h p =
     (if length (ranges h) = 0 then (h\<lparr>ranges := ranges h @ [\<lparr>Start = p, End = p\<rparr>]\<rparr>, True)
      else let (rs, isNew) = addToRanges_loop (ranges h) p (length (ranges h)) in
        (h\<lparr>ranges := rs\<rparr>, isNew))"

definition history_ReceivedPacket ::
  "receivedPacketHistory \<Rightarrow> packet_number \<Rightarrow> receivedPacketHistory \<times> bool" where
  "history_ReceivedPacket h p =
     (if p < deletedBelow h then (h, False)
      else let (h, isNew) = addToRanges h p in
        if length (ranges h) > MaxNumAckRanges then
          (h\<lparr>ranges := slices_Delete (ranges h) 0 (length (ranges h) - MaxNumAckRanges)\<rparr>, isNew)
        else (h, isNew))"

text \<open>The loop of \<^verbatim>\<open>DeleteBelow\<close> at index \<open>i\<close> with \<open>n\<close> iterations to go: the ranges and \<^verbatim>\<open>idx\<close>.\<close>

fun DeleteBelow_loop ::
  "interval list \<Rightarrow> packet_number \<Rightarrow> nat \<Rightarrow> nat \<Rightarrow> int \<Rightarrow> interval list \<times> int" where
  "DeleteBelow_loop rs p 0 i idx = (rs, idx)"
| "DeleteBelow_loop rs p (Suc n) i idx =
     (if End (rs ! i) < p then DeleteBelow_loop rs p n (i + 1) (int i)
      else if p > Start (rs ! i) \<and> p \<le> End (rs ! i) then (rs[i := (rs ! i)\<lparr>Start := p\<rparr>], idx)
      else (rs, idx))"

definition DeleteBelow :: "receivedPacketHistory \<Rightarrow> packet_number \<Rightarrow> receivedPacketHistory" where
  "DeleteBelow h p =
     (if p < deletedBelow h then h
      else let h = h\<lparr>deletedBelow := p\<rparr> in
        if length (ranges h) = 0 then h
        else let (rs, idx) = DeleteBelow_loop (ranges h) p (length (ranges h)) 0 (- 1) in
          if idx \<ge> 0 then h\<lparr>ranges := slices_Delete rs 0 (nat idx + 1)\<rparr> else h\<lparr>ranges := rs\<rparr>)"

definition Backward :: "receivedPacketHistory \<Rightarrow> interval list" where
  "Backward h = rev (ranges h)"

fun HighestMissing_loop :: "receivedPacketHistory \<Rightarrow> packet_number \<Rightarrow> nat \<Rightarrow> packet_number" where
  "HighestMissing_loop h p 0 = p"
| "HighestMissing_loop h p (Suc i) =
     (let r = ranges h ! i in
      if p \<ge> Start r \<and> p \<le> End r then
        let highest = Start r - 1 in
        if deletedBelow h \<noteq> InvalidPacketNumber \<and> highest < deletedBelow h then InvalidPacketNumber
        else highest
      else if i \<ge> 1 \<and> p > End (ranges h ! (i - 1)) \<and> p \<le> Start r then p
      else HighestMissing_loop h p i)"

definition HighestMissingUpTo :: "receivedPacketHistory \<Rightarrow> packet_number \<Rightarrow> packet_number" where
  "HighestMissingUpTo h p =
     (if length (ranges h) = 0 \<or> (deletedBelow h \<noteq> InvalidPacketNumber \<and> p < deletedBelow h)
      then InvalidPacketNumber
      else HighestMissing_loop h (min (End (last (ranges h))) p) (length (ranges h)))"

fun duplicate_loop :: "interval list \<Rightarrow> packet_number \<Rightarrow> nat \<Rightarrow> bool" where
  "duplicate_loop rs p 0 = False"
| "duplicate_loop rs p (Suc i) =
     (if p > End (rs ! i) then False
      else if p \<le> End (rs ! i) \<and> p \<ge> Start (rs ! i) then True
      else duplicate_loop rs p i)"

definition history_IsPotentiallyDuplicate :: "receivedPacketHistory \<Rightarrow> packet_number \<Rightarrow> bool" where
  "history_IsPotentiallyDuplicate h p =
     (if p < deletedBelow h then True else duplicate_loop (ranges h) p (length (ranges h)))"

section \<open>The trackers\<close>

record receivedPacketTracker =
  ect0 :: u64
  ect1 :: u64
  ecnce :: u64
  packetHistory :: receivedPacketHistory
  lastAck :: "AckFrame option"
  hasNewAck :: bool

definition newReceivedPacketTracker :: receivedPacketTracker where
  "newReceivedPacketTracker = \<lparr>ect0 = 0, ect1 = 0, ecnce = 0,
     packetHistory = newReceivedPacketHistory, lastAck = None, hasNewAck = False\<rparr>"

text \<open>The errors of the received-packet side; \<open>None\<close> is Go's \<^verbatim>\<open>nil\<close> error.\<close>

datatype rcvd_error = DuplicatePacketBug packet_number | ZeroRTTAfter1RTT packet_number packet_number

definition tracker_ReceivedPacket ::
  "'a receivedPacketTracker_scheme \<Rightarrow> packet_number \<Rightarrow> ECN \<Rightarrow> bool \<Rightarrow>
   'a receivedPacketTracker_scheme \<times> rcvd_error option" where
  "tracker_ReceivedPacket h pn ecn ackEliciting =
     (let (hist, isNew) = history_ReceivedPacket (packetHistory h) pn;
          h = h\<lparr>packetHistory := hist\<rparr> in
      if \<not> isNew then (h, Some (DuplicatePacketBug pn))
      else let h = (case ecn of ECT0 \<Rightarrow> h\<lparr>ect0 := ect0 h + 1\<rparr> | ECT1 \<Rightarrow> h\<lparr>ect1 := ect1 h + 1\<rparr>
                    | ECNCE \<Rightarrow> h\<lparr>ecnce := ecnce h + 1\<rparr> | _ \<Rightarrow> h) in
        if \<not> ackEliciting then (h, None) else (h\<lparr>hasNewAck := True\<rparr>, None))"

definition tracker_GetAckFrame ::
  "'a receivedPacketTracker_scheme \<Rightarrow> AckFrame option \<times> 'a receivedPacketTracker_scheme" where
  "tracker_GetAckFrame h =
     (if \<not> hasNewAck h then (None, h)
      else let ack = AckFrame_Reset (case lastAck h of None \<Rightarrow> new_AckFrame | Some ack \<Rightarrow> ack);
               ack = ack\<lparr>ECT0_count := ect0 h, ECT1_count := ect1 h, ECNCE_count := ecnce h\<rparr>;
               ack = ack\<lparr>AckRanges := AckRanges ack @
                 map (\<lambda>r. \<lparr>Smallest = Start r, Largest = End r\<rparr>) (Backward (packetHistory h))\<rparr> in
        (Some ack, h\<lparr>lastAck := Some ack, hasNewAck := False\<rparr>))"

definition tracker_IsPotentiallyDuplicate :: "'a receivedPacketTracker_scheme \<Rightarrow> packet_number \<Rightarrow> bool" where
  "tracker_IsPotentiallyDuplicate h pn = history_IsPotentiallyDuplicate (packetHistory h) pn"

definition reorderingThreshold :: packet_number where
  [go_defs]: "reorderingThreshold = 1"

definition packetsBeforeAck :: int where
  [go_defs]: "packetsBeforeAck = 2"

definition MaxAckDelay :: duration where
  [go_defs]: "MaxAckDelay = 25 * Millisecond"

record appDataReceivedPacketTracker = receivedPacketTracker +
  largestObservedRcvdTime :: mtime
  largestObserved :: packet_number
  ignoreBelow :: packet_number
  maxAckDelay :: duration
  ackQueued :: bool
  ackElicitingPacketsReceivedSinceLastAck :: int
  ackAlarm :: mtime

definition newAppDataReceivedPacketTracker :: appDataReceivedPacketTracker where
  "newAppDataReceivedPacketTracker = receivedPacketTracker.extend newReceivedPacketTracker
     \<lparr>largestObservedRcvdTime = 0, largestObserved = 0, ignoreBelow = 0, maxAckDelay = MaxAckDelay,
      ackQueued = False, ackElicitingPacketsReceivedSinceLastAck = 0, ackAlarm = 0\<rparr>"

definition isMissing :: "appDataReceivedPacketTracker \<Rightarrow> packet_number \<Rightarrow> bool go" where
  "isMissing h p =
     (case lastAck h of
        None \<Rightarrow> Inr False
      | Some ack \<Rightarrow>
          if p < ignoreBelow h then Inr False
          else go_bind (LargestAcked ack) (\<lambda>largest.
            if p < largest then go_bind (AcksPacket ack p) (\<lambda>acks. Inr (\<not> acks)) else Inr False))"

definition hasNewMissingPackets :: "appDataReceivedPacketTracker \<Rightarrow> bool go" where
  "hasNewMissingPackets h =
     (case lastAck h of
        None \<Rightarrow> Inr False
      | Some ack \<Rightarrow>
          if largestObserved h < reorderingThreshold then Inr False
          else let highestMissing =
                 HighestMissingUpTo (packetHistory h) (largestObserved h - reorderingThreshold) in
            if highestMissing = InvalidPacketNumber then Inr False
            else go_bind (LargestAcked ack) (\<lambda>largest.
              if highestMissing < largest then Inr False
              else Inr (highestMissing > largest - reorderingThreshold)))"

definition shouldQueueACK :: "appDataReceivedPacketTracker \<Rightarrow> packet_number \<Rightarrow> ECN \<Rightarrow> bool \<Rightarrow> bool go" where
  "shouldQueueACK h pn ecn wasMissing =
     (if wasMissing then Inr True
      else if ackElicitingPacketsReceivedSinceLastAck h \<ge> packetsBeforeAck then Inr True
      else go_bind (hasNewMissingPackets h) (\<lambda>b.
        if b then Inr True else if ecn = ECNCE then Inr True else Inr False))"

definition app_ReceivedPacket ::
  "appDataReceivedPacketTracker \<Rightarrow> packet_number \<Rightarrow> ECN \<Rightarrow> mtime \<Rightarrow> bool \<Rightarrow>
   (appDataReceivedPacketTracker \<times> rcvd_error option) go" where
  "app_ReceivedPacket h pn ecn rcvTime ackEliciting =
     (case tracker_ReceivedPacket h pn ecn ackEliciting of
        (h, Some err) \<Rightarrow> Inr (h, Some err)
      | (h, None) \<Rightarrow>
        let h = (if pn \<ge> largestObserved h
                 then h\<lparr>largestObserved := pn, largestObservedRcvdTime := rcvTime\<rparr> else h) in
        if \<not> ackEliciting then Inr (h, None)
        else
          let h = h\<lparr>ackElicitingPacketsReceivedSinceLastAck :=
                ackElicitingPacketsReceivedSinceLastAck h + 1\<rparr> in
          go_bind (isMissing h pn) (\<lambda>missing.
          go_bind (if ackQueued h then Inr False else shouldQueueACK h pn ecn missing) (\<lambda>queue.
          let h = (if queue then h\<lparr>ackQueued := True, ackAlarm := 0\<rparr> else h) in
          if \<not> ackQueued h then
            Inr (h\<lparr>ackAlarm := monotime_Add rcvTime (maxAckDelay h)\<rparr>, None)
          else Inr (h, None))))"

definition IgnoreBelow :: "appDataReceivedPacketTracker \<Rightarrow> packet_number \<Rightarrow> appDataReceivedPacketTracker" where
  "IgnoreBelow h pn =
     (if pn \<le> ignoreBelow h then h
      else h\<lparr>ignoreBelow := pn, packetHistory := DeleteBelow (packetHistory h) pn\<rparr>)"

definition app_GetAckFrame ::
  "appDataReceivedPacketTracker \<Rightarrow> mtime \<Rightarrow> bool \<Rightarrow> AckFrame option \<times> appDataReceivedPacketTracker" where
  "app_GetAckFrame h now onlyIfQueued =
     (if onlyIfQueued \<and> \<not> ackQueued h \<and> (monotime_IsZero (ackAlarm h) \<or> ackAlarm h > now) then (None, h)
      else case tracker_GetAckFrame h of
        (None, h) \<Rightarrow> (None, h)
      | (Some ack, h) \<Rightarrow>
          let ack = ack\<lparr>DelayTime := max 0 (monotime_Sub now (largestObservedRcvdTime h))\<rparr> in
          (Some ack, h\<lparr>lastAck := Some ack, ackQueued := False, ackAlarm := 0,
             ackElicitingPacketsReceivedSinceLastAck := 0\<rparr>))"

section \<open>The handler\<close>

record ReceivedPacketHandler =
  initialPackets :: "receivedPacketTracker option"
  handshakePackets :: "receivedPacketTracker option"
  appDataPackets :: appDataReceivedPacketTracker
  lowest1RTTPacket :: packet_number

definition NewReceivedPacketHandler :: ReceivedPacketHandler where
  "NewReceivedPacketHandler = \<lparr>initialPackets = Some newReceivedPacketTracker,
     handshakePackets = Some newReceivedPacketTracker,
     appDataPackets = newAppDataReceivedPacketTracker, lowest1RTTPacket = InvalidPacketNumber\<rparr>"

definition nil_deref :: string where
  "nil_deref = ''invalid memory address or nil pointer dereference''"

fun handler_ReceivedPacket ::
  "ReceivedPacketHandler \<Rightarrow> packet_number \<Rightarrow> ECN \<Rightarrow> EncryptionLevel \<Rightarrow> mtime \<Rightarrow> bool \<Rightarrow>
   (ReceivedPacketHandler \<times> rcvd_error option) go" where
  "handler_ReceivedPacket h pn ecn EncryptionInitial rcvTime ackEliciting =
     (case initialPackets h of
        None \<Rightarrow> Inl nil_deref
      | Some t \<Rightarrow> let (t, err) = tracker_ReceivedPacket t pn ecn ackEliciting in
          Inr (h\<lparr>initialPackets := Some t\<rparr>, err))"
| "handler_ReceivedPacket h pn ecn EncryptionHandshake rcvTime ackEliciting =
     (case handshakePackets h of
        None \<Rightarrow> Inr (h, None)
      | Some t \<Rightarrow> let (t, err) = tracker_ReceivedPacket t pn ecn ackEliciting in
          Inr (h\<lparr>handshakePackets := Some t\<rparr>, err))"
| "handler_ReceivedPacket h pn ecn Encryption0RTT rcvTime ackEliciting =
     (if lowest1RTTPacket h \<noteq> InvalidPacketNumber \<and> pn > lowest1RTTPacket h then
        Inr (h, Some (ZeroRTTAfter1RTT pn (lowest1RTTPacket h)))
      else go_bind (app_ReceivedPacket (appDataPackets h) pn ecn rcvTime ackEliciting) (\<lambda>(a, err).
        Inr (h\<lparr>appDataPackets := a\<rparr>, err)))"
| "handler_ReceivedPacket h pn ecn Encryption1RTT rcvTime ackEliciting =
     (let h = (if lowest1RTTPacket h = InvalidPacketNumber \<or> pn < lowest1RTTPacket h
               then h\<lparr>lowest1RTTPacket := pn\<rparr> else h) in
      go_bind (app_ReceivedPacket (appDataPackets h) pn ecn rcvTime ackEliciting) (\<lambda>(a, err).
        Inr (h\<lparr>appDataPackets := a\<rparr>, err)))"

definition IgnorePacketsBelow :: "ReceivedPacketHandler \<Rightarrow> packet_number \<Rightarrow> ReceivedPacketHandler" where
  "IgnorePacketsBelow h pn = h\<lparr>appDataPackets := IgnoreBelow (appDataPackets h) pn\<rparr>"

fun handler_DropPackets :: "ReceivedPacketHandler \<Rightarrow> EncryptionLevel \<Rightarrow> ReceivedPacketHandler go" where
  "handler_DropPackets h EncryptionInitial = Inr (h\<lparr>initialPackets := None\<rparr>)"
| "handler_DropPackets h EncryptionHandshake = Inr (h\<lparr>handshakePackets := None\<rparr>)"
| "handler_DropPackets h Encryption0RTT = Inr h"
| "handler_DropPackets h Encryption1RTT = Inl ''Cannot drop keys for encryption level''"

definition handler_GetAlarmTimeout :: "ReceivedPacketHandler \<Rightarrow> mtime" where
  "handler_GetAlarmTimeout h = ackAlarm (appDataPackets h)"

fun handler_GetAckFrame ::
  "ReceivedPacketHandler \<Rightarrow> EncryptionLevel \<Rightarrow> mtime \<Rightarrow> bool \<Rightarrow> AckFrame option \<times> ReceivedPacketHandler" where
  "handler_GetAckFrame h EncryptionInitial now onlyIfQueued =
     (case initialPackets h of None \<Rightarrow> (None, h)
      | Some t \<Rightarrow> let (ack, t) = tracker_GetAckFrame t in (ack, h\<lparr>initialPackets := Some t\<rparr>))"
| "handler_GetAckFrame h EncryptionHandshake now onlyIfQueued =
     (case handshakePackets h of None \<Rightarrow> (None, h)
      | Some t \<Rightarrow> let (ack, t) = tracker_GetAckFrame t in (ack, h\<lparr>handshakePackets := Some t\<rparr>))"
| "handler_GetAckFrame h Encryption1RTT now onlyIfQueued =
     (let (ack, a) = app_GetAckFrame (appDataPackets h) now onlyIfQueued in
      (ack, h\<lparr>appDataPackets := a\<rparr>))"
| "handler_GetAckFrame h Encryption0RTT now onlyIfQueued = (None, h)"

fun handler_IsPotentiallyDuplicate :: "ReceivedPacketHandler \<Rightarrow> packet_number \<Rightarrow> EncryptionLevel \<Rightarrow> bool go" where
  "handler_IsPotentiallyDuplicate h pn EncryptionInitial =
     (case initialPackets h of Some t \<Rightarrow> Inr (tracker_IsPotentiallyDuplicate t pn)
      | None \<Rightarrow> Inl ''unexpected encryption level'')"
| "handler_IsPotentiallyDuplicate h pn EncryptionHandshake =
     (case handshakePackets h of Some t \<Rightarrow> Inr (tracker_IsPotentiallyDuplicate t pn)
      | None \<Rightarrow> Inl ''unexpected encryption level'')"
| "handler_IsPotentiallyDuplicate h pn Encryption0RTT =
     Inr (tracker_IsPotentiallyDuplicate (appDataPackets h) pn)"
| "handler_IsPotentiallyDuplicate h pn Encryption1RTT =
     Inr (tracker_IsPotentiallyDuplicate (appDataPackets h) pn)"

section \<open>The history as a set of packet numbers\<close>

definition before :: "interval \<Rightarrow> interval \<Rightarrow> bool" where
  "before a b \<longleftrightarrow> End a + 1 < Start b"

definition separated :: "interval list \<Rightarrow> bool" where
  "separated rs \<longleftrightarrow> sorted_wrt before rs \<and> (\<forall>r\<in>set rs. Start r \<le> End r)"

definition packets :: "interval list \<Rightarrow> packet_number set" where
  "packets rs = (\<Union>r\<in>set rs. {Start r..End r})"

lemma packets_simps [simp]:
  "packets [] = {}" "packets (r # rs) = {Start r..End r} \<union> packets rs"
  "packets (rs @ qs) = packets rs \<union> packets qs"
  by (simp_all add: packets_def)

lemma separated_Nil [simp]: "separated []"
  by (simp add: separated_def)

lemma separated_Cons: "separated (r # rs) \<longleftrightarrow> Start r \<le> End r \<and> (\<forall>q\<in>set rs. before r q) \<and> separated rs"
  by (auto simp: separated_def)

lemma separated_append:
  "separated (rs @ qs) \<longleftrightarrow> separated rs \<and> separated qs \<and> (\<forall>r\<in>set rs. \<forall>q\<in>set qs. before r q)"
  by (auto simp: separated_def sorted_wrt_append)

lemmas separated_simps = separated_Cons separated_append before_def

lemma slices_at:
  "slices_Insert (xs @ ys) (length xs) x = xs @ x # ys"
  "slices_Insert (xs @ r # ys) (Suc (length xs)) x = xs @ r # x # ys"
  "slices_Delete (xs @ r # ys) (length xs) (Suc (length xs)) = xs @ ys"
  by (simp_all add: slices_Insert_def slices_Delete_def)

lemma nth_last: "xs \<noteq> [] \<Longrightarrow> xs ! (length xs - Suc 0) = last xs"
  by (simp add: last_conv_nth)

lemma packets_empty: "separated rs \<Longrightarrow> packets rs = {} \<longleftrightarrow> rs = []"
  by (cases rs) (auto simp: separated_Cons)




lemma packets_below: "separated (xs @ [r]) \<Longrightarrow> q \<in> packets xs \<Longrightarrow> q + 1 < Start r"
  by (fastforce simp: packets_def separated_simps)

lemma packets_above: "\<forall>y\<in>set ys. p < Start y \<Longrightarrow> p \<notin> packets ys"
  by (fastforce simp: packets_def)

text \<open>What adding \<open>p\<close> must do to the ranges.\<close>

definition adds :: "packet_number \<Rightarrow> interval list \<Rightarrow> interval list \<times> bool \<Rightarrow> bool" where
  "adds p rs res \<longleftrightarrow> separated (fst res) \<and> packets (fst res) = insert p (packets rs) \<and>
     (snd res \<longleftrightarrow> p \<notin> packets rs) \<and> length (fst res) \<le> length rs + 1"

lemma add_present: "separated rs \<Longrightarrow> p \<in> packets rs \<Longrightarrow> adds p rs (rs, False)"
  by (auto simp: adds_def)

lemma add_between:
  assumes "separated (xs @ ys)" "\<forall>x\<in>set xs. End x + 1 < p" "\<forall>y\<in>set ys. p + 1 < Start y"
  shows "adds p (xs @ ys) (xs @ \<lparr>Start = p, End = p\<rparr> # ys, True)"
  using assms by (fastforce simp: adds_def separated_simps packets_def)

lemma add_end:
  assumes "separated (xs @ r # ys)" "End r = p - 1" "\<forall>y\<in>set ys. p + 1 < Start y"
  shows "adds p (xs @ r # ys) (xs @ r\<lparr>End := p\<rparr> # ys, True)"
proof -
  have "{Start r..p} = insert p {Start r..End r}"
    using assms by (auto simp: separated_simps)
  moreover have "p \<notin> packets xs" "p \<notin> packets ys"
    using assms packets_below [of xs r p] packets_above [of ys p]
    by (auto simp: separated_simps)
  ultimately show ?thesis
    using assms by (auto simp: adds_def separated_simps)
qed

lemma add_start:
  assumes "separated (xs @ r # ys)" "Start r = p + 1" "\<forall>x\<in>set xs. End x + 1 < p"
  shows "adds p (xs @ r # ys) (xs @ r\<lparr>Start := p\<rparr> # ys, True)"
proof -
  have "{p..End r} = insert p {Start r..End r}"
    using assms by (auto simp: separated_simps)
  moreover have "p \<notin> packets xs" "p \<notin> packets ys"
    using assms packets_above [of ys p] by (fastforce simp: separated_simps packets_def)+
  ultimately show ?thesis
    using assms by (auto simp: adds_def separated_simps)
qed

lemma add_merge:
  assumes "separated (xs @ q # r # ys)" "Start r = p + 1" "End q + 1 = p"
  shows "adds p (xs @ q # r # ys) (xs @ q\<lparr>End := End r\<rparr> # ys, True)"
proof -
  have "{Start q..End r} = insert p ({Start q..End q} \<union> {Start r..End r})"
    using assms by (auto simp: separated_simps)
  moreover have "p \<notin> packets xs" "p \<notin> packets ys"
    using assms packets_above [of ys p] by (fastforce simp: separated_simps packets_def)+
  ultimately show ?thesis
    using assms by (auto simp: adds_def separated_simps)
qed

lemma addToRanges_loop_adds:
  assumes "separated (xs @ ys)" "\<forall>y\<in>set ys. p + 1 < Start y"
  shows "adds p (xs @ ys) (addToRanges_loop (xs @ ys) p (length xs))"
  using assms
proof (induction xs arbitrary: ys rule: rev_induct)
  case Nil
  then show ?case using add_between [of "[]" ys p] by (simp add: slices_Insert_def)
next
  case (snoc r xs)
  note sep = snoc.prems(1) [simplified] and above = snoc.prems(2)
  consider (inside) "Start r \<le> p" "p \<le> End r" | (ending) "End r = p - 1"
    | (starting) "Start r = p + 1" | (gap) "End r + 1 < p" | (below) "p + 1 < Start r"
    using sep by (fastforce simp: separated_simps)
  then show ?case
  proof cases
    case inside
    then show ?thesis using add_present [OF sep, of p] by (simp add: nth_append)
  next
    case ending
    then show ?thesis using add_end [OF sep ending above] by (simp add: nth_append)
  next
    case start: starting
    have nin: "\<not> (Start r \<le> p \<and> p \<le> End r)" "End r \<noteq> p - 1"
      using start sep by (auto simp: separated_simps)
    show ?thesis
    proof (cases "xs \<noteq> [] \<and> End (last xs) + 1 = p")
      case True
      then obtain zs q where xs: "xs = zs @ [q]" "End q + 1 = p" by (cases xs rule: rev_cases) auto
      then have "addToRanges_loop ((xs @ [r]) @ ys) p (length (xs @ [r])) =
          (zs @ q\<lparr>End := End r\<rparr> # ys, True)"
        using start nin by (simp add: nth_append list_update_append slices_Delete_def)
      then show ?thesis using add_merge [of zs q r ys p] sep start xs by simp
    next
      case False
      have "\<forall>x\<in>set xs. End x + 1 < p"
      proof
        fix x assume x: "x \<in> set xs"
        then have ne: "xs \<noteq> []" by auto
        have "End x \<le> End (last xs)"
          using sep x ne by (cases xs rule: rev_cases) (fastforce simp: separated_simps)+
        moreover have "End (last xs) + 1 < Start r"
          using sep ne by (simp add: separated_simps)
        ultimately show "End x + 1 < p" using False ne start by linarith
      qed
      moreover have "addToRanges_loop ((xs @ [r]) @ ys) p (length (xs @ [r])) =
          (xs @ r\<lparr>Start := p\<rparr> # ys, True)"
        using start nin False
        by (cases "xs = []") (simp_all add: nth_append list_update_append nth_last Let_def)
      ultimately show ?thesis using add_start [OF sep start] by simp
    qed
  next
    case gap
    have nin: "\<not> (Start r \<le> p \<and> p \<le> End r)" "End r \<noteq> p - 1" "Start r \<noteq> p + 1" "End r < p"
      using gap sep by (auto simp: separated_simps)
    moreover have "\<forall>x\<in>set xs. End x + 1 < p"
      using sep gap by (fastforce simp: separated_simps)
    ultimately show ?thesis
      using add_between [of "xs @ [r]" ys p] sep above gap by (simp add: nth_append slices_at)
  next
    case below
    then have "addToRanges_loop ((xs @ [r]) @ ys) p (length (xs @ [r])) =
        addToRanges_loop (xs @ (r # ys)) p (length xs)"
      using sep by (simp add: nth_append separated_simps)
    then show ?thesis using snoc.IH [of "r # ys"] sep above below by simp
  qed
qed

lemma addToRanges_adds:
  assumes "separated (ranges h)"
  shows "adds p (ranges h) (ranges (fst (addToRanges h p)), snd (addToRanges h p))"
    "deletedBelow (fst (addToRanges h p)) = deletedBelow h"
proof -
  have "adds p (ranges h) (addToRanges_loop (ranges h) p (length (ranges h)))"
    using addToRanges_loop_adds [of "ranges h" "[]" p] assms by simp
  moreover have "adds p [] ([\<lparr>Start = p, End = p\<rparr>], True)"
    by (simp add: adds_def separated_simps)
  ultimately show "adds p (ranges h) (ranges (fst (addToRanges h p)), snd (addToRanges h p))"
    by (simp add: addToRanges_def split_def Let_def)
  show "deletedBelow (fst (addToRanges h p)) = deletedBelow h"
    by (simp add: addToRanges_def split_def Let_def)
qed

subsection \<open>Invariant and refinement\<close>

definition history_ok :: "receivedPacketHistory \<Rightarrow> bool" where
  "history_ok h \<longleftrightarrow> separated (ranges h) \<and> length (ranges h) \<le> MaxNumAckRanges \<and>
     (\<forall>p\<in>packets (ranges h). deletedBelow h \<le> p \<and> 0 \<le> p) \<and> - 1 \<le> deletedBelow h"

abbreviation received :: "receivedPacketHistory \<Rightarrow> packet_number set" where
  "received h \<equiv> packets (ranges h)"

lemma history_ok_new: "history_ok newReceivedPacketHistory"
  by (simp add: history_ok_def newReceivedPacketHistory_def go_defs)

lemma separated_drop: "separated rs \<Longrightarrow> separated (drop n rs)"
  by (metis append_take_drop_id separated_append)

lemma packets_bounded: "\<exists>c. \<forall>q\<in>packets rs. q < c"
proof (induction rs)
  case Nil
  then show ?case by simp
next
  case (Cons r rs)
  then obtain c where "\<forall>q\<in>packets rs. q < c" by blast
  then have "\<forall>q\<in>packets (r # rs). q < max c (End r + 1)" by auto
  then show ?case by blast
qed

lemma packets_first: "separated (r # rs) \<Longrightarrow> packets (r # rs) \<subseteq> {Start r..}"
  by (fastforce simp: separated_simps packets_def)

lemma packets_drop:
  assumes "separated rs"
  shows "\<exists>c. packets (drop n rs) = {q \<in> packets rs. c \<le> q}"
proof -
  have split: "packets rs = packets (take n rs) \<union> packets (drop n rs)"
    using packets_simps(3) [of "take n rs" "drop n rs"] by simp
  have sep: "separated (take n rs @ drop n rs)" using assms by simp
  show ?thesis
  proof (cases "drop n rs")
    case Nil
    obtain c where "\<forall>q\<in>packets rs. q < c" using packets_bounded by blast
    then have "{q \<in> packets rs. c \<le> q} = {}" by fastforce
    then show ?thesis using Nil by (intro exI [of _ c]) simp
  next
    case (Cons r qs)
    have s1: "separated (take n rs @ [r])" and s2: "separated (r # qs)"
      using sep unfolding Cons by (simp_all add: separated_append separated_Cons)
    have "packets (take n rs) \<subseteq> {..<Start r}"
      using packets_below [OF s1] by force
    moreover have "packets (drop n rs) \<subseteq> {Start r..}"
      using packets_first [OF s2] unfolding Cons by blast
    ultimately have "packets (drop n rs) = {q \<in> packets rs. Start r \<le> q}"
      unfolding split by (auto simp: subset_iff not_le [symmetric])
    then show ?thesis by blast
  qed
qed

text \<open>
  Receiving a packet, as an operation on sets: a packet below the deleted ones is refused; otherwise the
  packet is added, it is new exactly when it was absent, and what gets forgotten are the lowest numbers.
\<close>

lemma ReceivedPacket_refines:
  assumes "history_ok h" "0 \<le> p" "history_ReceivedPacket h p = (h', new)"
  shows "history_ok h'" "deletedBelow h' = deletedBelow h"
    "new \<longleftrightarrow> deletedBelow h \<le> p \<and> p \<notin> received h"
    "p < deletedBelow h \<Longrightarrow> received h' = received h"
    "deletedBelow h \<le> p \<Longrightarrow> \<exists>c. received h' = {q \<in> insert p (received h). c \<le> q}"
    "deletedBelow h \<le> p \<Longrightarrow> length (ranges h) < MaxNumAckRanges \<Longrightarrow> received h' = insert p (received h)"
proof -
  define h1 where "h1 = fst (addToRanges h p)"
  define n where "n = length (ranges h1) - MaxNumAckRanges"
  have a: "adds p (ranges h) (ranges h1, snd (addToRanges h p))" "deletedBelow h1 = deletedBelow h"
    using addToRanges_adds [of h p] assms(1) by (simp_all add: h1_def history_ok_def)
  have eq: "p < deletedBelow h \<Longrightarrow> h' = h \<and> \<not> new"
    "deletedBelow h \<le> p \<Longrightarrow> ranges h' = drop n (ranges h1) \<and> deletedBelow h' = deletedBelow h1 \<and>
       new = snd (addToRanges h p)"
    using assms(3) by (auto simp: history_ReceivedPacket_def split_def Let_def h1_def n_def
        slices_Delete_def split: if_splits)
  obtain c where c: "packets (drop n (ranges h1)) = {q \<in> packets (ranges h1). c \<le> q}"
    using packets_drop [of "ranges h1" n] a(1) by (auto simp: adds_def)
  show "deletedBelow h' = deletedBelow h" using eq a(2) by (cases "p < deletedBelow h") auto
  show "new \<longleftrightarrow> deletedBelow h \<le> p \<and> p \<notin> received h"
    using eq a(1) by (cases "p < deletedBelow h") (auto simp: adds_def)
  show "p < deletedBelow h \<Longrightarrow> received h' = received h" using eq by simp
  show "deletedBelow h \<le> p \<Longrightarrow> \<exists>c. received h' = {q \<in> insert p (received h). c \<le> q}"
    using eq(2) a(1) c by (auto simp: adds_def)
  show "deletedBelow h \<le> p \<Longrightarrow> length (ranges h) < MaxNumAckRanges \<Longrightarrow> received h' = insert p (received h)"
    using eq(2) a(1) by (simp add: adds_def n_def)
  show "history_ok h'"
  proof (cases "p < deletedBelow h")
    case True
    then show ?thesis using eq assms(1) by simp
  next
    case False
    then have "separated (ranges h')" "length (ranges h') \<le> MaxNumAckRanges"
      "received h' \<subseteq> insert p (received h)" "deletedBelow h' = deletedBelow h"
      using eq(2) a c by (auto simp: adds_def n_def separated_drop)
    then show ?thesis using assms(1,2) False by (auto simp: history_ok_def)
  qed
qed

subsection \<open>Deleting, searching for gaps, duplicates\<close>

fun trim :: "packet_number \<Rightarrow> interval list \<Rightarrow> interval list" where
  "trim p [] = []"
| "trim p (r # rs) =
     (if End r < p then trim p rs else if Start r < p then r\<lparr>Start := p\<rparr> # rs else r # rs)"

lemma DeleteBelow_loop_trim:
  assumes "DeleteBelow_loop (xs @ ys) p (length ys) (length xs) (int (length xs) - 1) = (rs, idx)"
  shows "- 1 \<le> idx \<and> drop (nat (idx + 1)) rs = trim p ys"
  using assms
proof (induction ys arbitrary: xs)
  case Nil
  then show ?case by auto
next
  case (Cons y ys)
  show ?case
  proof (cases "End y < p")
    case True
    then have "DeleteBelow_loop ((xs @ [y]) @ ys) p (length ys) (length (xs @ [y])) (int (length (xs @ [y])) - 1) = (rs, idx)"
      using Cons.prems by simp
    from Cons.IH [OF this] True show ?thesis by simp
  next
    case False
    then show ?thesis using Cons.prems by (auto simp: list_update_append)
  qed
qed

lemma DeleteBelow_trim:
  "ranges (DeleteBelow h p) = (if p < deletedBelow h then ranges h else trim p (ranges h))"
  "deletedBelow (DeleteBelow h p) = max p (deletedBelow h)"
proof -
  obtain rs idx where l: "DeleteBelow_loop (ranges h) p (length (ranges h)) 0 (- 1) = (rs, idx)"
    by (cases "DeleteBelow_loop (ranges h) p (length (ranges h)) 0 (- 1)")
  have "- 1 \<le> idx \<and> drop (nat (idx + 1)) rs = trim p (ranges h)"
    using DeleteBelow_loop_trim [of "[]" "ranges h" p rs idx] l by simp
  then show "ranges (DeleteBelow h p) = (if p < deletedBelow h then ranges h else trim p (ranges h))"
    using l by (cases "idx = - 1") (auto simp: DeleteBelow_def slices_Delete_def nat_add_distrib Let_def)
  show "deletedBelow (DeleteBelow h p) = max p (deletedBelow h)"
    using l by (simp add: DeleteBelow_def Let_def)
qed

lemma trim_spec:
  assumes "separated rs"
  shows "separated (trim p rs) \<and> packets (trim p rs) = {q \<in> packets rs. p \<le> q} \<and> length (trim p rs) \<le> length rs"
  using assms
proof (induction rs)
  case Nil
  then show ?case by simp
next
  case (Cons r rs)
  show ?case
  proof (cases "End r < p")
    case True
    then have "{q \<in> packets (r # rs). p \<le> q} = {q \<in> packets rs. p \<le> q}" by auto
    with Cons True show ?thesis by (simp add: separated_Cons)
  next
    case False
    have sep: "separated rs" "Start r \<le> End r" "\<forall>q\<in>set rs. End r + 1 < Start q"
      using Cons.prems by (simp_all add: separated_simps)
    have rest: "packets rs \<subseteq> {p..}"
      using sep False by (fastforce simp: packets_def)
    show ?thesis
    proof (cases "Start r < p")
      case True
      have "{q \<in> packets (r # rs). p \<le> q} = {p..End r} \<union> packets rs"
        using rest True by auto
      with True False sep show ?thesis by (simp add: separated_simps)
    next
      case ge: False
      have "{q \<in> packets (r # rs). p \<le> q} = packets (r # rs)"
        using rest ge by auto
      with ge False Cons.prems show ?thesis by simp
    qed
  qed
qed

lemma DeleteBelow_refines:
  assumes "history_ok h"
  shows "history_ok (DeleteBelow h p)" "received (DeleteBelow h p) = {q \<in> received h. p \<le> q}"
proof -
  have sep: "separated (ranges h)" using assms by (simp add: history_ok_def)
  show eq: "received (DeleteBelow h p) = {q \<in> received h. p \<le> q}"
  proof (cases "p < deletedBelow h")
    case True
    then have "{q \<in> received h. p \<le> q} = received h"
      using assms by (fastforce simp: history_ok_def)
    with True show ?thesis by (simp add: DeleteBelow_trim)
  qed (simp add: DeleteBelow_trim trim_spec [OF sep])
  have "separated (ranges (DeleteBelow h p))" "length (ranges (DeleteBelow h p)) \<le> MaxNumAckRanges"
    using assms trim_spec [OF sep, of p] by (auto simp: history_ok_def DeleteBelow_trim)
  moreover have "\<forall>q\<in>received (DeleteBelow h p). max p (deletedBelow h) \<le> q \<and> 0 \<le> q"
    unfolding eq using assms by (simp add: history_ok_def)
  ultimately show "history_ok (DeleteBelow h p)"
    using assms by (simp add: history_ok_def DeleteBelow_trim(2) max.coboundedI2)
qed

lemma duplicate_loop_iff:
  assumes "separated (xs @ ys)" "\<forall>y\<in>set ys. p < Start y"
  shows "duplicate_loop (xs @ ys) p (length xs) \<longleftrightarrow> p \<in> packets (xs @ ys)"
  using assms
proof (induction xs arbitrary: ys rule: rev_induct)
  case Nil
  then show ?case using packets_above [of ys p] by simp
next
  case (snoc r xs)
  have sep: "separated (xs @ [r])" "separated (xs @ r # ys)"
    using snoc.prems(1) by (simp_all add: separated_append separated_Cons)
  have ys: "p \<notin> packets ys" using snoc.prems(2) by (rule packets_above)
  have xs: "p \<notin> packets xs" if "Start r \<le> p" using packets_below [OF sep(1), of p] that by auto
  show ?case
  proof (cases "p < Start r")
    case True
    then have "duplicate_loop ((xs @ [r]) @ ys) p (length (xs @ [r])) \<longleftrightarrow> duplicate_loop (xs @ r # ys) p (length xs)"
      using sep(1) by (simp add: nth_append separated_simps)
    then show ?thesis using snoc.IH [of "r # ys"] sep(2) snoc.prems(2) True by simp
  next
    case False
    then show ?thesis using xs ys by (simp add: nth_append)
  qed
qed

lemma IsPotentiallyDuplicate_iff:
  "history_ok h \<Longrightarrow> history_IsPotentiallyDuplicate h p \<longleftrightarrow> p < deletedBelow h \<or> p \<in> received h"
  using duplicate_loop_iff [of "ranges h" "[]" p]
  by (simp add: history_IsPotentiallyDuplicate_def history_ok_def)

definition highest_missing :: "packet_number set \<Rightarrow> packet_number \<Rightarrow> packet_number \<Rightarrow> bool" where
  "highest_missing S p m \<longleftrightarrow> m \<le> p \<and> m \<notin> S \<and> {m <.. p} \<subseteq> S"

lemma HighestMissing_loop_spec:
  assumes "ranges h = xs @ ys" "separated (xs @ ys)" "\<forall>y\<in>set ys. p < Start y"
    and "xs \<noteq> [] \<Longrightarrow> p \<le> End (last xs)" "deletedBelow h \<le> p"
  shows "\<exists>m. highest_missing (received h) p m \<and> HighestMissing_loop h p (length xs) =
    (if deletedBelow h \<noteq> InvalidPacketNumber \<and> m < deletedBelow h then InvalidPacketNumber else m)"
  using assms
proof (induction xs arbitrary: ys rule: rev_induct)
  case Nil
  then have "highest_missing (received h) p p"
    using packets_above [of ys p] by (simp add: highest_missing_def)
  then show ?case using Nil by (intro exI [of _ p]) simp
next
  case (snoc r xs)
  have sep: "separated (xs @ [r])" "separated (xs @ r # ys)"
    using snoc.prems(2) by (simp_all add: separated_append separated_Cons)
  have rng: "ranges h = xs @ r # ys" using snoc.prems(1) by simp
  have nth: "ranges h ! length xs = r" "xs \<noteq> [] \<Longrightarrow> ranges h ! (length xs - Suc 0) = last xs"
    using rng by (simp_all add: nth_append nth_last)
  have le: "p \<le> End r" using snoc.prems(4) by simp
  have ys: "q \<le> p \<Longrightarrow> q \<notin> packets ys" for q
    using packets_above [of ys q] snoc.prems(3) by force
  show ?case
  proof (cases "p < Start r")
    case False
    then have "Start r - 1 \<notin> received h" "{Start r - 1 <.. p} \<subseteq> received h"
      using packets_below [OF sep(1), of "Start r - 1"] ys [of "Start r - 1"] le unfolding rng by auto
    then have "highest_missing (received h) p (Start r - 1)"
      using False by (simp add: highest_missing_def)
    then show ?thesis
      using False le nth(1) by (intro exI [of _ "Start r - 1"]) (simp add: Let_def)
  next
    case True
    show ?thesis
    proof (cases "xs \<noteq> [] \<and> End (last xs) < p")
      case gap: True
      have "\<forall>q\<in>packets xs. q \<le> End (last xs)"
        using sep(1) gap by (cases xs rule: rev_cases) (fastforce simp: separated_simps packets_def)+
      then have "highest_missing (received h) p p"
        using gap True ys [of p] unfolding rng by (fastforce simp: highest_missing_def)
      then show ?thesis
        using gap True le nth snoc.prems(5) by (intro exI [of _ p]) (simp add: Let_def Suc_le_eq)
    next
      case False
      have eq: "HighestMissing_loop h p (length (xs @ [r])) = HighestMissing_loop h p (length xs)"
        using True False nth by (cases "xs = []") (simp_all add: Let_def)
      have "\<forall>y\<in>set (r # ys). p < Start y" "xs \<noteq> [] \<Longrightarrow> p \<le> End (last xs)"
        using snoc.prems(3) True False by (simp_all add: not_less)
      from snoc.IH [OF rng sep(2) this snoc.prems(5)] show ?thesis unfolding eq .
    qed
  qed
qed

lemma HighestMissingUpTo_spec:
  assumes "history_ok h" "ranges h \<noteq> []" "deletedBelow h \<le> p"
  shows "\<exists>m. highest_missing (received h) (min (End (last (ranges h))) p) m \<and>
    HighestMissingUpTo h p = (if m < deletedBelow h then InvalidPacketNumber else m)"
proof -
  let ?p = "min (End (last (ranges h))) p"
  have sep: "separated (ranges h)" using assms(1) by (simp add: history_ok_def)
  have l: "Start (last (ranges h)) \<le> End (last (ranges h))" "last (ranges h) \<in> set (ranges h)"
    using sep assms(2) by (simp_all add: separated_def)
  then have "End (last (ranges h)) \<in> received h" by (force simp: packets_def)
  then have b: "deletedBelow h \<le> ?p" "0 \<le> End (last (ranges h))" using assms by (simp_all add: history_ok_def)
  obtain m where m: "highest_missing (received h) ?p m" "HighestMissing_loop h ?p (length (ranges h)) =
    (if deletedBelow h \<noteq> InvalidPacketNumber \<and> m < deletedBelow h then InvalidPacketNumber else m)"
    using HighestMissing_loop_spec [of h "ranges h" "[]" ?p] sep b by auto
  have "\<not> m < - 1" if "deletedBelow h = - 1"
  proof
    assume "m < - 1"
    then have "- 1 \<in> received h"
      using m(1) b(1) that unfolding highest_missing_def by auto
    then show False using assms(1) by (auto simp: history_ok_def)
  qed
  then show ?thesis
    using m assms(2,3) by (intro exI [of _ m]) (auto simp: HighestMissingUpTo_def go_defs)
qed

subsection \<open>The contract of a packet history\<close>

text \<open>
  What the trackers rely on: a history holds a set of packet numbers; receiving adds at most the packet
  received, forgetting keeps the upper part, and a packet is reported as new exactly when it is not known.
\<close>

locale packet_history =
  fixes ok :: "'h \<Rightarrow> bool"
    and content :: "'h \<Rightarrow> packet_number set"
    and floor_of :: "'h \<Rightarrow> packet_number"
    and receive :: "'h \<Rightarrow> packet_number \<Rightarrow> 'h \<times> bool"
    and forget :: "'h \<Rightarrow> packet_number \<Rightarrow> 'h"
    and known :: "'h \<Rightarrow> packet_number \<Rightarrow> bool"
  assumes receive_ok: "ok h \<Longrightarrow> 0 \<le> p \<Longrightarrow> ok (fst (receive h p))"
    and receive_content: "ok h \<Longrightarrow> 0 \<le> p \<Longrightarrow> content (fst (receive h p)) \<subseteq> insert p (content h)"
    and receive_new: "ok h \<Longrightarrow> 0 \<le> p \<Longrightarrow> snd (receive h p) \<longleftrightarrow> \<not> known h p"
    and forget_ok: "ok h \<Longrightarrow> ok (forget h p)"
    and forget_content: "ok h \<Longrightarrow> content (forget h p) = {q \<in> content h. p \<le> q}"
    and known_iff: "ok h \<Longrightarrow> known h p \<longleftrightarrow> p < floor_of h \<or> p \<in> content h"
begin

lemma run_content:
  assumes "ok h" "\<forall>p\<in>set ps. 0 \<le> p"
  shows "ok (foldl (\<lambda>h p. fst (receive h p)) h ps) \<and>
    content (foldl (\<lambda>h p. fst (receive h p)) h ps) \<subseteq> content h \<union> set ps"
  using assms
proof (induction ps arbitrary: h)
  case Nil
  then show ?case by simp
next
  case (Cons p ps)
  then show ?case
    using receive_ok [of h p] receive_content [of h p] Cons.IH [of "fst (receive h p)"] by auto
qed

lemma content_is_not_new: "ok h \<Longrightarrow> 0 \<le> p \<Longrightarrow> p \<in> content h \<Longrightarrow> \<not> snd (receive h p)"
  by (simp add: receive_new known_iff)

end

lemma receive_contract:
  assumes "history_ok h" "0 \<le> p"
  shows "history_ok (fst (history_ReceivedPacket h p))"
    "received (fst (history_ReceivedPacket h p)) \<subseteq> insert p (received h)"
    "snd (history_ReceivedPacket h p) \<longleftrightarrow> \<not> history_IsPotentiallyDuplicate h p"
proof -
  obtain h' new where r: "history_ReceivedPacket h p = (h', new)"
    by (cases "history_ReceivedPacket h p")
  note ref = ReceivedPacket_refines [OF assms r]
  show "history_ok (fst (history_ReceivedPacket h p))" using ref(1) r by simp
  show "snd (history_ReceivedPacket h p) \<longleftrightarrow> \<not> history_IsPotentiallyDuplicate h p"
    using ref(3) r IsPotentiallyDuplicate_iff [OF assms(1), of p] by (simp add: not_less)
  have "received h' \<subseteq> insert p (received h)"
  proof (cases "p < deletedBelow h")
    case True
    then show ?thesis using ref(4) by blast
  next
    case False
    then obtain c where "received h' = {q \<in> insert p (received h). c \<le> q}"
      using ref(5) by auto
    then show ?thesis by blast
  qed
  then show "received (fst (history_ReceivedPacket h p)) \<subseteq> insert p (received h)" using r by simp
qed

interpretation rcvd: packet_history history_ok "\<lambda>h. received h" deletedBelow history_ReceivedPacket
  DeleteBelow history_IsPotentiallyDuplicate
  by unfold_locales
    (simp_all add: receive_contract DeleteBelow_refines IsPotentiallyDuplicate_iff)

section \<open>The application data tracker\<close>

text \<open>
  The runs of a tracker, with two ghosts: the packet numbers received so far, and the receive times of
  the ack-eliciting packets since the last ACK frame.
\<close>

inductive app_reach :: "appDataReceivedPacketTracker \<Rightarrow> packet_number set \<Rightarrow> mtime list \<Rightarrow> bool" where
  app_new: "app_reach newAppDataReceivedPacketTracker {} []"
| app_receive: "app_reach h R ts \<Longrightarrow> 0 \<le> pn \<Longrightarrow> 0 < t \<Longrightarrow> t < 2 ^ 62 \<Longrightarrow>
    app_ReceivedPacket h pn ecn t ackEliciting = Inr (h', err) \<Longrightarrow>
    app_reach h' (insert pn R) (if ackEliciting \<and> err = None then ts @ [t] else ts)"
| app_ignore: "app_reach h R ts \<Longrightarrow> app_reach (IgnoreBelow h pn) R ts"
| app_ack: "app_reach h R ts \<Longrightarrow> app_GetAckFrame h now onlyIfQueued = (ack, h') \<Longrightarrow>
    app_reach h' R (if ack = None then ts else [])"
| app_truncate: "app_reach h R ts \<Longrightarrow> lastAck h = Some f \<Longrightarrow> Truncate f maxSize = Inr f' \<Longrightarrow>
    app_reach (h\<lparr>lastAck := Some f'\<rparr>) R ts"

definition app_inv :: "appDataReceivedPacketTracker \<Rightarrow> packet_number set \<Rightarrow> mtime list \<Rightarrow> bool" where
  "app_inv h R ts \<longleftrightarrow> history_ok (packetHistory h) \<and> received (packetHistory h) \<subseteq> R \<and>
     (hasNewAck h \<longleftrightarrow> ts \<noteq> []) \<and> ackElicitingPacketsReceivedSinceLastAck h = int (length ts) \<and>
     maxAckDelay h = MaxAckDelay \<and>
     (\<not> ackQueued h \<longrightarrow> ts = [] \<or> (\<exists>t. ts = [t] \<and> 0 < t \<and> ackAlarm h = t + MaxAckDelay))"

lemma tracker_ReceivedPacket_fields:
  fixes h :: appDataReceivedPacketTracker
  assumes "tracker_ReceivedPacket h pn ecn ae = (h', err)"
  shows "packetHistory h' = fst (history_ReceivedPacket (packetHistory h) pn)"
    "hasNewAck h' = (hasNewAck h \<or> ae \<and> err = None)"
    "err = (if snd (history_ReceivedPacket (packetHistory h) pn) then None else Some (DuplicatePacketBug pn))"
    "ackElicitingPacketsReceivedSinceLastAck h' = ackElicitingPacketsReceivedSinceLastAck h"
    "ackQueued h' = ackQueued h" "ackAlarm h' = ackAlarm h" "maxAckDelay h' = maxAckDelay h" "lastAck h' = lastAck h"
  using assms
  by (auto simp: tracker_ReceivedPacket_def split_def Let_def split: ECN.splits if_splits)

lemma shouldQueueACK_False:
  "shouldQueueACK h pn ecn m = Inr False \<Longrightarrow> ackElicitingPacketsReceivedSinceLastAck h < packetsBeforeAck"
  by (auto simp: shouldQueueACK_def split: if_splits)

definition observe :: "appDataReceivedPacketTracker \<Rightarrow> packet_number \<Rightarrow> mtime \<Rightarrow> appDataReceivedPacketTracker" where
  "observe h pn t = (if pn \<ge> largestObserved h then h\<lparr>largestObserved := pn, largestObservedRcvdTime := t\<rparr> else h)"

lemma observe_fields [simp]:
  "packetHistory (observe h pn t) = packetHistory h" "hasNewAck (observe h pn t) = hasNewAck h"
  "maxAckDelay (observe h pn t) = maxAckDelay h" "lastAck (observe h pn t) = lastAck h"
  "ackElicitingPacketsReceivedSinceLastAck (observe h pn t) = ackElicitingPacketsReceivedSinceLastAck h"
  "ackQueued (observe h pn t) = ackQueued h" "ackAlarm (observe h pn t) = ackAlarm h"
  by (simp_all add: observe_def)

lemma app_ReceivedPacket_not_eliciting:
  assumes "tracker_ReceivedPacket h pn ecn ae = (h1, err)" "\<not> (ae \<and> err = None)"
  shows "app_ReceivedPacket h pn ecn t ae = Inr (if err = None then observe h1 pn t else h1, err)"
  using assms by (cases err) (simp_all add: app_ReceivedPacket_def observe_def Let_def)

lemma app_ReceivedPacket_eliciting:
  assumes "tracker_ReceivedPacket h pn ecn True = (h1, None)"
    and "app_ReceivedPacket h pn ecn t True = Inr (h', err)"
  obtains h2 m q where "h2 = (observe h1 pn t)\<lparr>ackElicitingPacketsReceivedSinceLastAck :=
        ackElicitingPacketsReceivedSinceLastAck h1 + 1\<rparr>" "err = None"
    "(if ackQueued h2 then Inr False else shouldQueueACK h2 pn ecn m) = Inr q"
    "h' = (if q then h2\<lparr>ackQueued := True, ackAlarm := 0\<rparr> else if ackQueued h2 then h2
           else h2\<lparr>ackAlarm := monotime_Add t (maxAckDelay h2)\<rparr>)"
proof -
  define h2 where "h2 = (observe h1 pn t)\<lparr>ackElicitingPacketsReceivedSinceLastAck :=
        ackElicitingPacketsReceivedSinceLastAck (observe h1 pn t) + 1\<rparr>"
  have eq: "app_ReceivedPacket h pn ecn t True =
     go_bind (isMissing h2 pn) (\<lambda>m. go_bind (if ackQueued h2 then Inr False else shouldQueueACK h2 pn ecn m)
       (\<lambda>q. if \<not> ackQueued (if q then h2\<lparr>ackQueued := True, ackAlarm := 0\<rparr> else h2)
         then Inr ((if q then h2\<lparr>ackQueued := True, ackAlarm := 0\<rparr> else h2)\<lparr>ackAlarm := monotime_Add t
           (maxAckDelay (if q then h2\<lparr>ackQueued := True, ackAlarm := 0\<rparr> else h2))\<rparr>, None)
         else Inr (if q then h2\<lparr>ackQueued := True, ackAlarm := 0\<rparr> else h2, None)))"
    by (simp only: app_ReceivedPacket_def assms(1) prod.case option.case Let_def h2_def observe_def
        not_True_eq_False if_False)
  from assms(2) [unfolded eq go_bind_eq_Inr] obtain m q where
    q: "(if ackQueued h2 then Inr False else shouldQueueACK h2 pn ecn m) = Inr q" and
    h': "(if \<not> ackQueued (if q then h2\<lparr>ackQueued := True, ackAlarm := 0\<rparr> else h2)
         then Inr ((if q then h2\<lparr>ackQueued := True, ackAlarm := 0\<rparr> else h2)\<lparr>ackAlarm := monotime_Add t
           (maxAckDelay (if q then h2\<lparr>ackQueued := True, ackAlarm := 0\<rparr> else h2))\<rparr>, None)
         else Inr (if q then h2\<lparr>ackQueued := True, ackAlarm := 0\<rparr> else h2, None)) = (Inr (h', err) :: _ go)"
    by blast
  have "err = None" "h' = (if q then h2\<lparr>ackQueued := True, ackAlarm := 0\<rparr> else if ackQueued h2 then h2
           else h2\<lparr>ackAlarm := monotime_Add t (maxAckDelay h2)\<rparr>)"
    using h' by (cases q; cases "ackQueued h2"; simp)+
  moreover have "h2 = (observe h1 pn t)\<lparr>ackElicitingPacketsReceivedSinceLastAck :=
        ackElicitingPacketsReceivedSinceLastAck h1 + 1\<rparr>" by (simp add: h2_def)
  ultimately show thesis using q by (intro that)
qed

text \<open>The fields of the tracker that the acknowledgement policy works on, after a packet was received.\<close>

lemma app_ReceivedPacket_cases:
  assumes "app_ReceivedPacket h pn ecn t ae = Inr (h', err)"
  shows "packetHistory h' = fst (history_ReceivedPacket (packetHistory h) pn) \<and>
    hasNewAck h' = (hasNewAck h \<or> ae \<and> err = None) \<and> maxAckDelay h' = maxAckDelay h \<and> lastAck h' = lastAck h \<and>
    ackElicitingPacketsReceivedSinceLastAck h' =
       ackElicitingPacketsReceivedSinceLastAck h + (if ae \<and> err = None then 1 else 0) \<and>
    (\<not> ackQueued h' \<longrightarrow> \<not> ackQueued h \<and> (if ae \<and> err = None
       then ackAlarm h' = monotime_Add t (maxAckDelay h) \<and> ackElicitingPacketsReceivedSinceLastAck h' < packetsBeforeAck
       else ackAlarm h' = ackAlarm h))"
proof -
  obtain h1 e where tr: "tracker_ReceivedPacket h pn ecn ae = (h1, e)"
    by (cases "tracker_ReceivedPacket h pn ecn ae")
  note f = tracker_ReceivedPacket_fields [OF tr]
  show ?thesis
  proof (cases "ae \<and> e = None")
    case True
    then have tr': "tracker_ReceivedPacket h pn ecn True = (h1, None)" using tr by simp
    have "app_ReceivedPacket h pn ecn t True = Inr (h', err)" using assms True by simp
    from app_ReceivedPacket_eliciting [OF tr' this] obtain h2 m q where
      h2: "h2 = (observe h1 pn t)\<lparr>ackElicitingPacketsReceivedSinceLastAck :=
        ackElicitingPacketsReceivedSinceLastAck h1 + 1\<rparr>" "err = None"
      "(if ackQueued h2 then Inr False else shouldQueueACK h2 pn ecn m) = Inr q"
      "h' = (if q then h2\<lparr>ackQueued := True, ackAlarm := 0\<rparr> else if ackQueued h2 then h2
           else h2\<lparr>ackAlarm := monotime_Add t (maxAckDelay h2)\<rparr>)" .
    have "\<not> q \<Longrightarrow> \<not> ackQueued h2 \<Longrightarrow> ackElicitingPacketsReceivedSinceLastAck h2 < packetsBeforeAck"
      using h2(3) shouldQueueACK_False [of h2 pn ecn m] by simp
    with h2(2,4) f(1,2,4-8) True show ?thesis by (cases q; cases "ackQueued h2") (simp_all add: h2(1))
  next
    case False
    have "h' = (if e = None then observe h1 pn t else h1)" "err = e"
      using app_ReceivedPacket_not_eliciting [OF tr False, of t] assms by simp_all
    then show ?thesis
      using f(1,2,4-8) False by (cases e) simp_all
  qed
qed

lemma app_inv_receive:
  assumes inv: "app_inv h R ts" and pn: "0 \<le> pn" and t: "0 < t" "t < 2 ^ 62"
    and r: "app_ReceivedPacket h pn ecn t ae = Inr (h', err)"
  shows "app_inv h' (insert pn R) (if ae \<and> err = None then ts @ [t] else ts)"
proof -
  have c: "packetHistory h' = fst (history_ReceivedPacket (packetHistory h) pn)"
    "hasNewAck h' = (hasNewAck h \<or> ae \<and> err = None)" "maxAckDelay h' = maxAckDelay h" "lastAck h' = lastAck h"
    "ackElicitingPacketsReceivedSinceLastAck h' =
       ackElicitingPacketsReceivedSinceLastAck h + (if ae \<and> err = None then 1 else 0)"
    "\<not> ackQueued h' \<longrightarrow> \<not> ackQueued h \<and> (if ae \<and> err = None
       then ackAlarm h' = monotime_Add t (maxAckDelay h) \<and> ackElicitingPacketsReceivedSinceLastAck h' < packetsBeforeAck
       else ackAlarm h' = ackAlarm h)"
    using app_ReceivedPacket_cases [OF r] by blast+
  have hist: "history_ok (packetHistory h')" "received (packetHistory h') \<subseteq> insert pn R"
    using inv pn rcvd.receive_ok [of "packetHistory h" pn] rcvd.receive_content [of "packetHistory h" pn]
    unfolding c(1) app_inv_def by auto
  have add: "monotime_Add t MaxAckDelay = t + MaxAckDelay"
    using t by (simp add: go_defs go_arith is_i64_def)
  show ?thesis
  proof (cases "ae \<and> err = None")
    case True
    have "ts = []" if "\<not> ackQueued h'"
      using c(5,6) that inv True by (simp add: app_inv_def go_defs)
    then show ?thesis
      using inv hist c True add t(1) unfolding app_inv_def by auto
  next
    case False
    then show ?thesis using inv hist c unfolding app_inv_def by auto
  qed
qed

lemma Reset_new: "AckFrame_Reset f = new_AckFrame"
  by (cases f) (simp add: AckFrame_Reset_def new_AckFrame_def)

lemma tracker_GetAckFrame_fields:
  fixes h :: appDataReceivedPacketTracker
  shows "tracker_GetAckFrame h = (if hasNewAck h then
      (let ack = \<lparr>AckRanges = map (\<lambda>r. \<lparr>Smallest = Start r, Largest = End r\<rparr>) (rev (ranges (packetHistory h))),
         DelayTime = 0, ECT0_count = ect0 h, ECT1_count = ect1 h, ECNCE_count = ecnce h\<rparr> in
       (Some ack, h\<lparr>lastAck := Some ack, hasNewAck := False\<rparr>)) else (None, h))"
  by (simp add: tracker_GetAckFrame_def Reset_new new_AckFrame_def Backward_def Let_def)

lemma app_GetAckFrame_cases:
  assumes "app_GetAckFrame h now q = (a, h')"
  obtains (none) "a = None" "h' = h" "\<not> hasNewAck h \<or> q \<and> \<not> ackQueued h \<and> (ackAlarm h = 0 \<or> now < ackAlarm h)"
  | (some) ack where "a = Some ack" "hasNewAck h"
      "AckRanges ack = map (\<lambda>r. \<lparr>Smallest = Start r, Largest = End r\<rparr>) (rev (ranges (packetHistory h)))"
      "0 \<le> DelayTime ack" "lastAck h' = Some ack" "packetHistory h' = packetHistory h" "\<not> hasNewAck h'" "\<not> ackQueued h'"
      "ackElicitingPacketsReceivedSinceLastAck h' = 0" "maxAckDelay h' = maxAckDelay h"
proof (cases "hasNewAck h \<and> \<not> (q \<and> \<not> ackQueued h \<and> (ackAlarm h = 0 \<or> now < ackAlarm h))")
  case True
  define ack where "ack = \<lparr>AckRanges = map (\<lambda>r. \<lparr>Smallest = Start r, Largest = End r\<rparr>) (rev (ranges (packetHistory h))),
     DelayTime = max 0 (monotime_Sub now (largestObservedRcvdTime h)),
     ECT0_count = ect0 h, ECT1_count = ect1 h, ECNCE_count = ecnce h\<rparr>"
  have "app_GetAckFrame h now q = (Some ack, h\<lparr>hasNewAck := False, lastAck := Some ack, ackQueued := False,
      ackAlarm := 0, ackElicitingPacketsReceivedSinceLastAck := 0\<rparr>)"
    using True by (simp add: app_GetAckFrame_def tracker_GetAckFrame_fields Let_def monotime_IsZero_def ack_def)
  with assms True show ?thesis by (intro some [of ack]) (auto simp: ack_def)
next
  case False
  then have "app_GetAckFrame h now q = (None, h)"
    by (auto simp: app_GetAckFrame_def tracker_GetAckFrame_fields monotime_IsZero_def)
  with assms False show ?thesis by (intro none) auto
qed

lemma app_inv_reach: "app_reach h R ts \<Longrightarrow> app_inv h R ts"
proof (induction rule: app_reach.induct)
  case app_new
  then show ?case
    using history_ok_new
    by (simp add: app_inv_def newAppDataReceivedPacketTracker_def newReceivedPacketTracker_def
        receivedPacketTracker.defs newReceivedPacketHistory_def)
next
  case (app_receive h R ts pn t ecn ackEliciting h' err)
  then show ?case by (intro app_inv_receive)
next
  case (app_ignore h R ts pn)
  then show ?case
    using rcvd.forget_ok [of "packetHistory h" pn] rcvd.forget_content [of "packetHistory h" pn]
    by (auto simp: app_inv_def IgnoreBelow_def)
next
  case (app_ack h R ts now onlyIfQueued ack h')
  from app_ack(2) app_ack.IH show ?case
    by (cases rule: app_GetAckFrame_cases) (auto simp: app_inv_def)
next
  case (app_truncate h R ts f maxSize f')
  then show ?case by (simp add: app_inv_def)
qed

lemma acked_of_history:
  assumes "AckRanges ack = map (\<lambda>r. \<lparr>Smallest = Start r, Largest = End r\<rparr>) (rev (ranges h))" "history_ok h"
  shows "acked ack = received h" "length (AckRanges ack) \<le> MaxNumAckRanges"
    "AckRanges ack \<noteq> [] \<Longrightarrow> validateAckRanges ack"
proof -
  show "acked ack = received h" "length (AckRanges ack) \<le> MaxNumAckRanges"
    using assms by (simp_all add: acked_def packets_def history_ok_def)
  have "sorted_wrt above (AckRanges ack)"
    using assms by (simp add: sorted_wrt_map sorted_wrt_rev history_ok_def separated_def above_def before_def [abs_def])
  moreover have "\<forall>r\<in>set (AckRanges ack). Smallest r \<le> Largest r"
    using assms by (auto simp: history_ok_def separated_def)
  ultimately show "AckRanges ack \<noteq> [] \<Longrightarrow> validateAckRanges ack"
    by (simp add: validate_iff ranges_ok_def)
qed

section \<open>Properties\<close>

text \<open>
  Property C5.  The slice of ranges implements a set of packet numbers.  On every history that satisfies the
  invariant (at most 64 separated ranges, nothing below the deleted numbers), receiving a packet keeps the
  invariant, reports it as new exactly when it is neither deleted nor present, adds it, and drops nothing
  but the lowest numbers; below 64 ranges it drops nothing.
\<close>

theorem history_receive_refines_set:
  assumes "history_ok h" "0 \<le> p" "history_ReceivedPacket h p = (h', isNew)"
  shows "history_ok h' \<and> (isNew \<longleftrightarrow> deletedBelow h \<le> p \<and> p \<notin> received h) \<and>
    (p < deletedBelow h \<longrightarrow> received h' = received h) \<and>
    (deletedBelow h \<le> p \<longrightarrow> (\<exists>c. received h' = {q \<in> insert p (received h). c \<le> q})) \<and>
    (deletedBelow h \<le> p \<and> length (ranges h) < MaxNumAckRanges \<longrightarrow> received h' = insert p (received h))"
  using ReceivedPacket_refines [OF assms] by blast

definition history_example :: receivedPacketHistory where
  "history_example = \<lparr>ranges = [\<lparr>Start = 1, End = 3\<rparr>, \<lparr>Start = 5, End = 6\<rparr>], deletedBelow = - 1\<rparr>"

lemma history_example_ok: "history_ok history_example"
  by (auto simp: history_ok_def history_example_def separated_simps MaxNumAckRanges_def)

lemma history_example_receive:
  "history_ReceivedPacket history_example 4 = (\<lparr>ranges = [\<lparr>Start = 1, End = 6\<rparr>], deletedBelow = - 1\<rparr>, True)"
  by code_simp

theorem history_receive_refines_set_witness:
  "\<exists>h'. history_ReceivedPacket history_example 4 = (h', True) \<and>
     received h' = insert 4 (received history_example)"
  using history_receive_refines_set [OF history_example_ok _ history_example_receive] history_example_receive
  by (simp add: history_example_def MaxNumAckRanges_def)

text \<open>
  Property C29.  Deleting below a number removes exactly the smaller ones, and the duplicate test answers
  whether a packet number was deleted or is present.
\<close>

theorem history_delete_and_duplicates:
  assumes "history_ok h"
  shows "history_ok (DeleteBelow h p) \<and> received (DeleteBelow h p) = {q \<in> received h. p \<le> q} \<and>
    (history_IsPotentiallyDuplicate (DeleteBelow h p) q \<longleftrightarrow> q < max p (deletedBelow h) \<or> q \<in> received h)"
proof -
  note ref = DeleteBelow_refines [OF assms, of p]
  have "history_IsPotentiallyDuplicate (DeleteBelow h p) q \<longleftrightarrow>
      q < max p (deletedBelow h) \<or> q \<in> {q \<in> received h. p \<le> q}"
    unfolding IsPotentiallyDuplicate_iff [OF ref(1)] DeleteBelow_trim(2) ref(2) ..
  also have "\<dots> \<longleftrightarrow> q < max p (deletedBelow h) \<or> q \<in> received h"
    unfolding less_max_iff_disj mem_Collect_eq by linarith
  finally show ?thesis using ref by blast
qed

theorem history_delete_and_duplicates_witness:
  "received (DeleteBelow history_example 3) = {q \<in> received history_example. 3 \<le> q} \<and>
   history_IsPotentiallyDuplicate (DeleteBelow history_example 3) 2"
  using history_delete_and_duplicates [OF history_example_ok, of 3 2] by (simp add: history_example_def)

text \<open>
  Property C30.  \<^verbatim>\<open>HighestMissingUpTo\<close> finds the highest packet number that is missing up to the given one
  and up to the largest received packet, unless that number was deleted.
\<close>

theorem highest_missing_correct:
  assumes "history_ok h" "ranges h \<noteq> []" "deletedBelow h \<le> p"
  shows "\<exists>m. m \<le> min (End (last (ranges h))) p \<and> m \<notin> received h \<and>
    {m <.. min (End (last (ranges h))) p} \<subseteq> received h \<and>
    HighestMissingUpTo h p = (if m < deletedBelow h then InvalidPacketNumber else m)"
  using HighestMissingUpTo_spec [OF assms] unfolding highest_missing_def by blast

theorem highest_missing_correct_witness:
  "HighestMissingUpTo history_example 6 = 4 \<and>
   (\<exists>m. m \<le> min (End (last (ranges history_example))) 6 \<and> m \<notin> received history_example \<and>
     HighestMissingUpTo history_example 6 = (if m < deletedBelow history_example then InvalidPacketNumber else m))"
proof -
  have "HighestMissingUpTo history_example 6 = 4" by code_simp
  moreover have "\<exists>m. m \<le> min (End (last (ranges history_example))) 6 \<and> m \<notin> received history_example \<and>
      {m <.. min (End (last (ranges history_example))) 6} \<subseteq> received history_example \<and>
      HighestMissingUpTo history_example 6 = (if m < deletedBelow history_example then InvalidPacketNumber else m)"
    by (rule highest_missing_correct [OF history_example_ok]) (simp_all add: history_example_def)
  ultimately show ?thesis by blast
qed

text \<open>
  Property C4.  On every run of the application data tracker, an ACK frame acknowledges exactly the
  packets in the history and only packets that were received; it has at most 64 ranges and its delay is not
  negative.  If the history is not empty, the frame passes the validation a receiver applies.  If
  \<^verbatim>\<open>IgnoreBelow\<close> has emptied the history since an ack-eliciting packet arrived, the frame has no ranges, and
  \<^verbatim>\<open>Length\<close> and \<^verbatim>\<open>Append\<close>, called when it is packed, panic on it.
\<close>

theorem ack_frames_sound:
  assumes "app_reach h R ts" "app_GetAckFrame h now onlyIfQueued = (Some ack, h')"
  shows "acked ack = received (packetHistory h) \<and> acked ack \<subseteq> R \<and>
    length (AckRanges ack) \<le> MaxNumAckRanges \<and> 0 \<le> DelayTime ack \<and>
    (if received (packetHistory h) = {} then AckFrame_Length ack = Inl index_panic \<and> AckFrame_Append ack b = Inl index_panic
     else validateAckRanges ack)"
  using assms(2)
proof (cases rule: app_GetAckFrame_cases)
  case (some a)
  have inv: "history_ok (packetHistory h)" "received (packetHistory h) \<subseteq> R"
    using app_inv_reach [OF assms(1)] by (simp_all add: app_inv_def)
  moreover have "received (packetHistory h) = {} \<longleftrightarrow> AckRanges ack = []"
    using packets_empty [of "ranges (packetHistory h)"] inv(1) some(1,3) by (simp add: history_ok_def)
  ultimately show ?thesis using acked_of_history [OF some(3) inv(1)] some(1,4)
    by (simp add: AckFrame_Length_def AckFrame_Append_def LargestAcked_def)
qed simp

text \<open>
  Such a run: packet 7 arrives and is acknowledged, packet 5 arrives late, and the peer acknowledges the packet
  with the ACK frame, so that numbers below 8 are ignored.
\<close>

lemma ack_without_ranges:
  "\<exists>h. app_reach h {5, 7} [2000] \<and>
     map_option AckRanges (fst (app_GetAckFrame h 3000 True)) = Some []"
proof -
  define h1 where "h1 = projr (map_sum id fst (app_ReceivedPacket newAppDataReceivedPacketTracker 7 ECT0 1000 True))"
  define h2 where "h2 = snd (app_GetAckFrame h1 1500 False)"
  define h3 where "h3 = projr (map_sum id fst (app_ReceivedPacket h2 5 ECT0 2000 True))"
  have "app_ReceivedPacket newAppDataReceivedPacketTracker 7 ECT0 1000 True = Inr (h1, None)"
    unfolding h1_def by code_simp
  from app_receive [OF app_new _ _ _ this] have 1: "app_reach h1 {7} [1000]" by simp
  have "app_GetAckFrame h1 1500 False = (fst (app_GetAckFrame h1 1500 False), h2)" by (simp add: h2_def)
  moreover have "fst (app_GetAckFrame h1 1500 False) \<noteq> None" unfolding h1_def by code_simp
  ultimately have 2: "app_reach h2 {7} []" using app_ack [OF 1, of 1500 False] by force
  have "app_ReceivedPacket h2 5 ECT0 2000 True = Inr (h3, None)" unfolding h3_def h2_def h1_def by code_simp
  from app_receive [OF 2 _ _ _ this] have "app_reach h3 {5, 7} [2000]" by simp
  then have "app_reach (IgnoreBelow h3 8) {5, 7} [2000]" by (rule app_ignore)
  moreover have "map_option AckRanges (fst (app_GetAckFrame (IgnoreBelow h3 8) 3000 True)) = Some []"
    unfolding h3_def h2_def h1_def by code_simp
  ultimately show ?thesis by blast
qed

definition app_example :: appDataReceivedPacketTracker where
  "app_example = (case app_ReceivedPacket newAppDataReceivedPacketTracker 7 ECT0 1000 True of Inr (h, _) \<Rightarrow> h)"

lemma app_example_step: "app_ReceivedPacket newAppDataReceivedPacketTracker 7 ECT0 1000 True = Inr (app_example, None)"
  by code_simp

lemma app_example_reach: "app_reach app_example {7} [1000]"
  using app_receive [OF app_new _ _ _ app_example_step] by simp

lemma app_example_ack:
  "app_GetAckFrame app_example 25001000 True = (fst (app_GetAckFrame app_example 25001000 True),
     snd (app_GetAckFrame app_example 25001000 True))"
  "fst (app_GetAckFrame app_example 25001000 True) =
     Some \<lparr>AckRanges = [\<lparr>Smallest = 7, Largest = 7\<rparr>], DelayTime = 25000000, ECT0_count = 1, ECT1_count = 0, ECNCE_count = 0\<rparr>"
  by (simp, code_simp)

theorem ack_frames_sound_witness:
  "\<exists>ack h'. app_GetAckFrame app_example 25001000 True = (Some ack, h') \<and> validateAckRanges ack \<and> acked ack \<subseteq> {7}"
proof -
  let ?h = "snd (app_GetAckFrame app_example 25001000 True)"
  obtain ack where a: "app_GetAckFrame app_example 25001000 True = (Some ack, ?h)" "AckRanges ack \<noteq> []"
    using app_example_ack by simp
  have "received (packetHistory app_example) \<noteq> {}" by code_simp
  then show ?thesis using a ack_frames_sound [OF app_example_reach a(1)] by auto
qed

text \<open>
  Property C13.  No ack-eliciting packet waits longer than the maximum ACK delay: on every run, if a packet
  received at time \<open>t\<close> is not yet covered by an ACK frame, then asking for a frame at or after \<open>t\<close> plus
  25 milliseconds returns one, even when only queued frames are asked for.
\<close>

theorem ack_sent_in_time:
  assumes "app_reach h R ts" "t \<in> set ts" "t + MaxAckDelay \<le> now"
  shows "\<exists>ack h'. app_GetAckFrame h now True = (Some ack, h')"
proof -
  have inv: "app_inv h R ts" using app_inv_reach [OF assms(1)] .
  have a: "ackQueued h \<or> ackAlarm h = t + MaxAckDelay \<and> 0 < t" "hasNewAck h"
    using inv assms(2) by (auto simp: app_inv_def)
  obtain a' h' where g: "app_GetAckFrame h now True = (a', h')"
    by (cases "app_GetAckFrame h now True")
  from g show ?thesis
  proof (cases rule: app_GetAckFrame_cases)
    case none
    then show ?thesis using a assms(3) by (auto simp: go_defs)
  qed (use g in blast)
qed

theorem ack_sent_in_time_witness: "\<exists>ack h'. app_GetAckFrame app_example 25001000 True = (Some ack, h')"
  using ack_sent_in_time [OF app_example_reach, of 1000 25001000] by (simp add: go_defs)





end
