(* ===== verification/SentHistory.thy ===== *)
theory SentHistory
  imports AckFrame
begin

unbundle bit_operations_syntax

text \<open>
  Sent packets: \<^verbatim>\<open>packet.go\<close>, \<^verbatim>\<open>sent_packet_history.go\<close>, \<^verbatim>\<open>lost_packet_tracker.go\<close> and
  \<^verbatim>\<open>packet_number_generator.go\<close> of \<^verbatim>\<open>internal/ackhandler\<close>, with the random numbers of
  \<^verbatim>\<open>internal/utils/rand.go\<close>.

  The frames of a packet are opaque (\<open>'f\<close>): this code only counts them.  A \<^verbatim>\<open>nil\<close> entry of the packet slice
  is \<open>None\<close>, and calling a method on it panics.  The bytes read from \<^verbatim>\<open>crypto/rand\<close> are an explicit list of the
  results of \<^verbatim>\<open>Int31\<close>; an operation that needs more of them than the list holds is \<open>None\<close>.
\<close>

section \<open>Packets\<close>

record 'f packet =
  SendTime :: mtime
  StreamFrames :: "'f list"
  Frames :: "'f list"
  pkt_LargestAcked :: packet_number
  Length :: byte_count
  pkt_EncryptionLevel :: EncryptionLevel
  IsPathMTUProbePacket :: bool
  includedInBytesInFlight :: bool
  isPathProbePacket :: bool

definition IsAckEliciting :: "'f packet \<Rightarrow> bool" where
  "IsAckEliciting p \<longleftrightarrow> length (StreamFrames p) > 0 \<or> length (Frames p) > 0"

definition Outstanding :: "'f packet \<Rightarrow> bool" where
  "Outstanding p \<longleftrightarrow> \<not> IsPathMTUProbePacket p \<and> \<not> isPathProbePacket p \<and> IsAckEliciting p"

text \<open>
  The zero value of the struct.  \<^verbatim>\<open>EncryptionLevel(0)\<close> is not a level; the code only ever compares this
  field with 0-RTT and 1-RTT, and the Initial level stands for it here, which differs from both.
\<close>

definition zero_packet :: "'f packet" where
  "zero_packet = \<lparr>SendTime = 0, StreamFrames = [], Frames = [], pkt_LargestAcked = 0, Length = 0,
     pkt_EncryptionLevel = EncryptionInitial, IsPathMTUProbePacket = False,
     includedInBytesInFlight = False, isPathProbePacket = False\<rparr>"

definition nil_packet_panic :: string where
  "nil_packet_panic = ''invalid memory address or nil pointer dereference''"

section \<open>The history of sent packets\<close>

definition maxSkippedPackets :: nat where
  "maxSkippedPackets = 4"

record 'f sentPacketHistory =
  packets :: "'f packet option list"
  pathProbePackets :: "(packet_number \<times> 'f packet) list"
  skippedPackets :: "packet_number list"
  numOutstanding :: int
  firstPacketNumber :: packet_number
  highestPacketNumber :: packet_number

definition newSentPacketHistory :: "'f sentPacketHistory" where
  "newSentPacketHistory = \<lparr>packets = [], pathProbePackets = [], skippedPackets = [], numOutstanding = 0,
     firstPacketNumber = InvalidPacketNumber, highestPacketNumber = InvalidPacketNumber\<rparr>"

definition checkSequentialPacketNumberUse ::
  "'f sentPacketHistory \<Rightarrow> packet_number \<Rightarrow> 'f sentPacketHistory go" where
  "checkSequentialPacketNumberUse h pn =
     (if highestPacketNumber h \<noteq> InvalidPacketNumber \<and> pn \<noteq> highestPacketNumber h + 1
      then Inl ''non-sequential packet number use''
      else let h = h\<lparr>highestPacketNumber := pn\<rparr> in
        Inr (if length (packets h) = 0 then h\<lparr>firstPacketNumber := pn\<rparr> else h))"

definition SkippedPacket :: "'f sentPacketHistory \<Rightarrow> packet_number \<Rightarrow> 'f sentPacketHistory go" where
  "SkippedPacket h pn =
     go_bind (checkSequentialPacketNumberUse h pn) (\<lambda>h.
     let h = (if length (packets h) > 0 then h\<lparr>packets := packets h @ [None]\<rparr> else h);
         h = (if length (skippedPackets h) = maxSkippedPackets
              then h\<lparr>skippedPackets := slices_Delete (skippedPackets h) 0 1\<rparr> else h) in
     Inr (h\<lparr>skippedPackets := skippedPackets h @ [pn]\<rparr>))"

definition history_SentPacket ::
  "'f sentPacketHistory \<Rightarrow> packet_number \<Rightarrow> 'f packet \<Rightarrow> 'f sentPacketHistory go" where
  "history_SentPacket h pn p =
     go_bind (checkSequentialPacketNumberUse h pn) (\<lambda>h.
     let h = h\<lparr>packets := packets h @ [Some p]\<rparr> in
     Inr (if Outstanding p then h\<lparr>numOutstanding := numOutstanding h + 1\<rparr> else h))"

definition SentPathProbePacket ::
  "'f sentPacketHistory \<Rightarrow> packet_number \<Rightarrow> 'f packet \<Rightarrow> 'f sentPacketHistory go" where
  "SentPathProbePacket h pn p =
     go_bind (checkSequentialPacketNumberUse h pn) (\<lambda>h.
     let h = h\<lparr>packets := packets h @ [Some (zero_packet\<lparr>isPathProbePacket := True\<rparr>)]\<rparr> in
     Inr (h\<lparr>pathProbePackets := pathProbePackets h @ [(pn, p)]\<rparr>))"

text \<open>The iterators \<^verbatim>\<open>Packets\<close> and \<^verbatim>\<open>SkippedPackets\<close> as the list of what they yield.\<close>

fun number_packets :: "packet_number \<Rightarrow> 'f packet option list \<Rightarrow> (packet_number \<times> 'f packet) list" where
  "number_packets n [] = []"
| "number_packets n (None # ps) = number_packets (n + 1) ps"
| "number_packets n (Some p # ps) = (n, p) # number_packets (n + 1) ps"

definition Packets :: "'f sentPacketHistory \<Rightarrow> (packet_number \<times> 'f packet) list" where
  "Packets h = number_packets (firstPacketNumber h) (packets h)"

definition HasOutstandingPackets :: "'f sentPacketHistory \<Rightarrow> bool" where
  "HasOutstandingPackets h \<longleftrightarrow> numOutstanding h > 0"

definition HasOutstandingPathProbes :: "'f sentPacketHistory \<Rightarrow> bool" where
  "HasOutstandingPathProbes h \<longleftrightarrow> length (pathProbePackets h) > 0"

fun first_outstanding :: "packet_number \<Rightarrow> 'f packet option list \<Rightarrow> (packet_number \<times> 'f packet) option" where
  "first_outstanding n [] = None"
| "first_outstanding n (None # ps) = first_outstanding (n + 1) ps"
| "first_outstanding n (Some p # ps) = (if Outstanding p then Some (n, p) else first_outstanding (n + 1) ps)"

text \<open>\<open>None\<close> is the pair of \<^verbatim>\<open>InvalidPacketNumber\<close> and \<^verbatim>\<open>nil\<close>.\<close>

definition FirstOutstanding :: "'f sentPacketHistory \<Rightarrow> (packet_number \<times> 'f packet) option" where
  "FirstOutstanding h =
     (if \<not> HasOutstandingPackets h then None else first_outstanding (firstPacketNumber h) (packets h))"

definition FirstOutstandingPathProbe :: "'f sentPacketHistory \<Rightarrow> (packet_number \<times> 'f packet) option" where
  "FirstOutstandingPathProbe h = (case pathProbePackets h of [] \<Rightarrow> None | p # _ \<Rightarrow> Some p)"

definition getIndex :: "'f sentPacketHistory \<Rightarrow> packet_number \<Rightarrow> nat option" where
  "getIndex h p =
     (if length (packets h) = 0 then None
      else if p < firstPacketNumber h then None
      else let index = p - firstPacketNumber h in
        if index > int (length (packets h)) - 1 then None else Some (nat index))"

fun cleanup_loop :: "'f packet option list \<Rightarrow> nat \<Rightarrow> (nat \<times> 'f packet option list) option" where
  "cleanup_loop [] i = None"
| "cleanup_loop (None # ps) i = cleanup_loop ps (i + 1)"
| "cleanup_loop (Some p # ps) i = Some (i, Some p # ps)"

definition cleanupStart :: "'f sentPacketHistory \<Rightarrow> 'f sentPacketHistory" where
  "cleanupStart h =
     (case cleanup_loop (packets h) 0 of
        Some (i, ps) \<Rightarrow> h\<lparr>packets := ps, firstPacketNumber := firstPacketNumber h + int i\<rparr>
      | None \<Rightarrow> h\<lparr>packets := [], firstPacketNumber := InvalidPacketNumber\<rparr>)"

text \<open>The part \<^verbatim>\<open>Remove\<close> and \<^verbatim>\<open>DeclareLost\<close> share: count the packet out and clear its entry.\<close>

definition clear_entry :: "'f sentPacketHistory \<Rightarrow> nat \<Rightarrow> 'f sentPacketHistory go" where
  "clear_entry h idx =
     (case packets h ! idx of
        None \<Rightarrow> Inl nil_packet_panic
      | Some p \<Rightarrow>
          go_bind (if Outstanding p then
              let h = h\<lparr>numOutstanding := numOutstanding h - 1\<rparr> in
              if numOutstanding h < 0 then Inl ''negative number of outstanding packets'' else Inr h
            else Inr h)
          (\<lambda>h. Inr (h\<lparr>packets := (packets h)[idx := None]\<rparr>)))"

text \<open>The search for a packet before index \<open>idx\<close>.\<close>

fun packet_before :: "'f packet option list \<Rightarrow> nat \<Rightarrow> bool" where
  "packet_before ps 0 = False"
| "packet_before ps (Suc idx) = (if ps ! idx \<noteq> None then True else packet_before ps idx)"

datatype remove_error = PacketNotFound packet_number

definition history_Remove ::
  "'f sentPacketHistory \<Rightarrow> packet_number \<Rightarrow> ('f sentPacketHistory \<times> remove_error option) go" where
  "history_Remove h pn =
     (case getIndex h pn of
        None \<Rightarrow> Inr (h, Some (PacketNotFound pn))
      | Some idx \<Rightarrow>
          go_bind (clear_entry h idx) (\<lambda>h.
          let h = (if \<not> packet_before (packets h) idx then cleanupStart h else h) in
          if length (packets h) > 0 \<and> packets h ! 0 = None then Inl ''cleanup failed''
          else Inr (h, None)))"

definition DeclareLost :: "'f sentPacketHistory \<Rightarrow> packet_number \<Rightarrow> 'f sentPacketHistory go" where
  "DeclareLost h pn =
     (case getIndex h pn of
        None \<Rightarrow> Inr h
      | Some idx \<Rightarrow>
          go_bind (clear_entry h idx) (\<lambda>h. Inr (if idx = 0 then cleanupStart h else h)))"

fun remove_probe :: "packet_number \<Rightarrow> (packet_number \<times> 'f packet) list \<Rightarrow>
    (packet_number \<times> 'f packet) list \<times> 'f packet option" where
  "remove_probe pn [] = ([], None)"
| "remove_probe pn ((n, p) # ps) =
     (if n = pn then (ps, Some p) else let (qs, r) = remove_probe pn ps in ((n, p) # qs, r))"

definition RemovePathProbe ::
  "'f sentPacketHistory \<Rightarrow> packet_number \<Rightarrow> 'f sentPacketHistory \<times> 'f packet option" where
  "RemovePathProbe h pn =
     (let (ps, p) = remove_probe pn (pathProbePackets h) in (h\<lparr>pathProbePackets := ps\<rparr>, p))"

definition LowestPacketNumber :: "'f sentPacketHistory \<Rightarrow> packet_number" where
  "LowestPacketNumber h = (if length (packets h) = 0 then InvalidPacketNumber else firstPacketNumber h)"

definition Difference :: "'f sentPacketHistory \<Rightarrow> packet_number \<Rightarrow> packet_number \<Rightarrow> packet_number" where
  "Difference h a b =
     (let diff = a - b in
      if length (skippedPackets h) = 0 then diff
      else if a < hd (skippedPackets h) \<or> b > last (skippedPackets h) then diff
      else foldl (\<lambda>diff p. if p > b \<and> p < a then diff - 1 else diff) diff (skippedPackets h))"

section \<open>Lost packets\<close>

record lostPacketTracker =
  maxLength :: int
  lostPackets :: "(packet_number \<times> mtime) list"

definition newLostPacketTracker :: "int \<Rightarrow> lostPacketTracker" where
  "newLostPacketTracker m = \<lparr>maxLength = m, lostPackets = []\<rparr>"

definition lost_Add :: "lostPacketTracker \<Rightarrow> packet_number \<Rightarrow> mtime \<Rightarrow> lostPacketTracker go" where
  "lost_Add t p sendTime =
     (if int (length (lostPackets t)) = maxLength t then
        (case lostPackets t of
           [] \<Rightarrow> Inl ''slice bounds out of range''
         | _ # ps \<Rightarrow> Inr (t\<lparr>lostPackets := ps @ [(p, sendTime)]\<rparr>))
      else Inr (t\<lparr>lostPackets := lostPackets t @ [(p, sendTime)]\<rparr>))"

definition lost_Delete :: "lostPacketTracker \<Rightarrow> packet_number \<Rightarrow> lostPacketTracker" where
  "lost_Delete t pn = t\<lparr>lostPackets := filter (\<lambda>(p, _). \<not> p = pn) (lostPackets t)\<rparr>"

fun before_index :: "(packet_number \<times> mtime) list \<Rightarrow> mtime \<Rightarrow> nat" where
  "before_index [] ti = 0"
| "before_index ((_, s) # ps) ti = (if \<not> s < ti then 0 else 1 + before_index ps ti)"

definition lost_DeleteBefore :: "lostPacketTracker \<Rightarrow> mtime \<Rightarrow> lostPacketTracker" where
  "lost_DeleteBefore t ti =
     (case lostPackets t of
        [] \<Rightarrow> t
      | (_, s) # _ \<Rightarrow>
          if \<not> s < ti then t
          else t\<lparr>lostPackets := slices_Delete (lostPackets t) 0 (before_index (lostPackets t) ti)\<rparr>)"

section \<open>Packet number generators\<close>

text \<open>The conversion to \<^verbatim>\<open>int32\<close>.\<close>

definition i32 :: "int \<Rightarrow> int" where
  "i32 x = signed_take_bit 31 x"

lemma i32_id: "- (2 ^ 31) \<le> x \<Longrightarrow> x < 2 ^ 31 \<Longrightarrow> i32 x = x"
  by (simp add: i32_def signed_take_bit_int_eq_self)

text \<open>\<^verbatim>\<open>Int31n\<close> on the results of the successive calls of \<^verbatim>\<open>Int31\<close>.\<close>

fun draw_upto :: "int \<Rightarrow> int list \<Rightarrow> (int \<times> int list) option" where
  "draw_upto m [] = None"
| "draw_upto m (v # ds) = (if v > m then draw_upto m ds else Some (v, ds))"

definition Int31n :: "int \<Rightarrow> int list \<Rightarrow> (int \<times> int list) option" where
  "Int31n n ds =
     (if n AND i32 (n - 1) = 0 then
        (case ds of [] \<Rightarrow> None | v # ds \<Rightarrow> Some (v AND i32 (n - 1), ds))
      else
        case draw_upto (2 ^ 31 - 1 - 2 ^ 31 mod (n mod 2 ^ 32)) ds of None \<Rightarrow> None | Some (v, ds) \<Rightarrow> Some (go_mod v n, ds))"

record sequentialPacketNumberGenerator =
  seq_next :: packet_number

definition seq_Peek :: "sequentialPacketNumberGenerator \<Rightarrow> packet_number" where
  "seq_Peek g = seq_next g"

definition seq_Pop ::
  "sequentialPacketNumberGenerator \<Rightarrow> (bool \<times> packet_number) \<times> sequentialPacketNumberGenerator" where
  "seq_Pop g = ((False, seq_next g), g\<lparr>seq_next := seq_next g + 1\<rparr>)"

record skippingPacketNumberGenerator =
  period :: packet_number
  maxPeriod :: packet_number
  skip_next :: packet_number
  nextToSkip :: packet_number

definition generateNewSkip ::
  "skippingPacketNumberGenerator \<Rightarrow> int list \<Rightarrow> (skippingPacketNumberGenerator \<times> int list) option" where
  "generateNewSkip g ds =
     (case Int31n (i32 (2 * period g)) ds of
        None \<Rightarrow> None
      | Some (v, ds) \<Rightarrow>
          Some (g\<lparr>nextToSkip := skip_next g + 3 + v, period := min (2 * period g) (maxPeriod g)\<rparr>, ds))"

definition newSkippingPacketNumberGenerator ::
  "packet_number \<Rightarrow> packet_number \<Rightarrow> packet_number \<Rightarrow> int list \<Rightarrow>
   (skippingPacketNumberGenerator \<times> int list) option" where
  "newSkippingPacketNumberGenerator initial initialPeriod maxP ds =
     generateNewSkip \<lparr>period = initialPeriod, maxPeriod = maxP, skip_next = initial, nextToSkip = 0\<rparr> ds"

definition skip_Peek :: "skippingPacketNumberGenerator \<Rightarrow> packet_number" where
  "skip_Peek g = (if skip_next g = nextToSkip g then skip_next g + 1 else skip_next g)"

definition skip_Pop ::
  "skippingPacketNumberGenerator \<Rightarrow> int list \<Rightarrow>
   ((bool \<times> packet_number) \<times> skippingPacketNumberGenerator \<times> int list) option" where
  "skip_Pop g ds =
     (let next = skip_next g in
      if skip_next g = nextToSkip g then
        let next = next + 1; g = g\<lparr>skip_next := skip_next g + 2\<rparr> in
        (case generateNewSkip g ds of None \<Rightarrow> None | Some (g, ds) \<Rightarrow> Some ((True, next), g, ds))
      else Some ((False, next), g\<lparr>skip_next := skip_next g + 1\<rparr>, ds))"

section \<open>The history as a map from packet numbers to packets\<close>

definition lookup :: "'f sentPacketHistory \<Rightarrow> packet_number \<Rightarrow> 'f packet option" where
  "lookup h pn = (case getIndex h pn of None \<Rightarrow> None | Some i \<Rightarrow> packets h ! i)"

fun is_outstanding :: "'f packet option \<Rightarrow> bool" where
  "is_outstanding None = False"
| "is_outstanding (Some p) = Outstanding p"

definition outstanding_count :: "'f packet option list \<Rightarrow> nat" where
  "outstanding_count ps = length (filter is_outstanding ps)"

definition sent_ok :: "'f sentPacketHistory \<Rightarrow> bool" where
  "sent_ok h \<longleftrightarrow> numOutstanding h = int (outstanding_count (packets h)) \<and> - 1 \<le> highestPacketNumber h \<and>
     (packets h \<noteq> [] \<longrightarrow> hd (packets h) \<noteq> None \<and> 0 \<le> firstPacketNumber h \<and>
        highestPacketNumber h = firstPacketNumber h + int (length (packets h)) - 1)"

lemma getIndex_iff:
  "getIndex h pn = Some i \<longleftrightarrow> i < length (packets h) \<and> pn = firstPacketNumber h + int i"
  by (auto simp: getIndex_def Let_def)

lemma getIndex_None: "getIndex h pn = None \<longleftrightarrow> (\<forall>i<length (packets h). pn \<noteq> firstPacketNumber h + int i)"
  by (metis getIndex_iff not_None_eq)

lemma lookup_Some: "lookup h pn = Some p \<longleftrightarrow>
    (\<exists>i<length (packets h). pn = firstPacketNumber h + int i \<and> packets h ! i = Some p)"
proof (cases "getIndex h pn")
  case None
  then have "\<forall>i<length (packets h). pn \<noteq> firstPacketNumber h + int i" by (simp add: getIndex_None)
  then show ?thesis using None by (auto simp: lookup_def)
next
  case (Some i)
  then have "i < length (packets h)" "pn = firstPacketNumber h + int i" by (simp_all add: getIndex_iff)
  then show ?thesis using Some by (auto simp: lookup_def)
qed

lemma lookup_eqI:
  assumes "\<And>p. lookup h pn = Some p \<longleftrightarrow> x = Some p"
  shows "lookup h pn = x"
  using assms by (metis not_None_eq)

lemma count_append [simp]: "outstanding_count (xs @ ys) = outstanding_count xs + outstanding_count ys"
  by (simp add: outstanding_count_def)

lemma count_Cons [simp]:
  "outstanding_count (x # xs) = (if is_outstanding x then 1 else 0) + outstanding_count xs"
  by (simp add: outstanding_count_def)

lemma count_Nil [simp]: "outstanding_count [] = 0"
  by (simp add: outstanding_count_def)

lemma count_clear:
  assumes "i < length ps"
  shows "outstanding_count ps = outstanding_count (ps[i := None]) + (if is_outstanding (ps ! i) then 1 else 0)"
proof -
  have ps: "ps = take i ps @ ps ! i # drop (Suc i) ps"
    using assms by (rule id_take_nth_drop)
  have up: "ps[i := None] = take i ps @ None # drop (Suc i) ps"
    using assms by (rule upd_conv_take_nth_drop)
  have "outstanding_count ps = outstanding_count (take i ps @ ps ! i # drop (Suc i) ps)" by (rule arg_cong [OF ps])
  then show ?thesis unfolding up by simp
qed

subsection \<open>Sending\<close>

lemma checkSequential_ok:
  assumes "highestPacketNumber h = - 1 \<or> pn = highestPacketNumber h + 1"
  shows "checkSequentialPacketNumberUse h pn = Inr (h\<lparr>highestPacketNumber := pn,
    firstPacketNumber := (if packets h = [] then pn else firstPacketNumber h)\<rparr>)"
  using assms by (auto simp: checkSequentialPacketNumberUse_def Let_def go_defs)

lemma lookup_append:
  assumes "packets h' = packets h @ [x]"
    "firstPacketNumber h' = (if packets h = [] then pn else firstPacketNumber h)"
    "packets h \<noteq> [] \<Longrightarrow> pn = firstPacketNumber h + int (length (packets h))"
  shows "lookup h' = (lookup h)(pn := x)"
proof
  fix q
  show "lookup h' q = ((lookup h)(pn := x)) q"
  proof (cases "packets h = []")
    case True
    then show ?thesis using assms(1,2) by (intro lookup_eqI) (auto simp: lookup_Some lookup_def getIndex_def)
  next
    case False
    then show ?thesis
      using assms by (intro lookup_eqI) (auto simp: lookup_Some nth_append less_Suc_eq)
  qed
qed

lemma next_number:
  assumes "sent_ok h" "packets h \<noteq> []"
  shows "0 \<le> highestPacketNumber h" "highestPacketNumber h + 1 = firstPacketNumber h + int (length (packets h))"
proof -
  have "1 \<le> int (length (packets h))" using assms(2) by (cases "packets h") simp_all
  moreover have "0 \<le> firstPacketNumber h" "highestPacketNumber h = firstPacketNumber h + int (length (packets h)) - 1"
    using assms by (simp_all add: sent_ok_def)
  ultimately show "0 \<le> highestPacketNumber h" "highestPacketNumber h + 1 = firstPacketNumber h + int (length (packets h))"
    by linarith+
qed

lemma SentPacket_lookup:
  assumes "sent_ok h" "0 \<le> pn" "highestPacketNumber h = - 1 \<or> pn = highestPacketNumber h + 1"
  shows "\<exists>h'. history_SentPacket h pn p = Inr h' \<and> sent_ok h' \<and> lookup h' = (lookup h)(pn \<mapsto> p) \<and>
    highestPacketNumber h' = pn \<and> skippedPackets h' = skippedPackets h"
proof -
  define h' where "h' = h\<lparr>highestPacketNumber := pn,
    firstPacketNumber := (if packets h = [] then pn else firstPacketNumber h),
    packets := packets h @ [Some p], numOutstanding := numOutstanding h + (if Outstanding p then 1 else 0)\<rparr>"
  have eq: "history_SentPacket h pn p = Inr h'"
    by (simp add: history_SentPacket_def checkSequential_ok [OF assms(3)] h'_def)
  have pn: "pn = firstPacketNumber h + int (length (packets h))" if "packets h \<noteq> []"
    using that assms next_number [OF assms(1) that] by auto
  have "sent_ok h'"
    using assms(1,2) pn by (auto simp: sent_ok_def h'_def hd_append)
  moreover have "lookup h' = (lookup h)(pn := Some p)"
    by (rule lookup_append) (simp_all add: h'_def pn)
  moreover have "highestPacketNumber h' = pn" "skippedPackets h' = skippedPackets h"
    by (simp_all add: h'_def)
  ultimately show ?thesis using eq by blast
qed

lemma SkippedPacket_lookup:
  assumes "sent_ok h" "0 \<le> pn" "highestPacketNumber h = - 1 \<or> pn = highestPacketNumber h + 1"
  shows "\<exists>h'. SkippedPacket h pn = Inr h' \<and> sent_ok h' \<and> lookup h' = (lookup h)(pn := None) \<and>
    highestPacketNumber h' = pn \<and>
    skippedPackets h' = (if length (skippedPackets h) = maxSkippedPackets then tl (skippedPackets h)
       else skippedPackets h) @ [pn]"
proof -
  define h' where "h' = h\<lparr>highestPacketNumber := pn,
    firstPacketNumber := (if packets h = [] then pn else firstPacketNumber h),
    packets := (if packets h = [] then [] else packets h @ [None]),
    skippedPackets := (if length (skippedPackets h) = maxSkippedPackets then tl (skippedPackets h)
       else skippedPackets h) @ [pn]\<rparr>"
  have eq: "SkippedPacket h pn = Inr h'"
    by (cases "packets h = []"; cases "length (skippedPackets h) = maxSkippedPackets")
      (simp_all add: SkippedPacket_def checkSequential_ok [OF assms(3)] h'_def slices_Delete_def drop_Suc)
  have pn: "pn = firstPacketNumber h + int (length (packets h))" if "packets h \<noteq> []"
    using that assms next_number [OF assms(1) that] by auto
  have "sent_ok h'"
    using assms(1,2) pn by (auto simp: sent_ok_def h'_def hd_append)
  moreover have "lookup h' = (lookup h)(pn := None)"
  proof (cases "packets h = []")
    case True
    then show ?thesis by (auto simp: lookup_def getIndex_def h'_def)
  next
    case False
    then show ?thesis by (intro lookup_append) (simp_all add: h'_def pn)
  qed
  moreover have "highestPacketNumber h' = pn" "skippedPackets h' = (if length (skippedPackets h) = maxSkippedPackets
      then tl (skippedPackets h) else skippedPackets h) @ [pn]"
    by (simp_all add: h'_def)
  ultimately show ?thesis using eq by blast
qed

subsection \<open>Removing\<close>

lemma cleanup_loop_spec:
  "cleanup_loop ps n = (if \<forall>p\<in>set ps. p = None then None
     else Some (n + length (takeWhile (\<lambda>p. p = None) ps), dropWhile (\<lambda>p. p = None) ps))"
proof (induction ps arbitrary: n)
  case Nil
  then show ?case by simp
next
  case (Cons p ps)
  then show ?case by (cases p) simp_all
qed

lemma drop_Nones:
  assumes "xs \<noteq> []"
  shows "hd (dropWhile (\<lambda>p. p = None) xs) \<noteq> None \<or> dropWhile (\<lambda>p. p = None) xs = []"
  by (metis (mono_tags, lifting) hd_dropWhile)

lemma count_dropWhile: "outstanding_count (dropWhile (\<lambda>p. p = None) ps) = outstanding_count ps"
  by (induction ps) auto

lemma count_Nones: "\<forall>p\<in>set ps. p = None \<Longrightarrow> outstanding_count ps = 0"
  by (induction ps) auto

lemma dropWhile_nth:
  "i < length (dropWhile P xs) \<Longrightarrow> dropWhile P xs ! i = xs ! (length (takeWhile P xs) + i)"
  by (metis dropWhile_nth add.commute)

lemma takeWhile_None_nth: "i < length (takeWhile (\<lambda>p. p = None) ps) \<Longrightarrow> ps ! i = None"
  by (metis (mono_tags, lifting) nth_mem set_takeWhileD takeWhile_nth)

lemma cleanupStart_lookup:
  assumes "packets h \<noteq> []"
  shows "lookup (cleanupStart h) = lookup h" "outstanding_count (packets (cleanupStart h)) = outstanding_count (packets h)"
    "packets (cleanupStart h) \<noteq> [] \<Longrightarrow> hd (packets (cleanupStart h)) \<noteq> None \<and>
       firstPacketNumber h \<le> firstPacketNumber (cleanupStart h) \<and>
       firstPacketNumber (cleanupStart h) + int (length (packets (cleanupStart h))) =
       firstPacketNumber h + int (length (packets h))"
    "numOutstanding (cleanupStart h) = numOutstanding h" "highestPacketNumber (cleanupStart h) = highestPacketNumber h"
    "skippedPackets (cleanupStart h) = skippedPackets h"
proof -
  let ?P = "\<lambda>p. p = None" and ?ps = "packets h"
  have len: "length (takeWhile ?P ?ps) + length (dropWhile ?P ?ps) = length ?ps"
    by (metis length_append takeWhile_dropWhile_id)
  show "numOutstanding (cleanupStart h) = numOutstanding h" "highestPacketNumber (cleanupStart h) = highestPacketNumber h"
    "skippedPackets (cleanupStart h) = skippedPackets h"
    by (simp_all add: cleanupStart_def split: option.splits)
  show "outstanding_count (packets (cleanupStart h)) = outstanding_count ?ps"
    by (simp add: cleanupStart_def cleanup_loop_spec count_dropWhile count_Nones)
  show "packets (cleanupStart h) \<noteq> [] \<Longrightarrow> hd (packets (cleanupStart h)) \<noteq> None \<and>
       firstPacketNumber h \<le> firstPacketNumber (cleanupStart h) \<and>
       firstPacketNumber (cleanupStart h) + int (length (packets (cleanupStart h))) = firstPacketNumber h + int (length ?ps)"
    using drop_Nones [OF assms] len by (auto simp: cleanupStart_def cleanup_loop_spec)
  show "lookup (cleanupStart h) = lookup h"
  proof (cases "\<forall>p\<in>set ?ps. p = None")
    case True
    then have "\<And>i. i < length ?ps \<Longrightarrow> ?ps ! i = None" using nth_mem by blast
    then have "lookup h q = None" for q
      by (intro lookup_eqI) (auto simp: lookup_Some)
    then show ?thesis using True by (auto simp: cleanupStart_def cleanup_loop_spec lookup_def getIndex_def)
  next
    case False
    define n where "n = length (takeWhile ?P ?ps)"
    have c: "packets (cleanupStart h) = dropWhile ?P ?ps" "firstPacketNumber (cleanupStart h) = firstPacketNumber h + int n"
      by (simp_all only: cleanupStart_def cleanup_loop_spec if_not_P [OF False]) (simp_all add: n_def)
    show ?thesis
    proof
      fix q
      show "lookup (cleanupStart h) q = lookup h q"
      proof (rule lookup_eqI)
        fix p
        have "(\<exists>i<length (dropWhile ?P ?ps). q = firstPacketNumber h + int n + int i \<and> ?ps ! (n + i) = Some p) \<longleftrightarrow>
            (\<exists>i<length ?ps. q = firstPacketNumber h + int i \<and> ?ps ! i = Some p)" (is "?L \<longleftrightarrow> ?R")
        proof
          assume ?L
          then obtain i where "i < length (dropWhile ?P ?ps)" "q = firstPacketNumber h + int n + int i" "?ps ! (n + i) = Some p"
            by blast
          then show ?R using len by (intro exI [of _ "n + i"]) (simp add: n_def)
        next
          assume ?R
          then obtain i where i: "i < length ?ps" "q = firstPacketNumber h + int i" "?ps ! i = Some p" by blast
          then have "n \<le> i" using takeWhile_None_nth [of i ?ps] by (cases "i < n") (simp_all add: n_def)
          then show ?L using i len by (intro exI [of _ "i - n"]) (simp add: n_def)
        qed
        then show "lookup (cleanupStart h) q = Some p \<longleftrightarrow> lookup h q = Some p"
          unfolding lookup_Some c by (simp add: dropWhile_nth n_def cong: conj_cong)
      qed
    qed
  qed
qed

lemma clear_entry_ok:
  assumes "sent_ok h" "i < length (packets h)" "packets h ! i = Some p"
  shows "\<exists>h1. clear_entry h i = Inr h1 \<and> packets h1 = (packets h)[i := None] \<and>
    numOutstanding h1 = int (outstanding_count (packets h1)) \<and> firstPacketNumber h1 = firstPacketNumber h \<and>
    highestPacketNumber h1 = highestPacketNumber h \<and> skippedPackets h1 = skippedPackets h"
proof -
  have "numOutstanding h = int (outstanding_count ((packets h)[i := None])) + (if Outstanding p then 1 else 0)"
    using assms count_clear [OF assms(2)] by (simp add: sent_ok_def)
  then show ?thesis using assms(3) by (cases "Outstanding p") (simp_all add: clear_entry_def Let_def)
qed

lemma lookup_clear:
  assumes "packets h1 = (packets h)[i := None]" "firstPacketNumber h1 = firstPacketNumber h" "i < length (packets h)"
  shows "lookup h1 = (lookup h)(firstPacketNumber h + int i := None)"
proof
  fix q
  show "lookup h1 q = ((lookup h)(firstPacketNumber h + int i := None)) q"
    using assms by (intro lookup_eqI) (auto simp: lookup_Some nth_list_update)
qed

lemma packet_before_iff: "packet_before ps n \<longleftrightarrow> (\<exists>i<n. ps ! i \<noteq> None)"
  by (induction n) (auto simp: less_Suc_eq)

text \<open>What removing an entry must leave behind.\<close>

definition removed :: "'f sentPacketHistory \<Rightarrow> packet_number \<Rightarrow> 'f sentPacketHistory \<Rightarrow> bool" where
  "removed h pn h' \<longleftrightarrow> sent_ok h' \<and> lookup h' = (lookup h)(pn := None) \<and>
     highestPacketNumber h' = highestPacketNumber h \<and> skippedPackets h' = skippedPackets h"

lemma removed_cleanup:
  assumes ok: "sent_ok h" and i: "i < length (packets h)"
    and h1: "packets h1 = (packets h)[i := None]" "numOutstanding h1 = int (outstanding_count (packets h1))"
      "firstPacketNumber h1 = firstPacketNumber h" "highestPacketNumber h1 = highestPacketNumber h"
      "skippedPackets h1 = skippedPackets h"
  shows "removed h (firstPacketNumber h + int i) (cleanupStart h1)"
    "hd (packets h1) \<noteq> None \<Longrightarrow> removed h (firstPacketNumber h + int i) h1"
proof -
  have ne: "packets h \<noteq> []" "packets h1 \<noteq> []" using i h1(1) by auto
  have hp: "0 \<le> firstPacketNumber h" "highestPacketNumber h = firstPacketNumber h + int (length (packets h)) - 1"
    "- 1 \<le> highestPacketNumber h"
    using ok ne(1) by (simp_all add: sent_ok_def)
  note l = lookup_clear [OF h1(1,3) i] and c = cleanupStart_lookup [OF ne(2)]
  have "sent_ok (cleanupStart h1)"
    using c(2-5) h1 hp unfolding sent_ok_def by auto
  then show "removed h (firstPacketNumber h + int i) (cleanupStart h1)"
    using c(1,5,6) h1(4,5) l by (simp add: removed_def)
  show "removed h (firstPacketNumber h + int i) h1" if "hd (packets h1) \<noteq> None"
    using that h1 hp l ne(2) by (simp add: removed_def sent_ok_def)
qed

lemma Remove_spec:
  assumes "sent_ok h" "lookup h pn = Some p"
  shows "\<exists>h'. history_Remove h pn = Inr (h', None) \<and> removed h pn h'"
proof -
  obtain i where i: "i < length (packets h)" "pn = firstPacketNumber h + int i" "packets h ! i = Some p"
    using assms(2) by (auto simp: lookup_Some)
  obtain h1 where c: "clear_entry h i = Inr h1" and h1: "packets h1 = (packets h)[i := None]"
    "numOutstanding h1 = int (outstanding_count (packets h1))" "firstPacketNumber h1 = firstPacketNumber h"
    "highestPacketNumber h1 = highestPacketNumber h" "skippedPackets h1 = skippedPackets h"
    using clear_entry_ok [OF assms(1) i(1,3)] by blast
  note r = removed_cleanup [OF assms(1) i(1) h1]
  have g: "getIndex h pn = Some i" using i by (simp add: getIndex_iff)
  have ne: "packets h1 \<noteq> []" using i(1) h1(1) by auto
  have hd0: "packets h' \<noteq> [] \<Longrightarrow> sent_ok h' \<Longrightarrow> packets h' ! 0 \<noteq> None" for h' :: "'a sentPacketHistory"
    by (simp add: sent_ok_def hd_conv_nth)
  show ?thesis
  proof (cases "packet_before (packets h1) i")
    case True
    then obtain j where "j < i" "packets h ! j \<noteq> None"
      using h1(1) by (auto simp: packet_before_iff)
    then have "packets h1 ! 0 = packets h ! 0" "i \<noteq> 0" using h1(1) by auto
    then have "hd (packets h1) \<noteq> None"
      using assms(1) i(1) ne by (cases "packets h = []") (simp_all add: sent_ok_def hd_conv_nth)
    then have "removed h pn h1" using r(2) i(2) by simp
    moreover have "history_Remove h pn = Inr (h1, None)"
      using True g c hd0 [OF ne] calculation by (simp add: history_Remove_def removed_def)
    ultimately show ?thesis by blast
  next
    case False
    have "removed h pn (cleanupStart h1)" using r(1) i(2) by simp
    moreover have "history_Remove h pn = Inr (cleanupStart h1, None)"
      using False g c hd0 [of "cleanupStart h1"] calculation by (auto simp: history_Remove_def removed_def Let_def)
    ultimately show ?thesis by blast
  qed
qed

lemma DeclareLost_spec:
  assumes "sent_ok h" "lookup h pn = Some p"
  shows "\<exists>h'. DeclareLost h pn = Inr h' \<and> removed h pn h'"
proof -
  obtain i where i: "i < length (packets h)" "pn = firstPacketNumber h + int i" "packets h ! i = Some p"
    using assms(2) by (auto simp: lookup_Some)
  obtain h1 where c: "clear_entry h i = Inr h1" and h1: "packets h1 = (packets h)[i := None]"
    "numOutstanding h1 = int (outstanding_count (packets h1))" "firstPacketNumber h1 = firstPacketNumber h"
    "highestPacketNumber h1 = highestPacketNumber h" "skippedPackets h1 = skippedPackets h"
    using clear_entry_ok [OF assms(1) i(1,3)] by blast
  note r = removed_cleanup [OF assms(1) i(1) h1]
  have g: "getIndex h pn = Some i" using i by (simp add: getIndex_iff)
  have "packets h \<noteq> []" using i(1) by auto
  then have "i \<noteq> 0 \<Longrightarrow> hd (packets h1) \<noteq> None"
    using assms(1) h1(1) by (cases "packets h"; cases i) (simp_all add: sent_ok_def)
  then show ?thesis using r g c i(2) by (cases "i = 0") (simp_all add: DeclareLost_def)
qed

lemma inside_getIndex:
  assumes "sent_ok h"
  shows "getIndex h pn \<noteq> None \<longleftrightarrow> packets h \<noteq> [] \<and> firstPacketNumber h \<le> pn \<and> pn \<le> highestPacketNumber h"
  using assms by (auto simp: sent_ok_def getIndex_def Let_def)

lemma unknown_entries:
  assumes "getIndex h pn = None"
  shows "history_Remove h pn = Inr (h, Some (PacketNotFound pn))" "DeclareLost h pn = Inr h" "lookup h pn = None"
  using assms by (simp_all add: history_Remove_def DeclareLost_def lookup_def)

subsection \<open>Iterating\<close>

lemma number_packets_set:
  "(q, p) \<in> set (number_packets n ps) \<longleftrightarrow> (\<exists>i<length ps. q = n + int i \<and> ps ! i = Some p)"
proof (induction ps arbitrary: n)
  case Nil
  then show ?case by simp
next
  case (Cons x ps)
  have shift: "(\<exists>i<length (x # ps). q = n + int i \<and> (x # ps) ! i = Some p) \<longleftrightarrow>
      q = n \<and> x = Some p \<or> (\<exists>i<length ps. q = n + 1 + int i \<and> ps ! i = Some p)"
    by (auto simp: less_Suc_eq_0_disj)
  show ?case unfolding shift by (cases x) (auto simp: Cons.IH)
qed

lemma number_packets_sorted: "sorted_wrt (\<lambda>a b. fst a < fst b) (number_packets n ps)"
proof (induction ps arbitrary: n)
  case (Cons x ps)
  then show ?case by (cases x) (auto simp: number_packets_set)
qed simp

lemma first_outstanding_filter:
  "first_outstanding n ps = (case filter (\<lambda>(_, p). Outstanding p) (number_packets n ps) of [] \<Rightarrow> None | x # _ \<Rightarrow> Some x)"
proof (induction ps arbitrary: n)
  case (Cons x ps)
  then show ?case by (cases x) simp_all
qed simp

lemma count_zero: "outstanding_count ps = 0 \<Longrightarrow> filter (\<lambda>(_, p). Outstanding p) (number_packets n ps) = []"
proof (induction ps arbitrary: n)
  case (Cons x ps)
  then show ?case by (cases x) (simp_all split: if_splits)
qed simp

lemma Packets_set: "(pn, p) \<in> set (Packets h) \<longleftrightarrow> lookup h pn = Some p"
  by (simp add: Packets_def number_packets_set lookup_Some)

lemma FirstOutstanding_filter:
  assumes "sent_ok h"
  shows "FirstOutstanding h = (case filter (\<lambda>(_, p). Outstanding p) (Packets h) of [] \<Rightarrow> None | x # _ \<Rightarrow> Some x)"
proof (cases "HasOutstandingPackets h")
  case True
  then show ?thesis by (simp add: FirstOutstanding_def first_outstanding_filter Packets_def)
next
  case False
  then have "outstanding_count (packets h) = 0" using assms by (simp add: HasOutstandingPackets_def sent_ok_def)
  then show ?thesis using False by (simp add: FirstOutstanding_def Packets_def count_zero)
qed

lemma first_of_sorted:
  assumes "sorted_wrt (\<lambda>a b. fst a < fst b) xs" "filter P xs = x # ys" "y \<in> set xs" "P y"
  shows "fst x \<le> (fst y :: int)"
proof -
  have "sorted_wrt (\<lambda>a b. fst a < fst b) (x # ys)" using assms(1,2) by (metis sorted_wrt_filter)
  moreover have "y \<in> set (filter P xs)" using assms(3,4) by simp
  then have "y \<in> set (x # ys)" unfolding assms(2) .
  ultimately show ?thesis by auto
qed

lemma FirstOutstanding_spec:
  assumes "sent_ok h"
  shows "FirstOutstanding h = None \<longleftrightarrow> (\<forall>pn p. lookup h pn = Some p \<longrightarrow> \<not> Outstanding p)"
    "FirstOutstanding h = Some (pn, p) \<Longrightarrow> lookup h pn = Some p \<and> Outstanding p \<and>
       (\<forall>q r. lookup h q = Some r \<longrightarrow> Outstanding r \<longrightarrow> pn \<le> q)"
proof -
  let ?out = "filter (\<lambda>(_, p). Outstanding p) (Packets h)"
  have "?out = [] \<longleftrightarrow> (\<forall>pn p. lookup h pn = Some p \<longrightarrow> \<not> Outstanding p)"
    by (auto simp: filter_empty_conv Packets_set)
  then show "FirstOutstanding h = None \<longleftrightarrow> (\<forall>pn p. lookup h pn = Some p \<longrightarrow> \<not> Outstanding p)"
    unfolding FirstOutstanding_filter [OF assms] by (cases ?out) simp_all
  assume "FirstOutstanding h = Some (pn, p)"
  then obtain ys where f: "?out = (pn, p) # ys"
    unfolding FirstOutstanding_filter [OF assms] by (cases ?out) simp_all
  then have "(pn, p) \<in> set ?out" by simp
  then have "lookup h pn = Some p" "Outstanding p" by (simp_all add: Packets_set)
  moreover have "pn \<le> q" if "lookup h q = Some r" "Outstanding r" for q r
    using first_of_sorted [OF number_packets_sorted [of "firstPacketNumber h" "packets h", folded Packets_def] f, of "(q, r)"] that
    by (simp add: Packets_set)
  ultimately show "lookup h pn = Some p \<and> Outstanding p \<and> (\<forall>q r. lookup h q = Some r \<longrightarrow> Outstanding r \<longrightarrow> pn \<le> q)"
    by blast
qed

subsection \<open>Differences of packet numbers\<close>

lemma foldl_between:
  "foldl (\<lambda>d p. if p > b \<and> p < a then d - 1 else d) (d :: int) ps = d - int (length (filter (\<lambda>p. b < p \<and> p < a) ps))"
  by (induction ps arbitrary: d) auto

lemma Difference_spec:
  assumes "sorted_wrt (<) (skippedPackets h)"
  shows "Difference h a b = a - b - int (card {s \<in> set (skippedPackets h). b < s \<and> s < a})"
proof -
  let ?sk = "skippedPackets h"
  have card: "card {s \<in> set ?sk. b < s \<and> s < a} = length (filter (\<lambda>p. b < p \<and> p < a) ?sk)"
  proof -
    have "distinct ?sk" using assms by (simp add: strict_sorted_iff)
    then have "length (filter (\<lambda>p. b < p \<and> p < a) ?sk) = card ({p. b < p \<and> p < a} \<inter> set ?sk)"
      by (rule distinct_length_filter)
    also have "{p. b < p \<and> p < a} \<inter> set ?sk = {s \<in> set ?sk. b < s \<and> s < a}" by blast
    finally show ?thesis by simp
  qed
  have none: "filter (\<lambda>p. b < p \<and> p < a) ?sk = []" if "?sk \<noteq> []" "a < hd ?sk \<or> b > last ?sk"
  proof -
    have "hd ?sk \<le> s \<and> s \<le> last ?sk" if "s \<in> set ?sk" for s
    proof
      show "hd ?sk \<le> s" using assms that by (cases ?sk) auto
      show "s \<le> last ?sk"
        using assms that by (cases ?sk rule: rev_cases) (auto simp: sorted_wrt_append)
    qed
    then have "\<not> (b < s \<and> s < a)" if "s \<in> set ?sk" for s
      using \<open>a < hd ?sk \<or> b > last ?sk\<close> that by force
    then show ?thesis unfolding filter_empty_conv by blast
  qed
  show ?thesis
    unfolding card using none by (simp add: Difference_def Let_def foldl_between)
qed

subsection \<open>The contract of a packet store\<close>

text \<open>
  What the acknowledgement and loss handling rely on: a known packet is taken out without a panic, and
  nothing else changes.
\<close>

locale packet_store =
  fixes ok :: "'h \<Rightarrow> bool"
    and find_packet :: "'h \<Rightarrow> packet_number \<Rightarrow> 'p option"
    and take_out :: "'h \<Rightarrow> packet_number \<Rightarrow> 'h go"
  assumes take_out_known: "ok h \<Longrightarrow> find_packet h pn = Some p \<Longrightarrow>
    \<exists>h'. take_out h pn = Inr h' \<and> ok h' \<and> find_packet h' = (find_packet h)(pn := None)"
begin

lemma take_out_all:
  assumes "ok h" "distinct pns" "\<And>pn. pn \<in> set pns \<Longrightarrow> find_packet h pn \<noteq> None"
  shows "\<exists>h'. go_fold take_out h pns = Inr h' \<and> ok h' \<and>
    (\<forall>q. find_packet h' q = (if q \<in> set pns then None else find_packet h q))"
  using assms
proof (induction pns arbitrary: h)
  case Nil
  then show ?case by simp
next
  case (Cons pn pns)
  obtain h1 where h1: "take_out h pn = Inr h1" "ok h1" "find_packet h1 = (find_packet h)(pn := None)"
    using Cons.prems take_out_known [of h pn] by fastforce
  have "\<And>q. q \<in> set pns \<Longrightarrow> find_packet h1 q \<noteq> None"
    using Cons.prems(2,3) h1(3) by auto
  then obtain h' where h': "go_fold take_out h1 pns = Inr h'" "ok h'"
    "\<forall>q. find_packet h' q = (if q \<in> set pns then None else find_packet h1 q)"
    using Cons.IH [OF h1(2)] Cons.prems(2) by auto
  then show ?case using h1 by (intro exI [of _ h']) auto
qed

end

definition remove_known :: "'f sentPacketHistory \<Rightarrow> packet_number \<Rightarrow> 'f sentPacketHistory go" where
  "remove_known h pn = go_bind (history_Remove h pn) (\<lambda>(h, _). Inr h)"

interpretation removing: packet_store sent_ok lookup remove_known
proof
  fix h :: "'a sentPacketHistory" and pn p
  assume "sent_ok h" "lookup h pn = Some p"
  from Remove_spec [OF this] show "\<exists>h'. remove_known h pn = Inr h' \<and> sent_ok h' \<and> lookup h' = (lookup h)(pn := None)"
    by (auto simp: remove_known_def removed_def)
qed

interpretation losing: packet_store sent_ok lookup DeclareLost
proof
  fix h :: "'a sentPacketHistory" and pn p
  assume "sent_ok h" "lookup h pn = Some p"
  from DeclareLost_spec [OF this] show "\<exists>h'. DeclareLost h pn = Inr h' \<and> sent_ok h' \<and> lookup h' = (lookup h)(pn := None)"
    by (auto simp: removed_def)
qed

section \<open>The contract of a packet number generator\<close>

text \<open>The interface \<^verbatim>\<open>packetNumberGenerator\<close>: \<^verbatim>\<open>Pop\<close> returns what \<^verbatim>\<open>Peek\<close> announced and skips at most one number.\<close>

locale number_generator =
  fixes gen_ok :: "'g \<Rightarrow> bool"
    and draws_ok :: "'r \<Rightarrow> bool"
    and next_of :: "'g \<Rightarrow> packet_number"
    and peek :: "'g \<Rightarrow> packet_number"
    and pop :: "'g \<Rightarrow> 'r \<Rightarrow> ((bool \<times> packet_number) \<times> 'g \<times> 'r) option"
  assumes pop_ok: "gen_ok g \<Longrightarrow> draws_ok r \<Longrightarrow> pop g r = Some ((skipped, pn), g', r') \<Longrightarrow> gen_ok g' \<and> draws_ok r'"
    and pop_peek: "gen_ok g \<Longrightarrow> draws_ok r \<Longrightarrow> pop g r = Some ((skipped, pn), g', r') \<Longrightarrow> pn = peek g"
    and pop_next: "gen_ok g \<Longrightarrow> draws_ok r \<Longrightarrow> pop g r = Some ((skipped, pn), g', r') \<Longrightarrow>
      pn = (if skipped then next_of g + 1 else next_of g) \<and> next_of g' = pn + 1"
begin

text \<open>Registering the popped number, the skipped one first, with the history of sent packets.\<close>

lemma pop_registers:
  assumes "gen_ok g" "draws_ok r" "pop g r = Some ((skipped, pn), g', r')"
    and "sent_ok h" "highestPacketNumber h = next_of g - 1" "0 \<le> next_of g"
  shows "\<exists>h'. go_bind (if skipped then SkippedPacket h (pn - 1) else Inr h) (\<lambda>h. history_SentPacket h pn p) = Inr h' \<and>
    sent_ok h' \<and> lookup h' pn = Some p \<and> highestPacketNumber h' = next_of g' - 1"
proof (cases skipped)
  case True
  then have pn: "pn = next_of g + 1" "next_of g' = pn + 1" using pop_next [OF assms(1-3)] by simp_all
  obtain h1 where h1: "SkippedPacket h (pn - 1) = Inr h1" "sent_ok h1" "highestPacketNumber h1 = pn - 1"
    using SkippedPacket_lookup [OF assms(4), of "pn - 1"] assms(5,6) pn by auto
  obtain h2 where "history_SentPacket h1 pn p = Inr h2" "sent_ok h2" "lookup h2 = (lookup h1)(pn \<mapsto> p)"
    "highestPacketNumber h2 = pn"
    using SentPacket_lookup [OF h1(2), of pn p] h1(3) assms(6) pn by auto
  then show ?thesis using True h1 pn by simp
next
  case False
  then have pn: "pn = next_of g" "next_of g' = pn + 1" using pop_next [OF assms(1-3)] by simp_all
  obtain h2 where "history_SentPacket h pn p = Inr h2" "sent_ok h2" "lookup h2 = (lookup h)(pn \<mapsto> p)"
    "highestPacketNumber h2 = pn"
    using SentPacket_lookup [OF assms(4), of pn p] assms(5,6) pn by auto
  then show ?thesis using False pn by simp
qed

end

definition seq_pop_total ::
  "sequentialPacketNumberGenerator \<Rightarrow> unit \<Rightarrow> ((bool \<times> packet_number) \<times> sequentialPacketNumberGenerator \<times> unit) option" where
  "seq_pop_total g r = (case seq_Pop g of (x, g) \<Rightarrow> Some (x, g, r))"

interpretation sequential: number_generator "\<lambda>_. True" "\<lambda>_. True" seq_next seq_Peek seq_pop_total
  by unfold_locales (auto simp: seq_pop_total_def seq_Pop_def seq_Peek_def)

definition int31 :: "int \<Rightarrow> bool" where
  "int31 v \<longleftrightarrow> 0 \<le> v \<and> v < 2 ^ 31"

definition skip_ok :: "skippingPacketNumberGenerator \<Rightarrow> bool" where
  "skip_ok g \<longleftrightarrow> skip_next g \<le> nextToSkip g \<and> 0 < period g \<and> period g \<le> maxPeriod g \<and> maxPeriod g < 2 ^ 30"

lemma draw_upto_spec:
  "draw_upto m ds = Some (v, ds') \<Longrightarrow> v \<le> m \<and> v \<in> set ds \<and> set ds' \<subseteq> set ds"
  by (induction ds) (auto split: if_splits)

lemma draw_upto_returns: "v \<in> set ds \<Longrightarrow> v \<le> m \<Longrightarrow> \<exists>w ds'. draw_upto m ds = Some (w, ds')"
  by (induction ds) auto

lemma Int31n_range:
  assumes "Int31n n ds = Some (v, ds')" "0 < n" "n < 2 ^ 31" "\<forall>d\<in>set ds. int31 d"
  shows "0 \<le> v \<and> v < n \<and> (\<forall>d\<in>set ds'. int31 d)"
proof -
  have i: "i32 (n - 1) = n - 1" "n mod 2 ^ 32 = n" using assms(2,3) by (simp_all add: i32_id)
  show ?thesis
  proof (cases "n AND (n - 1) = 0")
    case True
    then obtain d where d: "ds = d # ds'" "v = d AND (n - 1)"
      using assms(1) by (cases ds) (simp_all add: Int31n_def i)
    have "0 \<le> n - 1" using assms(2) by simp
    then have "0 \<le> v" "v \<le> n - 1" unfolding d(2) by (simp_all add: AND_upper2)
    then show ?thesis using assms(4) d(1) by simp
  next
    case False
    then obtain w where w: "draw_upto (2 ^ 31 - 1 - 2 ^ 31 mod n) ds = Some (w, ds')" "v = go_mod w n"
      using assms(1) unfolding Int31n_def i by (auto split: option.splits)
    then have "int31 w" "\<forall>d\<in>set ds'. int31 d" using draw_upto_spec [OF w(1)] assms(4) by auto
    then show ?thesis using w(2) assms(2) by (simp add: int31_def go_arith)
  qed
qed

lemma generateNewSkip_ok:
  assumes "generateNewSkip g ds = Some (g', ds')" "0 < period g" "period g \<le> maxPeriod g" "maxPeriod g < 2 ^ 30"
    "\<forall>d\<in>set ds. int31 d"
  shows "skip_ok g'" "\<forall>d\<in>set ds'. int31 d" "skip_next g' = skip_next g" "skip_next g + 3 \<le> nextToSkip g'"
proof -
  have p: "i32 (2 * period g) = 2 * period g" using assms(2-4) by (intro i32_id) simp_all
  obtain v where v: "Int31n (2 * period g) ds = Some (v, ds')"
    "g' = g\<lparr>nextToSkip := skip_next g + 3 + v, period := min (2 * period g) (maxPeriod g)\<rparr>"
    using assms(1) by (auto simp: generateNewSkip_def p split: option.splits)
  then have "0 \<le> v" "\<forall>d\<in>set ds'. int31 d" using Int31n_range [OF v(1)] assms(2-5) by auto
  then show "skip_ok g'" "\<forall>d\<in>set ds'. int31 d" "skip_next g' = skip_next g" "skip_next g + 3 \<le> nextToSkip g'"
    using v(2) assms(2-4) by (simp_all add: skip_ok_def)
qed

definition popped ::
  "skippingPacketNumberGenerator \<Rightarrow> bool \<Rightarrow> packet_number \<Rightarrow> skippingPacketNumberGenerator \<Rightarrow> bool" where
  "popped g skipped pn g' \<longleftrightarrow> skip_ok g' \<and> pn = skip_Peek g \<and> skip_next g' = pn + 1 \<and>
     (skipped \<longleftrightarrow> skip_next g = nextToSkip g) \<and>
     (if skipped then pn = skip_next g + 1 \<and> pn + 4 \<le> nextToSkip g' else pn = skip_next g \<and> nextToSkip g' = nextToSkip g)"

lemma skip_Pop_popped:
  assumes "skip_ok g" "\<forall>d\<in>set ds. int31 d" "skip_Pop g ds = Some ((skipped, pn), g', ds')"
  shows "popped g skipped pn g' \<and> (\<forall>d\<in>set ds'. int31 d)"
proof (cases "skip_next g = nextToSkip g")
  case True
  then have g: "generateNewSkip (g\<lparr>skip_next := skip_next g + 2\<rparr>) ds = Some (g', ds')" "skipped" "pn = skip_next g + 1"
    using assms(3) by (auto simp: skip_Pop_def Let_def split: option.splits)
  have p: "0 < period (g\<lparr>skip_next := skip_next g + 2\<rparr>)"
    "period (g\<lparr>skip_next := skip_next g + 2\<rparr>) \<le> maxPeriod (g\<lparr>skip_next := skip_next g + 2\<rparr>)"
    "maxPeriod (g\<lparr>skip_next := skip_next g + 2\<rparr>) < 2 ^ 30"
    using assms(1) by (simp_all add: skip_ok_def)
  note n = generateNewSkip_ok [OF g(1) p assms(2)]
  have "skip_next g' = pn + 1" "pn + 4 \<le> nextToSkip g'" using n(3,4) g(3) by simp_all
  then show ?thesis using n(1,2) g(2,3) True by (simp add: popped_def skip_Peek_def)
next
  case False
  then have "\<not> skipped" "pn = skip_next g" "g' = g\<lparr>skip_next := skip_next g + 1\<rparr>" "ds' = ds"
    using assms(3) by (auto simp: skip_Pop_def)
  then show ?thesis using assms(1,2) False by (simp add: popped_def skip_Peek_def skip_ok_def)
qed

interpretation skipping: number_generator skip_ok "\<lambda>ds. \<forall>d\<in>set ds. int31 d" skip_next skip_Peek skip_Pop
proof
  fix g ds skipped pn g' ds'
  assume a: "skip_ok g" "\<forall>d\<in>set ds. int31 d" "skip_Pop g ds = Some ((skipped, pn), g', ds')"
  note c = skip_Pop_popped [OF a]
  show "skip_ok g' \<and> (\<forall>d\<in>set ds'. int31 d)" using c by (simp add: popped_def)
  show "pn = skip_Peek g" using c by (simp add: popped_def)
  show "pn = (if skipped then skip_next g + 1 else skip_next g) \<and> skip_next g' = pn + 1"
    using c by (simp add: popped_def split: if_splits)
qed

section \<open>Lost packets are a bounded queue\<close>

lemma before_index_takeWhile: "before_index ps ti = length (takeWhile (\<lambda>(_, s). s < ti) ps)"
  by (induction ps) auto

lemma lost_DeleteBefore_dropWhile: "lostPackets (lost_DeleteBefore t ti) = dropWhile (\<lambda>(_, s). s < ti) (lostPackets t)"
  by (cases "lostPackets t")
    (auto simp: lost_DeleteBefore_def slices_Delete_def before_index_takeWhile dropWhile_eq_drop)

lemma dropWhile_filter_sorted:
  assumes "sorted (map snd ps)"
  shows "dropWhile (\<lambda>(_, s). s < (ti::int)) ps = filter (\<lambda>(_, s). ti \<le> s) ps"
  using assms
proof (induction ps)
  case (Cons x ps)
  show ?case
  proof (cases "snd x < ti")
    case True
    then show ?thesis using Cons by (simp add: split_beta)
  next
    case False
    then have "\<forall>y\<in>set ps. ti \<le> snd y" using Cons.prems by fastforce
    then show ?thesis using False by (simp add: split_beta)
  qed
qed simp

section \<open>Properties\<close>

text \<open>
  Property C6.  The slice of sent packets implements a map from packet numbers to packets.  Taking out a known
  packet, by acknowledgement or as lost, never panics, keeps the invariant (the counter of outstanding packets
  is exact, the first entry is a packet, the numbers are consecutive) and removes this packet only.  A number outside
  the slice is an error for \<^verbatim>\<open>Remove\<close> and ignored by \<^verbatim>\<open>DeclareLost\<close>.  A number inside it that was skipped or already
  taken out has a nil entry, and both operations panic on it: their callers must only pass packets of the history.
\<close>

theorem sent_history_removal:
  fixes h :: "'f sentPacketHistory" and pn :: packet_number
  assumes "sent_ok h"
  defines "inside \<equiv> packets h \<noteq> [] \<and> firstPacketNumber h \<le> pn \<and> pn \<le> highestPacketNumber h"
  shows "case lookup h pn of
      Some p \<Rightarrow> inside \<and>
        (\<exists>h'. history_Remove h pn = Inr (h', None) \<and> sent_ok h' \<and> lookup h' = (lookup h)(pn := None)) \<and>
        (\<exists>h'. DeclareLost h pn = Inr h' \<and> sent_ok h' \<and> lookup h' = (lookup h)(pn := None))
    | None \<Rightarrow>
        if inside then history_Remove h pn = Inl nil_packet_panic \<and> DeclareLost h pn = Inl nil_packet_panic
        else history_Remove h pn = Inr (h, Some (PacketNotFound pn)) \<and> DeclareLost h pn = Inr h"
proof (cases "lookup h pn")
  case (Some p)
  then have "getIndex h pn \<noteq> None" by (auto simp: lookup_def split: option.splits)
  then have inside using inside_getIndex [OF assms(1), of pn] by (simp add: inside_def)
  with Some show ?thesis
    using Remove_spec [OF assms(1) Some] DeclareLost_spec [OF assms(1) Some] unfolding removed_def by auto
next
  case None
  show ?thesis
  proof (cases "getIndex h pn")
    case None
    then show ?thesis
      using \<open>lookup h pn = None\<close> unknown_entries [OF None] inside_getIndex [OF assms(1), of pn] by (simp add: inside_def)
  next
    case (Some i)
    then have "packets h ! i = None" using \<open>lookup h pn = None\<close> by (simp add: lookup_def)
    then show ?thesis
      using Some \<open>lookup h pn = None\<close> inside_getIndex [OF assms(1), of pn]
      by (simp add: inside_def history_Remove_def DeclareLost_def clear_entry_def)
  qed
qed

definition sent_example :: "nat sentPacketHistory" where
  "sent_example = \<lparr>packets = [Some (zero_packet\<lparr>Frames := [1]\<rparr>), None, Some zero_packet], pathProbePackets = [],
     skippedPackets = [6], numOutstanding = 1, firstPacketNumber = 5, highestPacketNumber = 7\<rparr>"

lemma sent_example_ok: "sent_ok sent_example" "lookup sent_example 5 = Some (zero_packet\<lparr>Frames := [1]\<rparr>)"
  by (simp_all add: sent_ok_def sent_example_def zero_packet_def Outstanding_def IsAckEliciting_def lookup_def getIndex_def)

theorem sent_history_removal_witness:
  "\<exists>h'. history_Remove sent_example 5 = Inr (h', None) \<and> lookup h' = (lookup sent_example)(5 := None)"
  using sent_history_removal [OF sent_example_ok(1), of 5] sent_example_ok(2) by auto

text \<open>
  \<^verbatim>\<open>FirstOutstanding\<close> returns the lowest-numbered packet that is still outstanding, and
  nothing exactly when no packet is.
\<close>

theorem first_outstanding_correct:
  assumes "sent_ok h"
  shows "case FirstOutstanding h of
      None \<Rightarrow> \<forall>pn p. lookup h pn = Some p \<longrightarrow> \<not> Outstanding p
    | Some (pn, p) \<Rightarrow> lookup h pn = Some p \<and> Outstanding p \<and>
        (\<forall>q r. lookup h q = Some r \<longrightarrow> Outstanding r \<longrightarrow> pn \<le> q)"
proof (cases "FirstOutstanding h")
  case None
  then show ?thesis using FirstOutstanding_spec(1) [OF assms] by simp
next
  case (Some x)
  then show ?thesis using FirstOutstanding_spec(2) [OF assms, of "fst x" "snd x"] by (cases x) simp
qed

theorem first_outstanding_correct_witness:
  "FirstOutstanding sent_example = Some (5, zero_packet\<lparr>Frames := [1]\<rparr>) \<and>
   (\<nexists>q r. q < 5 \<and> lookup sent_example q = Some r \<and> Outstanding r)"
proof -
  have f: "FirstOutstanding sent_example = Some (5, zero_packet\<lparr>Frames := [1]\<rparr>)"
    by (simp add: FirstOutstanding_def HasOutstandingPackets_def sent_example_def zero_packet_def Outstanding_def IsAckEliciting_def)
  then show ?thesis using first_outstanding_correct [OF sent_example_ok(1)] by fastforce
qed

text \<open>
  The packet threshold is computed on \<^verbatim>\<open>Difference\<close>, which is the difference of the packet
  numbers minus the number of skipped packet numbers strictly between them.
\<close>

theorem difference_discounts_skipped:
  assumes "sorted_wrt (<) (skippedPackets h)"
  shows "Difference h a b = a - b - int (card {s \<in> set (skippedPackets h). b < s \<and> s < a})"
  using assms by (rule Difference_spec)

theorem difference_discounts_skipped_witness:
  "Difference sent_example 7 5 = 7 - 5 - int (card {s \<in> set (skippedPackets sent_example). 5 < s \<and> s < 7}) \<and>
   Difference sent_example 7 5 = 1"
proof -
  have "sorted_wrt (<) (skippedPackets sent_example)" "Difference sent_example 7 5 = 1"
    by (simp_all add: sent_example_def Difference_def)
  then show ?thesis using difference_discounts_skipped [of sent_example 7 5] by simp
qed

text \<open>
  Property C24.  The skipping generator and the history fit together: registering each popped number, after the
  number it skipped, never panics with a non-sequential packet number, and the number returned is the one
  announced by \<^verbatim>\<open>Peek\<close>.
\<close>

theorem popped_numbers_register:
  assumes "skip_ok g" "\<forall>d\<in>set ds. int31 d" "skip_Pop g ds = Some ((skipped, pn), g', ds')"
    and "sent_ok h" "highestPacketNumber h = skip_next g - 1" "0 \<le> skip_next g"
  shows "pn = skip_Peek g \<and> skip_ok g' \<and>
    (\<exists>h'. go_bind (if skipped then SkippedPacket h (pn - 1) else Inr h) (\<lambda>h. history_SentPacket h pn p) = Inr h' \<and>
      sent_ok h' \<and> lookup h' pn = Some p \<and> highestPacketNumber h' = skip_next g' - 1)"
  using skipping.pop_registers [OF assms, of p] skip_Pop_popped [OF assms(1-3)] unfolding popped_def by blast

definition skip_example :: skippingPacketNumberGenerator where
  "skip_example = \<lparr>period = 256, maxPeriod = 131072, skip_next = 8, nextToSkip = 8\<rparr>"

theorem popped_numbers_register_witness:
  "\<exists>h'. go_bind (SkippedPacket sent_example 8) (\<lambda>h. history_SentPacket h 9 zero_packet) = Inr h' \<and> sent_ok h'"
proof -
  have pop: "skip_Pop skip_example [1000] =
      Some ((True, 9), \<lparr>period = 512, maxPeriod = 131072, skip_next = 10, nextToSkip = 501\<rparr>, [])"
    by (simp add: skip_Pop_def skip_example_def generateNewSkip_def Int31n_def i32_id Let_def)
  have "skip_ok skip_example" "\<forall>d\<in>set [1000]. int31 d"
    by (simp_all add: skip_ok_def skip_example_def int31_def)
  from popped_numbers_register [OF this pop sent_example_ok(1), of zero_packet] show ?thesis
    by (auto simp: skip_example_def sent_example_def)
qed

text \<open>
  Property C25.  After skipping a packet number, the generator does not skip any of the following three: it
  never skips two consecutive packet numbers.
\<close>

theorem no_consecutive_skips:
  assumes "skip_ok g" "\<forall>d\<in>set ds. int31 d" "skip_Pop g ds = Some ((True, pn), g', ds')"
  shows "skip_next g' = pn + 1 \<and> pn + 4 \<le> nextToSkip g' \<and>
    (\<exists>g''. skip_Pop g' ds' = Some ((False, pn + 1), g'', ds'))"
proof -
  have p: "skip_next g' = pn + 1" "pn + 4 \<le> nextToSkip g'"
    using skip_Pop_popped [OF assms] by (simp_all add: popped_def)
  then have "skip_next g' \<noteq> nextToSkip g'" by linarith
  then show ?thesis using p by (simp add: skip_Pop_def)
qed

theorem no_consecutive_skips_witness:
  "\<exists>g''. skip_Pop \<lparr>period = 512, maxPeriod = 131072, skip_next = 10, nextToSkip = 501\<rparr> [] = Some ((False, 10), g'', [])"
proof -
  have pop: "skip_Pop skip_example [1000] =
      Some ((True, 9), \<lparr>period = 512, maxPeriod = 131072, skip_next = 10, nextToSkip = 501\<rparr>, [])"
    by (simp add: skip_Pop_def skip_example_def generateNewSkip_def Int31n_def i32_id Let_def)
  have "skip_ok skip_example" "\<forall>d\<in>set [1000]. int31 d"
    by (simp_all add: skip_ok_def skip_example_def int31_def)
  from no_consecutive_skips [OF this pop] show ?thesis by simp
qed

text \<open>
  On send times in order, \<^verbatim>\<open>DeleteBefore\<close> removes exactly the lost packets sent before the
  given time.
\<close>

theorem delete_before_correct:
  assumes "sorted (map snd (lostPackets t))"
  shows "lostPackets (lost_DeleteBefore t ti) = filter (\<lambda>(_, s). ti \<le> s) (lostPackets t)"
  unfolding lost_DeleteBefore_dropWhile using assms by (rule dropWhile_filter_sorted)

theorem delete_before_correct_witness:
  "lostPackets (lost_DeleteBefore \<lparr>maxLength = 64, lostPackets = [(1, 10), (2, 20)]\<rparr> 15) = [(2, 20)]"
  using delete_before_correct [of "\<lparr>maxLength = 64, lostPackets = [(1, 10), (2, 20)]\<rparr>" 15] by simp

end
