(* ===== verification/ECNTracker.thy ===== *)
theory ECNTracker
  imports SentHistory
begin

text \<open>
  ECN validation of a path, \<^verbatim>\<open>internal/ackhandler/ecn.go\<close>: the states of the validation, the counters, the
  marking of outgoing packets and the checks on acknowledged counts.  Logging and qlog events are left out.
  The step relation at the end sends each packet with the marking \<^verbatim>\<open>Mode\<close> returned for it.
\<close>

section \<open>Definitions\<close>

datatype ecnState = ecnStateInitial | ecnStateTesting | ecnStateUnknown | ecnStateCapable | ecnStateFailed

definition numECNTestingPackets :: int where
  "numECNTestingPackets = 10"

record ecnTracker =
  state :: ecnState
  numSentTesting :: u8
  numLostTesting :: u8
  firstTestingPacket :: packet_number
  lastTestingPacket :: packet_number
  firstCapablePacket :: packet_number
  numSentECT0 :: int
  numSentECT1 :: int
  numAckedECT0 :: int
  numAckedECT1 :: int
  numAckedECNCE :: int

definition newECNTracker :: ecnTracker where
  "newECNTracker = \<lparr>state = ecnStateInitial, numSentTesting = 0, numLostTesting = 0,
     firstTestingPacket = InvalidPacketNumber, lastTestingPacket = InvalidPacketNumber,
     firstCapablePacket = InvalidPacketNumber, numSentECT0 = 0, numSentECT1 = 0,
     numAckedECT0 = 0, numAckedECT1 = 0, numAckedECNCE = 0\<rparr>"

text \<open>The part of \<^verbatim>\<open>SentPacket\<close> after the switch on the marking.\<close>

definition sent_marked :: "ecnTracker \<Rightarrow> packet_number \<Rightarrow> ecnTracker" where
  "sent_marked e pn =
     (let e = (if state e = ecnStateCapable \<and> firstCapablePacket e = InvalidPacketNumber
               then e\<lparr>firstCapablePacket := pn\<rparr> else e) in
      if state e \<noteq> ecnStateTesting then e
      else let e = e\<lparr>numSentTesting := numSentTesting e + 1\<rparr>;
               e = (if firstTestingPacket e = InvalidPacketNumber then e\<lparr>firstTestingPacket := pn\<rparr> else e) in
        if i64 (numSentECT0 e + numSentECT1 e) \<ge> numECNTestingPackets
        then e\<lparr>state := ecnStateUnknown, lastTestingPacket := pn\<rparr> else e)"

definition ecn_SentPacket :: "ecnTracker \<Rightarrow> packet_number \<Rightarrow> ECN \<Rightarrow> ecnTracker go" where
  "ecn_SentPacket e pn ecn =
     (case ecn of
        ECNNon \<Rightarrow> Inr e
      | ECT0 \<Rightarrow> Inr (sent_marked (e\<lparr>numSentECT0 := i64 (numSentECT0 e + 1)\<rparr>) pn)
      | ECT1 \<Rightarrow> Inr (sent_marked (e\<lparr>numSentECT1 := i64 (numSentECT1 e + 1)\<rparr>) pn)
      | ECNUnsupported \<Rightarrow>
          if state e \<noteq> ecnStateFailed then Inl ''didn't expect ECN to be unsupported''
          else Inr (sent_marked e pn)
      | ECNCE \<Rightarrow> Inl ''sent packet with unexpected ECN marking'')"

definition ecn_Mode :: "ecnTracker \<Rightarrow> ECN \<times> ecnTracker" where
  "ecn_Mode e =
     (let e = (if state e = ecnStateInitial then e\<lparr>state := ecnStateTesting\<rparr> else e) in
      case state e of
        ecnStateTesting \<Rightarrow> (ECT0, e)
      | ecnStateCapable \<Rightarrow> (ECT0, e)
      | _ \<Rightarrow> (ECNNon, e))"

definition isTestingPacket :: "ecnTracker \<Rightarrow> packet_number \<Rightarrow> bool" where
  "isTestingPacket e pn =
     (if firstTestingPacket e = InvalidPacketNumber then False
      else pn \<ge> firstTestingPacket e \<and>
        (pn \<le> lastTestingPacket e \<or> lastTestingPacket e = InvalidPacketNumber))"

definition ecnMarking :: "ecnTracker \<Rightarrow> packet_number \<Rightarrow> ECN" where
  "ecnMarking e pn =
     (if pn < firstTestingPacket e \<or> firstTestingPacket e = InvalidPacketNumber then ECNNon
      else if pn < lastTestingPacket e \<or> lastTestingPacket e = InvalidPacketNumber then ECT0
      else if pn < firstCapablePacket e \<or> firstCapablePacket e = InvalidPacketNumber then ECNNon
      else ECT0)"

definition failIfMangled :: "ecnTracker \<Rightarrow> ecnTracker" where
  "failIfMangled e =
     (let numAcked = i64 (numAckedECNCE e + uint (numLostTesting e)) in
      if i64 (numSentECT0 e + numSentECT1 e) > numAcked then e else e\<lparr>state := ecnStateFailed\<rparr>)"

definition ecn_LostPacket :: "ecnTracker \<Rightarrow> packet_number \<Rightarrow> ecnTracker" where
  "ecn_LostPacket e pn =
     (if state e \<noteq> ecnStateTesting \<and> state e \<noteq> ecnStateUnknown then e
      else if \<not> isTestingPacket e pn then e
      else let e = e\<lparr>numLostTesting := numLostTesting e + 1\<rparr> in
        if state e \<noteq> ecnStateUnknown then e
        else if numLostTesting e \<ge> numSentTesting e then e\<lparr>state := ecnStateFailed\<rparr>
        else failIfMangled e)"

text \<open>The loop that counts the marks of the newly acknowledged packets, as the pair of both counts.\<close>

definition count_marks :: "ecnTracker \<Rightarrow> packet_number list \<Rightarrow> int \<times> int" where
  "count_marks e pns =
     foldl (\<lambda>(a0, a1) pn. case ecnMarking e pn of ECT0 \<Rightarrow> (a0 + 1, a1) | ECT1 \<Rightarrow> (a0, a1 + 1) | _ \<Rightarrow> (a0, a1)) (0, 0) pns"

text \<open>The checks of \<^verbatim>\<open>HandleNewlyAcked\<close> before the counters are updated: whether the counts are acceptable.\<close>

definition counts_acceptable :: "ecnTracker \<Rightarrow> packet_number list \<Rightarrow> int \<Rightarrow> int \<Rightarrow> int \<Rightarrow> bool" where
  "counts_acceptable e pns ect0 ect1 ecnce =
     (if ect0 > numSentECT0 e \<or> ect1 > numSentECT1 e then False
      else let (ackedECT0, ackedECT1) = count_marks e pns in
      if (ackedECT0 > 0 \<or> ackedECT1 > 0) \<and> ect0 = 0 \<and> ect1 = 0 \<and> ecnce = 0 then False
      else let newECT0 = i64 (ect0 - numAckedECT0 e); newECT1 = i64 (ect1 - numAckedECT1 e);
               newECNCE = i64 (ecnce - numAckedECNCE e) in
      if newECT0 < 0 \<or> newECT1 < 0 \<or> newECNCE < 0 then False
      else if i64 (newECT0 + newECNCE) < ackedECT0 then False
      else if i64 (newECT1 + newECNCE) < ackedECT1 then False
      else True)"

definition HandleNewlyAcked ::
  "ecnTracker \<Rightarrow> packet_number list \<Rightarrow> int \<Rightarrow> int \<Rightarrow> int \<Rightarrow> bool \<times> ecnTracker" where
  "HandleNewlyAcked e pns ect0 ect1 ecnce =
     (if state e = ecnStateFailed then (False, e)
      else if \<not> counts_acceptable e pns ect0 ect1 ecnce then (False, e\<lparr>state := ecnStateFailed\<rparr>)
      else
        let newECT0 = i64 (ect0 - numAckedECT0 e); newECT1 = i64 (ect1 - numAckedECT1 e);
            newECNCE = i64 (ecnce - numAckedECNCE e);
            e = e\<lparr>numAckedECT0 := ect0, numAckedECT1 := ect1, numAckedECNCE := ecnce\<rparr>;
            e = (if state e = ecnStateUnknown then failIfMangled e else e) in
        if state e = ecnStateFailed then (False, e)
        else let e = (if (state e = ecnStateTesting \<or> state e = ecnStateUnknown) \<and>
                         list_ex (isTestingPacket e) pns \<and> (newECT0 > 0 \<or> newECT1 > 0)
                      then e\<lparr>state := ecnStateCapable\<rparr> else e) in
          (state e = ecnStateCapable \<and> newECNCE > 0, e))"

section \<open>Runs\<close>

text \<open>
  The ghost list holds the packets sent in 1-RTT with their markings, newest first.  Packet numbers only
  grow; each packet carries what \<^verbatim>\<open>Mode\<close> returned.  Counts are what an ACK frame can carry.
\<close>

inductive ecn_reach :: "ecnTracker \<Rightarrow> (packet_number \<times> ECN) list \<Rightarrow> bool" where
  ecn_new: "ecn_reach newECNTracker []"
| ecn_send: "ecn_reach e sent \<Longrightarrow> ecn_Mode e = (m, e1) \<Longrightarrow> 0 \<le> pn \<Longrightarrow> (\<forall>(q, _)\<in>set sent. q < pn) \<Longrightarrow>
    length sent < 2 ^ 60 \<Longrightarrow> ecn_SentPacket e1 pn m = Inr e2 \<Longrightarrow> ecn_reach e2 ((pn, m) # sent)"
| ecn_ask: "ecn_reach e sent \<Longrightarrow> ecn_Mode e = (m, e1) \<Longrightarrow> ecn_reach e1 sent"
| ecn_lost: "ecn_reach e sent \<Longrightarrow> ecn_reach (ecn_LostPacket e pn) sent"
| ecn_acked: "ecn_reach e sent \<Longrightarrow> 0 \<le> ect0 \<Longrightarrow> ect0 < 2 ^ 62 \<Longrightarrow> 0 \<le> ect1 \<Longrightarrow> ect1 < 2 ^ 62 \<Longrightarrow>
    0 \<le> ecnce \<Longrightarrow> ecnce < 2 ^ 62 \<Longrightarrow> HandleNewlyAcked e pns ect0 ect1 ecnce = (c, e') \<Longrightarrow> ecn_reach e' sent"

section \<open>The invariant\<close>

definition marked :: "(packet_number \<times> ECN) list \<Rightarrow> nat" where
  "marked sent = length (filter (\<lambda>(_, m). m = ECT0) sent)"

text \<open>The counters, in every state.\<close>

definition counters_ok :: "ecnTracker \<Rightarrow> (packet_number \<times> ECN) list \<Rightarrow> bool" where
  "counters_ok e sent \<longleftrightarrow> numSentECT0 e = int (marked sent) \<and> numSentECT1 e = 0 \<and> marked sent \<le> length sent \<and>
     length sent \<le> 2 ^ 60 \<and>
     0 \<le> numAckedECT0 e \<and> numAckedECT0 e \<le> numSentECT0 e \<and> 0 \<le> numAckedECT1 e \<and> numAckedECT1 e \<le> numSentECT1 e \<and>
     0 \<le> numAckedECNCE e \<and> numAckedECNCE e < 2 ^ 62 \<and>
     (state e = ecnStateInitial \<longrightarrow> sent = [] \<and> numSentTesting e = 0) \<and>
     (state e = ecnStateTesting \<longrightarrow> marked sent < 10 \<and> numSentTesting e = of_nat (marked sent)) \<and>
     (state e = ecnStateUnknown \<longrightarrow> marked sent = 10 \<and> numSentTesting e = 10)"

text \<open>The marking a packet was sent with, read off the three packet numbers the tracker keeps.\<close>

definition sent_mark :: "ecnTracker \<Rightarrow> packet_number \<Rightarrow> ECN" where
  "sent_mark e pn = (if lastTestingPacket e = - 1 \<or> pn \<le> lastTestingPacket e then ECT0
     else if firstCapablePacket e = - 1 \<or> pn < firstCapablePacket e then ECNNon else ECT0)"

definition marks_ok :: "ecnTracker \<Rightarrow> (packet_number \<times> ECN) list \<Rightarrow> bool" where
  "marks_ok e sent \<longleftrightarrow>
     (\<forall>(pn, m)\<in>set sent. m = sent_mark e pn \<and> firstTestingPacket e \<noteq> - 1 \<and> firstTestingPacket e \<le> pn \<and> 0 \<le> pn) \<and>
     (sent = [] \<longrightarrow> firstTestingPacket e = - 1) \<and>
     (lastTestingPacket e \<noteq> - 1 \<longrightarrow> lastTestingPacket e \<in> fst ` set sent) \<and>
     (firstCapablePacket e \<noteq> - 1 \<longrightarrow> firstCapablePacket e \<in> fst ` set sent \<and> lastTestingPacket e < firstCapablePacket e) \<and>
     (state e = ecnStateInitial \<or> state e = ecnStateTesting \<longrightarrow> lastTestingPacket e = - 1 \<and> firstCapablePacket e = - 1) \<and>
     (state e = ecnStateUnknown \<longrightarrow> lastTestingPacket e \<noteq> - 1 \<and> firstCapablePacket e = - 1) \<and>
     (state e = ecnStateCapable \<longrightarrow> sent \<noteq> [])"

definition ecn_inv :: "ecnTracker \<Rightarrow> (packet_number \<times> ECN) list \<Rightarrow> bool" where
  "ecn_inv e sent \<longleftrightarrow> counters_ok e sent \<and> (state e \<noteq> ecnStateFailed \<longrightarrow> marks_ok e sent)"

lemma sent_mark_frame [simp]:
  "sent_mark (e\<lparr>state := a\<rparr>) = sent_mark e" "sent_mark (e\<lparr>numLostTesting := n\<rparr>) = sent_mark e"
  "sent_mark (e\<lparr>numAckedECT0 := x, numAckedECT1 := y, numAckedECNCE := z\<rparr>) = sent_mark e"
  "sent_mark (e\<lparr>numSentECT0 := x\<rparr>) = sent_mark e" "sent_mark (e\<lparr>numSentTesting := n\<rparr>) = sent_mark e"
  "sent_mark (e\<lparr>firstTestingPacket := p\<rparr>) = sent_mark e"
  by (rule ext, simp add: sent_mark_def cong: if_cong)+

lemma marked_Cons [simp]: "marked ((pn, m) # sent) = (if m = ECT0 then 1 else 0) + marked sent"
  by (simp add: marked_def)

lemma ecn_inv_new: "ecn_inv newECNTracker []"
  by (simp add: ecn_inv_def counters_ok_def marks_ok_def newECNTracker_def marked_def go_defs)

lemma Mode_cases:
  assumes "ecn_Mode e = (m, e1)"
  shows "e1 = (if state e = ecnStateInitial then e\<lparr>state := ecnStateTesting\<rparr> else e)"
    "m = (if state e1 = ecnStateTesting \<or> state e1 = ecnStateCapable then ECT0 else ECNNon)" "state e1 \<noteq> ecnStateInitial"
  using assms by (auto simp: ecn_Mode_def Let_def split: ecnState.splits if_splits)

lemma ecn_inv_mode:
  assumes "ecn_inv e sent" "ecn_Mode e = (m, e1)"
  shows "ecn_inv e1 sent"
proof (cases "state e = ecnStateInitial")
  case True
  then have e1: "e1 = e\<lparr>state := ecnStateTesting\<rparr>" using Mode_cases(1) [OF assms(2)] by simp
  have "sent = []" "numSentTesting e = 0" using True assms(1) by (simp_all add: ecn_inv_def counters_ok_def)
  then show ?thesis
    using assms(1) True e1 by (simp add: ecn_inv_def counters_ok_def marks_ok_def marked_def)
next
  case False
  then show ?thesis using Mode_cases(1) [OF assms(2)] assms(1) by simp
qed

lemma failIfMangled_fields:
  "failIfMangled e = e \<or> failIfMangled e = e\<lparr>state := ecnStateFailed\<rparr>"
  by (simp add: failIfMangled_def Let_def)

text \<open>Steps that leave the counters of sent packets and the packet numbers alone, and may give up.\<close>

lemma ecn_inv_fail: "ecn_inv e sent \<Longrightarrow> ecn_inv (e\<lparr>state := ecnStateFailed\<rparr>) sent"
  by (simp add: ecn_inv_def counters_ok_def)

lemma ecn_inv_lost_count: "ecn_inv e sent \<Longrightarrow> ecn_inv (e\<lparr>numLostTesting := n\<rparr>) sent"
  by (simp add: ecn_inv_def counters_ok_def marks_ok_def)

lemma ecn_inv_mangled: "ecn_inv e sent \<Longrightarrow> ecn_inv (failIfMangled e) sent"
  using failIfMangled_fields [of e] ecn_inv_fail [of e sent] by metis

lemma ecn_inv_lost: "ecn_inv e sent \<Longrightarrow> ecn_inv (ecn_LostPacket e pn) sent"
  using ecn_inv_lost_count [of e sent "numLostTesting e + 1"]
  by (simp add: ecn_LostPacket_def Let_def ecn_inv_mangled ecn_inv_fail [of "e\<lparr>numLostTesting := _\<rparr>", simplified])

lemma capable_has_sent:
  assumes "ecn_inv e sent" "state e = ecnStateTesting \<or> state e = ecnStateUnknown" "isTestingPacket e pn"
  shows "sent \<noteq> []"
  using assms by (auto simp: ecn_inv_def marks_ok_def isTestingPacket_def go_defs)

lemma ecn_inv_capable:
  assumes "ecn_inv e sent" "state e = ecnStateTesting \<or> state e = ecnStateUnknown" "list_ex (isTestingPacket e) pns"
  shows "ecn_inv (e\<lparr>state := ecnStateCapable\<rparr>) sent"
proof -
  have "sent \<noteq> []" using capable_has_sent [OF assms(1,2)] assms(3) by (auto simp: list_ex_iff)
  moreover have "marks_ok e sent" "counters_ok e sent" using assms by (auto simp: ecn_inv_def)
  ultimately have "marks_ok (e\<lparr>state := ecnStateCapable\<rparr>) sent" "counters_ok (e\<lparr>state := ecnStateCapable\<rparr>) sent"
    by (simp_all add: marks_ok_def counters_ok_def)
  then show ?thesis by (simp add: ecn_inv_def)
qed

lemma ecn_inv_counts:
  assumes "ecn_inv e sent" "0 \<le> a" "a \<le> numSentECT0 e" "0 \<le> b" "b \<le> numSentECT1 e" "0 \<le> c" "c < 2 ^ 62"
  shows "ecn_inv (e\<lparr>numAckedECT0 := a, numAckedECT1 := b, numAckedECNCE := c\<rparr>) sent"
proof -
  have "counters_ok (e\<lparr>numAckedECT0 := a, numAckedECT1 := b, numAckedECNCE := c\<rparr>) sent"
    using assms by (simp add: ecn_inv_def counters_ok_def)
  moreover have "marks_ok (e\<lparr>numAckedECT0 := a, numAckedECT1 := b, numAckedECNCE := c\<rparr>) sent" if "state e \<noteq> ecnStateFailed"
    using assms(1) that by (simp add: ecn_inv_def marks_ok_def)
  ultimately show ?thesis by (simp add: ecn_inv_def)
qed

lemma counts_bounded: "counts_acceptable e pns ect0 ect1 ecnce \<Longrightarrow> ect0 \<le> numSentECT0 e \<and> ect1 \<le> numSentECT1 e"
  by (simp add: counts_acceptable_def split: if_splits)

text \<open>The outcomes of \<^verbatim>\<open>HandleNewlyAcked\<close>.\<close>

lemma HandleNewlyAcked_cases:
  assumes "HandleNewlyAcked e pns ect0 ect1 ecnce = (c, e')"
  obtains (failed) "\<not> c" "e' = e\<lparr>state := ecnStateFailed\<rparr>"
  | (same) "\<not> c" "state e = ecnStateFailed" "e' = e"
  | (mangled) e2 where "counts_acceptable e pns ect0 ect1 ecnce" "\<not> c"
      "e2 = e\<lparr>numAckedECT0 := ect0, numAckedECT1 := ect1, numAckedECNCE := ecnce\<rparr>" "e' = e2\<lparr>state := ecnStateFailed\<rparr>"
  | (accepted) e2 where "counts_acceptable e pns ect0 ect1 ecnce" "state e \<noteq> ecnStateFailed"
      "e2 = e\<lparr>numAckedECT0 := ect0, numAckedECT1 := ect1, numAckedECNCE := ecnce\<rparr>"
      "e' = e2 \<or> e' = e2\<lparr>state := ecnStateCapable\<rparr> \<and> (state e2 = ecnStateTesting \<or> state e2 = ecnStateUnknown) \<and>
         list_ex (isTestingPacket e2) pns"
      "c \<longleftrightarrow> state e' = ecnStateCapable \<and> i64 (ecnce - numAckedECNCE e) > 0"
proof (cases "state e = ecnStateFailed \<or> \<not> counts_acceptable e pns ect0 ect1 ecnce")
  case True
  then show thesis using assms failed same by (auto simp: HandleNewlyAcked_def split: if_splits)
next
  case False
  define e2 where "e2 = e\<lparr>numAckedECT0 := ect0, numAckedECT1 := ect1, numAckedECNCE := ecnce\<rparr>"
  define e3 where "e3 = (if state e2 = ecnStateUnknown then failIfMangled e2 else e2)"
  define e4 where "e4 = (if (state e3 = ecnStateTesting \<or> state e3 = ecnStateUnknown) \<and> list_ex (isTestingPacket e3) pns \<and>
      (i64 (ect0 - numAckedECT0 e) > 0 \<or> i64 (ect1 - numAckedECT1 e) > 0) then e3\<lparr>state := ecnStateCapable\<rparr> else e3)"
  have eq: "(c, e') = (if state e3 = ecnStateFailed then (False, e3)
      else (state e4 = ecnStateCapable \<and> i64 (ecnce - numAckedECNCE e) > 0, e4))"
    unfolding assms [symmetric] HandleNewlyAcked_def Let_def e4_def e3_def e2_def
    using False by (simp only: de_Morgan_disj not_not if_False if_True simp_thms)
  have e3: "e3 = e2 \<or> e3 = e2\<lparr>state := ecnStateFailed\<rparr>" using failIfMangled_fields [of e2] by (simp add: e3_def)
  have st: "state e2 = state e" by (simp add: e2_def)
  show thesis
  proof (cases "state e3 = ecnStateFailed")
    case True
    then have "e3 = e2\<lparr>state := ecnStateFailed\<rparr>" using e3 st False by auto
    then show thesis using True eq False by (intro mangled [OF _ _ e2_def]) simp_all
  next
    case F: False
    then have "e3 = e2" using e3 by auto
    then show thesis
      using F eq False by (intro accepted [OF _ _ e2_def]) (simp_all add: e4_def split: if_splits)
  qed
qed

lemma ecn_inv_acked:
  assumes "ecn_inv e sent" "0 \<le> ect0" "0 \<le> ect1" "0 \<le> ecnce" "ecnce < 2 ^ 62"
    "HandleNewlyAcked e pns ect0 ect1 ecnce = (c, e')"
  shows "ecn_inv e' sent"
  using assms(6)
proof (cases rule: HandleNewlyAcked_cases)
  case failed
  then show ?thesis using ecn_inv_fail [OF assms(1)] by simp
next
  case same
  then show ?thesis using assms(1) by simp
next
  case (mangled e2)
  have "ecn_inv e2 sent"
    unfolding mangled(3) using assms counts_bounded [OF mangled(1)] by (intro ecn_inv_counts) simp_all
  then show ?thesis using ecn_inv_fail mangled(4) by simp
next
  case (accepted e2)
  have "ecn_inv e2 sent"
    unfolding accepted(3) using assms counts_bounded [OF accepted(1)] by (intro ecn_inv_counts) simp_all
  then show ?thesis using accepted(4) ecn_inv_capable by blast
qed

subsection \<open>Sending\<close>

lemma sent_marked_testing:
  assumes "state e = ecnStateTesting"
  shows "sent_marked e pn = (let e1 = e\<lparr>numSentTesting := numSentTesting e + 1,
      firstTestingPacket := (if firstTestingPacket e = - 1 then pn else firstTestingPacket e)\<rparr> in
    if i64 (numSentECT0 e + numSentECT1 e) \<ge> 10 then e1\<lparr>state := ecnStateUnknown, lastTestingPacket := pn\<rparr> else e1)"
  using assms by (simp add: sent_marked_def Let_def go_defs numECNTestingPackets_def)

lemma sent_marked_capable:
  assumes "state e = ecnStateCapable"
  shows "sent_marked e pn =
    e\<lparr>firstCapablePacket := (if firstCapablePacket e = - 1 then pn else firstCapablePacket e)\<rparr>"
  using assms by (simp add: sent_marked_def Let_def go_defs)

lemma ecn_inv_send_testing:
  assumes inv: "ecn_inv e sent" and st: "state e = ecnStateTesting" and pn: "0 \<le> pn" "\<forall>(q, _)\<in>set sent. q < pn"
    and len: "length sent < 2 ^ 60"
  shows "ecn_inv (sent_marked (e\<lparr>numSentECT0 := i64 (numSentECT0 e + 1)\<rparr>) pn) ((pn, ECT0) # sent)"
proof -
  have c: "counters_ok e sent" and m: "marks_ok e sent" using inv st by (simp_all add: ecn_inv_def)
  have n: "numSentECT0 e = int (marked sent)" "numSentECT1 e = 0" "marked sent < 10" "numSentTesting e = of_nat (marked sent)"
    using c st by (simp_all add: counters_ok_def)
  have i: "i64 (int (marked sent) + 1) = int (marked sent) + 1"
    using n(3) by (intro i64_id) (simp add: is_i64_def)
  have lc: "lastTestingPacket e = - 1" "firstCapablePacket e = - 1" using m st by (simp_all add: marks_ok_def)
  define f where "f = (if firstTestingPacket e = - 1 then pn else firstTestingPacket e)"
  have all: "\<forall>(q, k)\<in>set sent. k = ECT0 \<and> f \<le> q \<and> 0 \<le> q \<and> q < pn" "f \<le> pn" "f \<noteq> - 1"
  proof -
    have "\<forall>(q, k)\<in>set sent. k = ECT0 \<and> firstTestingPacket e \<noteq> - 1 \<and> firstTestingPacket e \<le> q \<and> 0 \<le> q"
      using m lc by (auto simp: marks_ok_def sent_mark_def)
    moreover have "sent = [] \<longrightarrow> firstTestingPacket e = - 1" using m by (simp add: marks_ok_def)
    ultimately show "\<forall>(q, k)\<in>set sent. k = ECT0 \<and> f \<le> q \<and> 0 \<le> q \<and> q < pn" "f \<le> pn" "f \<noteq> - 1"
      using pn by (cases sent; fastforce simp: f_def)+
  qed
  show ?thesis
  proof (cases "marked sent = 9")
    case True
    have eq: "sent_marked (e\<lparr>numSentECT0 := i64 (numSentECT0 e + 1)\<rparr>) pn = e\<lparr>numSentECT0 := 10, numSentTesting := 10,
        firstTestingPacket := f, state := ecnStateUnknown, lastTestingPacket := pn\<rparr>"
      using True n i st by (simp add: sent_marked_testing Let_def f_def i64_id is_i64_def)
    have "counters_ok (e\<lparr>numSentECT0 := 10, numSentTesting := 10,
        firstTestingPacket := f, state := ecnStateUnknown, lastTestingPacket := pn\<rparr>) ((pn, ECT0) # sent)"
      using c True len by (simp add: counters_ok_def)
    moreover have "marks_ok (e\<lparr>numSentECT0 := 10, numSentTesting := 10,
        firstTestingPacket := f, state := ecnStateUnknown, lastTestingPacket := pn\<rparr>) ((pn, ECT0) # sent)"
      using all lc pn(1) by (auto simp: marks_ok_def sent_mark_def)
    ultimately show ?thesis unfolding eq by (simp add: ecn_inv_def)
  next
    case False
    have eq: "sent_marked (e\<lparr>numSentECT0 := i64 (numSentECT0 e + 1)\<rparr>) pn = e\<lparr>numSentECT0 := int (marked sent) + 1,
        numSentTesting := of_nat (marked sent) + 1, firstTestingPacket := f\<rparr>"
      using False n i st by (simp add: sent_marked_testing Let_def f_def)
    have "counters_ok (e\<lparr>numSentECT0 := int (marked sent) + 1,
        numSentTesting := of_nat (marked sent) + 1, firstTestingPacket := f\<rparr>) ((pn, ECT0) # sent)"
      using c False len st n(3) by (simp add: counters_ok_def)
    moreover have "marks_ok (e\<lparr>numSentECT0 := int (marked sent) + 1,
        numSentTesting := of_nat (marked sent) + 1, firstTestingPacket := f\<rparr>) ((pn, ECT0) # sent)"
      using all lc pn(1) st by (auto simp: marks_ok_def sent_mark_def)
    ultimately show ?thesis unfolding eq by (simp add: ecn_inv_def)
  qed
qed

lemma ecn_inv_send_capable:
  assumes inv: "ecn_inv e sent" and st: "state e = ecnStateCapable" and pn: "0 \<le> pn" "\<forall>(q, _)\<in>set sent. q < pn"
    and len: "length sent < 2 ^ 60"
  shows "ecn_inv (sent_marked (e\<lparr>numSentECT0 := i64 (numSentECT0 e + 1)\<rparr>) pn) ((pn, ECT0) # sent)"
proof -
  have c: "counters_ok e sent" and m: "marks_ok e sent" using inv st by (simp_all add: ecn_inv_def)
  have i: "i64 (numSentECT0 e + 1) = numSentECT0 e + 1"
    using c len by (intro i64_id) (simp add: counters_ok_def is_i64_def)
  define f where "f = (if firstCapablePacket e = - 1 then pn else firstCapablePacket e)"
  have eq: "sent_marked (e\<lparr>numSentECT0 := i64 (numSentECT0 e + 1)\<rparr>) pn =
      e\<lparr>numSentECT0 := numSentECT0 e + 1, firstCapablePacket := f\<rparr>"
    using st i by (simp add: sent_marked_capable f_def)
  have "counters_ok (e\<lparr>numSentECT0 := numSentECT0 e + 1, firstCapablePacket := f\<rparr>) ((pn, ECT0) # sent)"
    using c len st by (simp add: counters_ok_def)
  moreover have "marks_ok (e\<lparr>numSentECT0 := numSentECT0 e + 1, firstCapablePacket := f\<rparr>) ((pn, ECT0) # sent)"
  proof -
    have lt: "q < pn" if "q \<in> fst ` set sent" for q using pn(2) that by auto
    have last: "lastTestingPacket e \<noteq> - 1 \<Longrightarrow> lastTestingPacket e < pn"
      using m lt [of "lastTestingPacket e"] by (simp add: marks_ok_def)
    have cap: "firstCapablePacket e \<noteq> - 1 \<Longrightarrow> firstCapablePacket e < pn \<and> lastTestingPacket e < firstCapablePacket e"
      using m lt [of "firstCapablePacket e"] by (simp add: marks_ok_def)
    have old: "\<forall>(q, k)\<in>set sent. k = sent_mark (e\<lparr>numSentECT0 := numSentECT0 e + 1, firstCapablePacket := f\<rparr>) q"
    proof (clarify)
      fix q k assume q: "(q, k) \<in> set sent"
      then have "k = sent_mark e q" "q < pn" using m pn(2) by (auto simp: marks_ok_def)
      then show "k = sent_mark (e\<lparr>numSentECT0 := numSentECT0 e + 1, firstCapablePacket := f\<rparr>) q"
        by (simp add: sent_mark_def f_def cong: if_cong)
    qed
    have first: "\<forall>(q, k)\<in>set sent. firstTestingPacket e \<noteq> - 1 \<and> firstTestingPacket e \<le> q \<and> 0 \<le> q"
      using m by (auto simp: marks_ok_def)
    obtain q0 k0 where q0: "(q0, k0) \<in> set sent" using m st by (cases sent) (auto simp: marks_ok_def)
    have "firstTestingPacket e \<noteq> - 1" "firstTestingPacket e \<le> pn"
      using first pn(2) q0 by fastforce+
    moreover have "sent_mark (e\<lparr>numSentECT0 := numSentECT0 e + 1, firstCapablePacket := f\<rparr>) pn = ECT0"
      using cap pn(1) by (cases "firstCapablePacket e = - 1") (auto simp: sent_mark_def f_def)
    moreover have "f \<in> fst ` set ((pn, ECT0) # sent)" "lastTestingPacket e < f"
      using m cap last pn(1) by (auto simp: f_def marks_ok_def)
    moreover have "lastTestingPacket e \<noteq> - 1 \<longrightarrow> lastTestingPacket e \<in> fst ` set ((pn, ECT0) # sent)"
      using m by (simp add: marks_ok_def)
    ultimately show ?thesis using old first st pn(1) unfolding marks_ok_def by auto
  qed
  ultimately show ?thesis unfolding eq by (simp add: ecn_inv_def)
qed

lemma ecn_inv_send_unmarked:
  assumes inv: "ecn_inv e sent" and st: "state e = ecnStateUnknown \<or> state e = ecnStateFailed"
    and pn: "0 \<le> pn" "\<forall>(q, _)\<in>set sent. q < pn" and len: "length sent < 2 ^ 60"
  shows "ecn_inv e ((pn, ECNNon) # sent)"
proof -
  have "counters_ok e ((pn, ECNNon) # sent)"
    using inv st len by (auto simp: ecn_inv_def counters_ok_def)
  moreover have "marks_ok e ((pn, ECNNon) # sent)" if u: "state e = ecnStateUnknown"
  proof -
    have m: "marks_ok e sent" using inv u by (simp add: ecn_inv_def)
    then obtain k where k: "(lastTestingPacket e, k) \<in> set sent" "lastTestingPacket e \<noteq> - 1" "firstCapablePacket e = - 1"
      using u by (auto simp: marks_ok_def)
    then have "lastTestingPacket e < pn" "firstTestingPacket e \<noteq> - 1" "firstTestingPacket e \<le> lastTestingPacket e"
      using pn(2) m by (auto simp: marks_ok_def)
    then show ?thesis using m k pn(1) u by (auto simp: marks_ok_def sent_mark_def)
  qed
  ultimately show ?thesis using st by (auto simp: ecn_inv_def)
qed

lemma ecn_inv_send:
  assumes "ecn_inv e sent" "ecn_Mode e = (m, e1)" "0 \<le> pn" "\<forall>(q, _)\<in>set sent. q < pn" "length sent < 2 ^ 60"
    "ecn_SentPacket e1 pn m = Inr e2"
  shows "ecn_inv e2 ((pn, m) # sent)"
proof -
  have inv: "ecn_inv e1 sent" using assms(1,2) by (rule ecn_inv_mode)
  note mc = Mode_cases(2,3) [OF assms(2)]
  consider "state e1 = ecnStateTesting" | "state e1 = ecnStateCapable" | "state e1 = ecnStateUnknown \<or> state e1 = ecnStateFailed"
    using mc(2) by (cases "state e1") auto
  then show ?thesis
  proof cases
    case 1
    then show ?thesis using ecn_inv_send_testing [OF inv 1 assms(3-5)] assms(6) mc(1) by (simp add: ecn_SentPacket_def)
  next
    case 2
    then show ?thesis using ecn_inv_send_capable [OF inv 2 assms(3-5)] assms(6) mc(1) by (simp add: ecn_SentPacket_def)
  next
    case 3
    then have "m = ECNNon" using mc(1) by auto
    then show ?thesis using ecn_inv_send_unmarked [OF inv 3 assms(3-5)] assms(6) by (simp add: ecn_SentPacket_def)
  qed
qed

lemma ecn_reach_inv: "ecn_reach e sent \<Longrightarrow> ecn_inv e sent"
proof (induction rule: ecn_reach.induct)
  case ecn_new
  show ?case by (rule ecn_inv_new)
next
  case (ecn_send e sent m e1 pn e2)
  show ?case by (rule ecn_inv_send [OF ecn_send.IH ecn_send.hyps(2-6)])
next
  case (ecn_ask e sent m e1)
  show ?case by (rule ecn_inv_mode [OF ecn_ask.IH ecn_ask.hyps(2)])
next
  case (ecn_lost e sent pn)
  show ?case by (rule ecn_inv_lost [OF ecn_lost.IH])
next
  case (ecn_acked e sent ect0 ect1 ecnce pns c e')
  show ?case by (rule ecn_inv_acked [OF ecn_acked.IH ecn_acked.hyps(2,4,6,7,8)])
qed

section \<open>Properties\<close>

text \<open>
  Property C16.  On every run that has not failed, the tracker recalls how each packet was marked from three
  packet numbers, with one exception: the last testing packet was sent with ECT(0) and counts as unmarked.
\<close>

theorem ecn_marking_recalled:
  assumes "ecn_reach e sent" "state e \<noteq> ecnStateFailed" "(pn, m) \<in> set sent"
  shows "if pn = lastTestingPacket e then m = ECT0 \<and> ecnMarking e pn = ECNNon else ecnMarking e pn = m"
proof -
  have m: "marks_ok e sent" using ecn_reach_inv [OF assms(1)] assms(2) by (simp add: ecn_inv_def)
  have p: "m = sent_mark e pn" "firstTestingPacket e \<noteq> - 1" "firstTestingPacket e \<le> pn" "0 \<le> pn"
    using m assms(3) by (auto simp: marks_ok_def)
  have cap: "firstCapablePacket e \<noteq> - 1 \<Longrightarrow> lastTestingPacket e < firstCapablePacket e"
    using m by (simp add: marks_ok_def)
  show ?thesis
  proof (cases "pn = lastTestingPacket e")
    case True
    then show ?thesis
      using p cap by (cases "firstCapablePacket e = - 1") (simp_all add: ecnMarking_def sent_mark_def go_defs)
  next
    case False
    then have "pn < lastTestingPacket e \<longleftrightarrow> pn \<le> lastTestingPacket e" by linarith
    then show ?thesis using p False by (auto simp: ecnMarking_def sent_mark_def go_defs)
  qed
qed

definition ecn_run :: "nat \<Rightarrow> ecnTracker" where
  "ecn_run n = foldl (\<lambda>e i. case ecn_Mode e of (m, e) \<Rightarrow> case ecn_SentPacket e (int i) m of Inr e \<Rightarrow> e | Inl _ \<Rightarrow> e)
     newECNTracker [0..<n]"

lemma ecn_example_reach: "ecn_reach (ecn_run 1) [(0, ECT0)]"
proof -
  have "ecn_Mode newECNTracker = (ECT0, newECNTracker\<lparr>state := ecnStateTesting\<rparr>)" by code_simp
  moreover have "ecn_SentPacket (newECNTracker\<lparr>state := ecnStateTesting\<rparr>) 0 ECT0 = Inr (ecn_run 1)" by code_simp
  ultimately show ?thesis using ecn_send [OF ecn_new] by simp
qed

theorem ecn_marking_recalled_witness: "ecn_reach (ecn_run 1) [(0, ECT0)] \<and> ecnMarking (ecn_run 1) 0 = ECT0"
proof -
  have "state (ecn_run 1) \<noteq> ecnStateFailed" "lastTestingPacket (ecn_run 1) = - 1" by code_simp+
  then show ?thesis using ecn_marking_recalled [OF ecn_example_reach, of 0 ECT0] ecn_example_reach by simp
qed

text \<open>
  Property C15.  Until the path is confirmed, at most ten packets are sent with an ECN mark, the 8-bit counter of
  testing packets is exact.  The ECT(0) and ECT(1) counts accepted from the peer never exceed the packets sent with that
  mark.  Nothing is claimed of the CE count: the code only requires it not to decrease and compares the growth of the ECT(0)
  and CE counts together with the packets newly acknowledged from below, so the count itself has no upper bound.
\<close>

theorem ecn_testing_bounded:
  assumes "ecn_reach e sent"
  shows "(state e \<in> {ecnStateInitial, ecnStateTesting, ecnStateUnknown} \<longrightarrow>
      length (filter (\<lambda>(_, m). m = ECT0) sent) \<le> 10 \<and>
      unat (numSentTesting e) = length (filter (\<lambda>(_, m). m = ECT0) sent)) \<and>
    numAckedECT0 e \<le> numSentECT0 e \<and> numAckedECT1 e \<le> numSentECT1 e \<and>
    numSentECT0 e = int (length (filter (\<lambda>(_, m). m = ECT0) sent))"
proof -
  have c: "counters_ok e sent" using ecn_reach_inv [OF assms] by (simp add: ecn_inv_def)
  have u: "unat (of_nat n :: u8) = n" if "n < 10" for n
    using that by (simp add: unat_of_nat take_bit_nat_eq_self)
  show ?thesis
    using c u by (cases "state e") (auto simp: counters_ok_def marked_def)
qed

theorem ecn_testing_bounded_witness: "unat (numSentTesting (ecn_run 1)) = 1 \<and> numAckedECT0 (ecn_run 1) \<le> numSentECT0 (ecn_run 1)"
proof -
  have "state (ecn_run 1) = ecnStateTesting" by code_simp
  then show ?thesis using ecn_testing_bounded [OF ecn_example_reach] by simp
qed

text \<open>
  Property C28.  A failed validation is final: in this state every operation stays in it, no packet is marked
  and no congestion is reported.
\<close>

theorem ecn_failed_is_final:
  assumes "state e = ecnStateFailed"
  shows "ecn_Mode e = (ECNNon, e) \<and> ecn_LostPacket e pn = e \<and> HandleNewlyAcked e pns ect0 ect1 ecnce = (False, e) \<and>
    (\<forall>e'. ecn_SentPacket e pn m = Inr e' \<longrightarrow> state e' = ecnStateFailed)"
proof -
  have "state (sent_marked e' pn) = ecnStateFailed" if "state e' = ecnStateFailed" for e'
    using that by (simp add: sent_marked_def)
  then have "\<forall>e'. ecn_SentPacket e pn m = Inr e' \<longrightarrow> state e' = ecnStateFailed"
    using assms by (cases m) (auto simp: ecn_SentPacket_def)
  then show ?thesis
    using assms by (simp add: ecn_Mode_def ecn_LostPacket_def HandleNewlyAcked_def)
qed

theorem ecn_failed_is_final_witness:
  "ecn_Mode (newECNTracker\<lparr>state := ecnStateFailed\<rparr>) = (ECNNon, newECNTracker\<lparr>state := ecnStateFailed\<rparr>)"
  using ecn_failed_is_final [of "newECNTracker\<lparr>state := ecnStateFailed\<rparr>"] by simp

text \<open>
  Property C26.  On every run, an acknowledgement is reported as a congestion signal only on a path confirmed to
  be ECN capable, when the count of CE marks has grown and the ECT(0) count does not exceed the packets sent.
\<close>

theorem ecn_congestion_only_when_capable:
  assumes "ecn_reach e sent" "0 \<le> ecnce" "ecnce < 2 ^ 62" "HandleNewlyAcked e pns ect0 ect1 ecnce = (True, e')"
  shows "state e' = ecnStateCapable \<and> numAckedECNCE e < ecnce \<and> numAckedECNCE e' = ecnce \<and> ect0 \<le> numSentECT0 e"
proof -
  have "0 \<le> numAckedECNCE e" "numAckedECNCE e < 2 ^ 62"
    using ecn_reach_inv [OF assms(1)] by (simp_all add: ecn_inv_def counters_ok_def)
  then have i: "i64 (ecnce - numAckedECNCE e) = ecnce - numAckedECNCE e"
    using assms(2,3) by (intro i64_id) (simp add: is_i64_def)
  from assms(4) show ?thesis
    by (cases rule: HandleNewlyAcked_cases) (use i counts_bounded in auto)
qed

definition ecn_capable :: ecnTracker where
  "ecn_capable = snd (HandleNewlyAcked (ecn_run 1) [0] 1 0 0)"

theorem ecn_congestion_only_when_capable_witness:
  "HandleNewlyAcked ecn_capable [] 1 0 1 = (True, snd (HandleNewlyAcked ecn_capable [] 1 0 1)) \<and>
   state (snd (HandleNewlyAcked ecn_capable [] 1 0 1)) = ecnStateCapable"
proof -
  have "HandleNewlyAcked (ecn_run 1) [0] 1 0 0 = (fst (HandleNewlyAcked (ecn_run 1) [0] 1 0 0), ecn_capable)"
    by (simp add: ecn_capable_def)
  then have r: "ecn_reach ecn_capable [(0, ECT0)]"
    by (intro ecn_acked [OF ecn_example_reach]) simp_all
  have h: "HandleNewlyAcked ecn_capable [] 1 0 1 = (True, snd (HandleNewlyAcked ecn_capable [] 1 0 1))" by code_simp
  show ?thesis using h ecn_congestion_only_when_capable [OF r _ _ h] by simp
qed

end
