(* ===== verification/GoFloat.thy ===== *)
theory GoFloat
  imports Prelude Complex_Main
begin

text \<open>
  Go's \<^verbatim>\<open>float32\<close> and \<^verbatim>\<open>float64\<close> (IEEE 754, round to nearest, ties to even), as far as the code
  uses them: a finite float is the rational number it denotes.  There is one zero, since no code here can
  tell the two zeros apart, and a product and a sum are rounded separately (no fused operation).  Converting
  a float that is out of range to an integer is implementation-defined in Go, so that case is a parameter.
\<close>

section \<open>Rounding\<close>

definition pow2 :: "int \<Rightarrow> rat" where
  "pow2 e = (if 0 \<le> e then 2 ^ nat e else 1 / 2 ^ nat (- e))"

text \<open>The number of bits of a positive integer.\<close>

function bit_len :: "int \<Rightarrow> int" where
  "bit_len n = (if n \<le> 0 then 0 else 1 + bit_len (n div 2))"
  by pat_completeness auto
termination
  by (relation "measure nat") auto

declare bit_len.simps [simp del]

text \<open>The exponent of the leading bit of a positive number.\<close>

definition ilog2 :: "rat \<Rightarrow> int" where
  "ilog2 x = (let (a, b) = quotient_of x; e = bit_len a - bit_len b in if pow2 e \<le> x then e else e - 1)"

text \<open>Round half to even.\<close>

definition rne :: "rat \<Rightarrow> int" where
  "rne x = (let n = \<lfloor>x\<rfloor>; d = x - of_int n in
     if d < 1 / 2 then n else if 1 / 2 < d then n + 1 else if even n then n else n + 1)"

record float_format =
  precision :: int
  min_exp :: int
  max_exp :: int

definition binary32 :: float_format where
  "binary32 = \<lparr>precision = 24, min_exp = - 149, max_exp = 128\<rparr>"

definition binary64 :: float_format where
  "binary64 = \<lparr>precision = 53, min_exp = - 1074, max_exp = 1024\<rparr>"

definition unit_exp :: "float_format \<Rightarrow> rat \<Rightarrow> int" where
  "unit_exp f x = max (ilog2 \<bar>x\<bar> - (precision f - 1)) (min_exp f)"

definition round_rat :: "float_format \<Rightarrow> rat \<Rightarrow> rat" where
  "round_rat f x =
     (if x = 0 then 0 else let q = unit_exp f x in of_int (rne (x / pow2 q)) * pow2 q)"

datatype gofloat = Fin rat | PInf | NInf | NaN

definition fround :: "float_format \<Rightarrow> rat \<Rightarrow> gofloat" where
  "fround f x =
     (let y = round_rat f x in
      if pow2 (max_exp f) \<le> y then PInf else if y \<le> - pow2 (max_exp f) then NInf else Fin y)"

section \<open>Operations\<close>

definition of_i :: "float_format \<Rightarrow> int \<Rightarrow> gofloat" where
  "of_i f n = fround f (of_int n)"

fun fneg :: "gofloat \<Rightarrow> gofloat" where
  "fneg (Fin x) = Fin (- x)"
| "fneg PInf = NInf"
| "fneg NInf = PInf"
| "fneg NaN = NaN"

fun fadd :: "float_format \<Rightarrow> gofloat \<Rightarrow> gofloat \<Rightarrow> gofloat" where
  "fadd f (Fin x) (Fin y) = fround f (x + y)"
| "fadd f NaN _ = NaN"
| "fadd f _ NaN = NaN"
| "fadd f PInf NInf = NaN"
| "fadd f NInf PInf = NaN"
| "fadd f PInf _ = PInf"
| "fadd f _ PInf = PInf"
| "fadd f NInf _ = NInf"
| "fadd f _ NInf = NInf"

definition fsub :: "float_format \<Rightarrow> gofloat \<Rightarrow> gofloat \<Rightarrow> gofloat" where
  "fsub f x y = fadd f x (fneg y)"

fun fsign :: "gofloat \<Rightarrow> int" where
  "fsign (Fin x) = (if x > 0 then 1 else if x < 0 then - 1 else 0)"
| "fsign PInf = 1"
| "fsign NInf = - 1"
| "fsign NaN = 0"

definition finf :: "int \<Rightarrow> gofloat" where
  "finf s = (if s > 0 then PInf else if s < 0 then NInf else NaN)"

fun fmul :: "float_format \<Rightarrow> gofloat \<Rightarrow> gofloat \<Rightarrow> gofloat" where
  "fmul f (Fin x) (Fin y) = fround f (x * y)"
| "fmul f NaN _ = NaN"
| "fmul f _ NaN = NaN"
| "fmul f x y = finf (fsign x * fsign y)"

fun fdiv :: "float_format \<Rightarrow> gofloat \<Rightarrow> gofloat \<Rightarrow> gofloat" where
  "fdiv f NaN _ = NaN"
| "fdiv f _ NaN = NaN"
| "fdiv f (Fin x) (Fin y) = (if y = 0 then finf (fsign (Fin x)) else fround f (x / y))"
| "fdiv f (Fin x) _ = Fin 0"
| "fdiv f x (Fin y) = finf (fsign x * (if y < 0 then - 1 else 1))"
| "fdiv f _ _ = NaN"

fun fless :: "gofloat \<Rightarrow> gofloat \<Rightarrow> bool" where
  "fless (Fin x) (Fin y) = (x < y)"
| "fless NaN _ = False"
| "fless _ NaN = False"
| "fless NInf y = (y \<noteq> NInf)"
| "fless _ NInf = False"
| "fless PInf _ = False"
| "fless (Fin _) PInf = True"

fun feq :: "gofloat \<Rightarrow> gofloat \<Rightarrow> bool" where
  "feq NaN _ = False"
| "feq x y = (x = y)"

definition fleq :: "gofloat \<Rightarrow> gofloat \<Rightarrow> bool" where
  "fleq x y \<longleftrightarrow> fless x y \<or> feq x y"

text \<open>Conversion to an integer truncates; \<open>undef\<close> is what the platform returns out of range.\<close>

definition trunc_rat :: "rat \<Rightarrow> int" where
  "trunc_rat x = (if 0 \<le> x then \<lfloor>x\<rfloor> else \<lceil>x\<rceil>)"

definition to_int64 :: "(gofloat \<Rightarrow> int) \<Rightarrow> gofloat \<Rightarrow> int" where
  "to_int64 undef x =
     (case x of Fin r \<Rightarrow> (if is_i64 (trunc_rat r) then trunc_rat r else undef x) | _ \<Rightarrow> undef x)"

definition to_uint64 :: "(gofloat \<Rightarrow> u64) \<Rightarrow> gofloat \<Rightarrow> u64" where
  "to_uint64 undef x =
     (case x of
        Fin r \<Rightarrow> (if 0 \<le> trunc_rat r \<and> trunc_rat r < 2 ^ 64 then word_of_int (trunc_rat r) else undef x)
      | _ \<Rightarrow> undef x)"

abbreviation float64 :: "int \<Rightarrow> gofloat" where "float64 \<equiv> of_i binary64"
abbreviation float32 :: "int \<Rightarrow> gofloat" where "float32 \<equiv> of_i binary32"

section \<open>Lemmas\<close>

lemma pow2_pos [simp]: "0 < pow2 e"
  by (simp add: pow2_def)

lemma pow2_nz [simp]: "pow2 e \<noteq> 0"
  using pow2_pos [of e] by linarith

lemma pow2_add: "pow2 (a + b) = pow2 a * pow2 b"
proof -
  have "pow2 e = (2::rat) powi e" for e
    by (simp add: pow2_def power_int_def power_one_over)
  then show ?thesis by (simp add: power_int_add)
qed

lemma pow2_0 [simp]: "pow2 0 = 1"
  by (simp add: pow2_def)

lemma pow2_nat: "pow2 (int n) = 2 ^ n"
  by (simp add: pow2_def)

lemma pow2_mono: "a \<le> b \<Longrightarrow> pow2 a \<le> pow2 b"
proof -
  assume "a \<le> b"
  then obtain n where "b = a + int n" by (metis zle_iff_zadd)
  then show ?thesis by (simp add: pow2_add pow2_nat)
qed

lemma rne_le: "x \<le> of_int n \<Longrightarrow> rne x \<le> n"
proof -
  assume "x \<le> of_int n"
  then have "\<lfloor>x\<rfloor> \<le> n" "\<lfloor>x\<rfloor> = n \<Longrightarrow> x - of_int \<lfloor>x\<rfloor> < 1 / 2"
    by (linarith, simp)
  then show ?thesis by (cases "\<lfloor>x\<rfloor> = n") (simp_all add: rne_def Let_def)
qed

lemma rne_ge: "of_int n \<le> x \<Longrightarrow> n \<le> rne x"
proof -
  assume "of_int n \<le> x"
  then have "n \<le> \<lfloor>x\<rfloor>" by (simp add: le_floor_iff)
  moreover have "\<lfloor>x\<rfloor> \<le> rne x" by (simp add: rne_def Let_def)
  ultimately show ?thesis by linarith
qed

lemma rne_of_int [simp]: "rne (of_int n) = n"
  by (simp add: rne_def)

lemma bitlen_pow2:
  assumes "0 < a"
  shows "pow2 (bit_len a - 1) \<le> of_int a" "of_int a < pow2 (bit_len a)"
proof -
  have "pow2 (bit_len a - 1) \<le> of_int a \<and> of_int a < pow2 (bit_len a)" using assms
  proof (induction a rule: bit_len.induct)
    case (1 n)
    have b: "bit_len n = 1 + bit_len (n div 2)" using 1(2) by (subst bit_len.simps) simp
    show ?case
    proof (cases "n = 1")
      case True
      have "bit_len 0 = 0" by (subst bit_len.simps) simp
      then show ?thesis using True b by (simp add: pow2_def)
    next
      case False
      then have h: "0 < n div 2" using 1(2) by (simp add: pos_imp_zdiv_pos_iff)
      define k where "k = n div 2"
      have ih: "pow2 (bit_len k - 1) \<le> of_int k" "of_int k < pow2 (bit_len k)" using 1 h by (auto simp: k_def)
      have k: "2 * k \<le> n" "n < 2 * k + 2" by (simp_all add: k_def)
      have p: "pow2 (bit_len n - 1) = 2 * pow2 (bit_len k - 1)" "pow2 (bit_len n) = 2 * pow2 (bit_len k)"
        using pow2_add [of 1 "bit_len k - 1"] pow2_add [of 1 "bit_len k"] by (simp_all add: b k_def pow2_def)
      have "0 \<le> bit_len k" using ih(2) h less_le_trans [OF ih(2), of 1] pow2_mono [of "bit_len k" 0]
        by (cases "0 \<le> bit_len k") (simp_all add: k_def)
      then have "pow2 (bit_len k) = of_int (2 ^ nat (bit_len k))" by (simp add: pow2_def)
      then have "k < 2 ^ nat (bit_len k)" using ih(2) by (simp only: of_int_less_iff)
      then have "n < 2 * 2 ^ nat (bit_len k)" using k by linarith
      then have "(of_int n :: rat) < of_int (2 * 2 ^ nat (bit_len k))" unfolding of_int_less_iff .
      then have u: "of_int n < pow2 (bit_len n)" using p \<open>pow2 (bit_len k) = _\<close> by simp
      have "(of_int (2 * k) :: rat) \<le> of_int n" using k unfolding of_int_le_iff by simp
      then have "pow2 (bit_len n - 1) \<le> of_int n" using p ih(1) by simp
      then show ?thesis using u by blast
    qed
  qed
  then show "pow2 (bit_len a - 1) \<le> of_int a" "of_int a < pow2 (bit_len a)" by blast+
qed

lemma ilog2_bounds:
  assumes "0 < x"
  shows "pow2 (ilog2 x) \<le> x" "x < pow2 (ilog2 x + 1)"
proof -
  obtain a b where q: "quotient_of x = (a, b)" by (cases "quotient_of x")
  have b: "0 < b" using quotient_of_denom_pos [OF q] .
  have x: "x = of_int a / of_int b" using quotient_of_div [OF q] .
  have a: "0 < a" using assms b by (simp add: x zero_less_divide_iff)
  define e where "e = bit_len a - bit_len b"
  have u: "x < pow2 (e + 1)"
  proof -
    have "of_int a < pow2 (bit_len a)" "pow2 (bit_len b - 1) \<le> of_int b" using bitlen_pow2 a b by blast+
    moreover have "pow2 (e + 1) * pow2 (bit_len b - 1) = pow2 (bit_len a)" by (simp add: e_def pow2_add [symmetric])
    ultimately have "of_int a < pow2 (e + 1) * of_int b"
      by (metis less_le_trans mult_left_mono order_less_imp_le pow2_pos)
    then show ?thesis using b by (simp add: x divide_less_eq)
  qed
  have l: "pow2 (e - 1) \<le> x"
  proof -
    have "pow2 (bit_len a - 1) \<le> of_int a" "of_int b < pow2 (bit_len b)" using bitlen_pow2 a b by blast+
    moreover have "pow2 (e - 1) * pow2 (bit_len b) = pow2 (bit_len a - 1)" by (simp add: e_def pow2_add [symmetric])
    ultimately have "pow2 (e - 1) * of_int b \<le> of_int a"
      by (metis mult_left_mono order_less_imp_le order_trans pow2_pos)
    then show ?thesis using b by (simp add: x le_divide_eq)
  qed
  have "ilog2 x = (if pow2 e \<le> x then e else e - 1)" by (simp add: ilog2_def q e_def)
  then show "pow2 (ilog2 x) \<le> x" "x < pow2 (ilog2 x + 1)" using u l by (cases "pow2 e \<le> x"; simp)+
qed

text \<open>The numbers a format represents exactly, and the rounding between them.\<close>

definition representable :: "float_format \<Rightarrow> rat \<Rightarrow> bool" where
  "representable f c \<longleftrightarrow> (\<exists>m k. c = of_int m * pow2 k \<and> min_exp f \<le> k \<and> of_int \<bar>m\<bar> < pow2 (precision f))"

lemma multiple_of_unit:
  assumes "q \<le> k"
  shows "\<exists>n. of_int m * pow2 k = of_int n * pow2 q"
proof -
  obtain j where "k = q + int j" using assms by (metis zle_iff_zadd)
  then show ?thesis by (intro exI [of _ "m * 2 ^ j"]) (simp add: pow2_add pow2_nat)
qed

text \<open>A representable number is a multiple of the unit of \<open>x\<close>, or is smaller than the power of two below \<open>x\<close>.\<close>

lemma representable_unit:
  assumes "representable f c" "x \<noteq> 0"
  shows "(\<exists>n. c = of_int n * pow2 (unit_exp f x)) \<or>
    (\<exists>n. \<bar>c\<bar> < of_int n * pow2 (unit_exp f x) \<and> of_int n * pow2 (unit_exp f x) \<le> \<bar>x\<bar>)"
proof -
  obtain m k where c: "c = of_int m * pow2 k" "min_exp f \<le> k" "of_int \<bar>m\<bar> < pow2 (precision f)"
    using assms(1) by (auto simp: representable_def)
  define q where "q = unit_exp f x"
  show ?thesis
  proof (cases "q \<le> k")
    case True
    then show ?thesis using multiple_of_unit [of q k m] c(1) by (auto simp: q_def)
  next
    case False
    then have q: "q = ilog2 \<bar>x\<bar> - (precision f - 1)" using c(2) by (auto simp: q_def unit_exp_def max_def split: if_splits)
    have x: "pow2 (ilog2 \<bar>x\<bar>) \<le> \<bar>x\<bar>" using ilog2_bounds(1) [of "\<bar>x\<bar>"] assms(2) by simp
    have "\<bar>c\<bar> = of_int \<bar>m\<bar> * pow2 k" by (simp add: c(1) abs_mult abs_of_pos)
    also have "\<dots> < pow2 (precision f) * pow2 k" using c(3) by simp
    also have "\<dots> = pow2 (precision f + k)" by (simp add: pow2_add)
    also have "\<dots> \<le> pow2 (precision f - 1 + q)" using False by (intro pow2_mono) simp
    also have "\<dots> = pow2 (ilog2 \<bar>x\<bar>)" by (simp add: q)
    finally have lt: "\<bar>c\<bar> < pow2 (ilog2 \<bar>x\<bar>)" .
    show ?thesis
    proof (cases "0 \<le> precision f - 1")
      case True
      have "pow2 (ilog2 \<bar>x\<bar>) = of_int (2 ^ nat (precision f - 1)) * pow2 q"
        using True by (simp add: q pow2_add [symmetric] pow2_def [of "precision f - 1", simplified True, simplified, symmetric])
      then show ?thesis using lt x unfolding q_def by metis
    next
      case neg: False
      have "pow2 (precision f) \<le> pow2 0" using neg by (intro pow2_mono) simp
      then have "of_int \<bar>m\<bar> < (of_int 1 :: rat)" using c(3) by (simp del: of_int_abs)
      then have "m = 0" unfolding of_int_less_iff by simp
      then have "c = of_int 0 * pow2 (unit_exp f x)" using c(1) by simp
      then show ?thesis by blast
    qed
  qed
qed

lemma round_le:
  assumes "representable f c" "x \<le> c"
  shows "round_rat f x \<le> c"
proof (cases "x = 0")
  case True
  then show ?thesis using assms by (simp add: round_rat_def)
next
  case False
  define q where "q = unit_exp f x"
  have r: "round_rat f x = of_int (rne (x / pow2 q)) * pow2 q" using False by (simp add: round_rat_def q_def Let_def)
  have le: "round_rat f x \<le> of_int n * pow2 q" if "x \<le> of_int n * pow2 q" for n
  proof -
    have "x / pow2 q \<le> of_int n" using that by (simp add: divide_le_eq)
    then have "rne (x / pow2 q) \<le> n" by (rule rne_le)
    then show ?thesis unfolding r by simp
  qed
  from representable_unit [OF assms(1) False] show ?thesis
  proof (elim disjE exE conjE)
    fix n assume "c = of_int n * pow2 (unit_exp f x)"
    then show ?thesis using le [of n] assms(2) by (simp add: q_def)
  next
    fix n assume n: "\<bar>c\<bar> < of_int n * pow2 (unit_exp f x)" "of_int n * pow2 (unit_exp f x) \<le> \<bar>x\<bar>"
    then have "x \<le> of_int (- n) * pow2 q" using assms(2) by (simp add: q_def)
    from le [OF this] show ?thesis using n(1) by (simp add: q_def)
  qed
qed

lemma round_ge:
  assumes "representable f c" "c \<le> x"
  shows "c \<le> round_rat f x"
proof (cases "x = 0")
  case True
  then show ?thesis using assms by (simp add: round_rat_def)
next
  case False
  define q where "q = unit_exp f x"
  have r: "round_rat f x = of_int (rne (x / pow2 q)) * pow2 q" using False by (simp add: round_rat_def q_def Let_def)
  have ge: "of_int n * pow2 q \<le> round_rat f x" if "of_int n * pow2 q \<le> x" for n
  proof -
    have "of_int n \<le> x / pow2 q" using that by (simp add: le_divide_eq)
    then have "n \<le> rne (x / pow2 q)" by (rule rne_ge)
    then show ?thesis unfolding r by simp
  qed
  from representable_unit [OF assms(1) False] show ?thesis
  proof (elim disjE exE conjE)
    fix n assume "c = of_int n * pow2 (unit_exp f x)"
    then show ?thesis using ge [of n] assms(2) by (simp add: q_def)
  next
    fix n assume n: "\<bar>c\<bar> < of_int n * pow2 (unit_exp f x)" "of_int n * pow2 (unit_exp f x) \<le> \<bar>x\<bar>"
    then have "of_int n * pow2 q \<le> x" using assms(2) by (simp add: q_def)
    from ge [OF this] show ?thesis using n(1) by (simp add: q_def)
  qed
qed

lemma round_exact: "representable f c \<Longrightarrow> round_rat f c = c"
  using round_le [of f c c] round_ge [of f c c] by simp


text \<open>Integers below \<open>2\<^sup>p\<close>, and their quotients by small powers of two, are exact.\<close>

lemma representable_scaled:
  assumes "of_int \<bar>n\<bar> < pow2 (precision f)" "min_exp f \<le> k"
  shows "representable f (of_int n * pow2 k)"
  using assms unfolding representable_def by blast

lemma fround_exact:
  assumes "representable f x" "\<bar>x\<bar> < pow2 (max_exp f)"
  shows "fround f x = Fin x"
  using assms(2) by (simp add: fround_def Let_def round_exact [OF assms(1)], linarith)

lemma of_i_exact:
  assumes "of_int \<bar>n\<bar> < pow2 (precision f)" "min_exp f \<le> 0" "precision f \<le> max_exp f"
  shows "of_i f n = Fin (of_int n)"
proof -
  have "representable f (of_int n)" using representable_scaled [OF assms(1,2)] by simp
  moreover have "\<bar>of_int n\<bar> < pow2 (max_exp f)"
    using assms(1) pow2_mono [OF assms(3)] by simp
  ultimately show ?thesis by (simp add: of_i_def fround_exact)
qed

lemma binary32_simps [simp]: "precision binary32 = 24" "min_exp binary32 = - 149" "max_exp binary32 = 128"
  by (simp_all add: binary32_def)

lemma binary64_simps [simp]: "precision binary64 = 53" "min_exp binary64 = - 1074" "max_exp binary64 = 1024"
  by (simp_all add: binary64_def)

text \<open>A small multiple of a power of two is exact, and so is its truncation.\<close>

lemma fround_scaled:
  assumes n: "\<bar>n\<bar> < 2 ^ nat (precision f)" and k: "min_exp f \<le> k" "k \<le> 0"
    and p: "0 \<le> precision f" "precision f \<le> max_exp f"
  shows "fround f (of_int n * pow2 k) = Fin (of_int n * pow2 k)"
proof (rule fround_exact)
  have "(of_int \<bar>n\<bar> :: rat) < of_int (2 ^ nat (precision f))" using n unfolding of_int_less_iff .
  then have n': "of_int \<bar>n\<bar> < pow2 (precision f)" using p by (simp add: pow2_def)
  then show "representable f (of_int n * pow2 k)" using k by (intro representable_scaled)
  have "pow2 k \<le> 1" using pow2_mono [OF k(2)] by simp
  then have "\<bar>of_int n * pow2 k\<bar> \<le> of_int \<bar>n\<bar> * 1"
    by (simp add: abs_mult abs_of_pos mult_left_le)
  also have "\<dots> < pow2 (precision f)" using n' by simp
  also have "\<dots> \<le> pow2 (max_exp f)" by (rule pow2_mono) (rule p(2))
  finally show "\<bar>of_int n * pow2 k\<bar> < pow2 (max_exp f)" .
qed

lemma trunc_scaled: "0 < m \<Longrightarrow> 0 \<le> n \<Longrightarrow> trunc_rat (of_int n / of_int m) = n div m"
  by (simp add: trunc_rat_def floor_divide_of_int_eq)

lemma to_int64_scaled:
  assumes "0 \<le> n" "n < 2 ^ 63" "0 < m"
  shows "to_int64 undef (Fin (of_int n / of_int m)) = n div m"
proof -
  have "0 \<le> n div m" "n div m \<le> n" using assms zdiv_mono2 [of n 1 m] by (simp_all add: pos_imp_zdiv_nonneg_iff)
  then show ?thesis using assms by (simp add: to_int64_def trunc_scaled is_i64_def)
qed

lemma float64_exact: "\<bar>n\<bar> < 2 ^ 53 \<Longrightarrow> float64 n = Fin (of_int n)"
  using fround_scaled [of n binary64 0] by (simp add: of_i_def)

lemma pow2_neg: "pow2 (- int k) = 1 / 2 ^ k"
  by (cases "k = 0") (simp_all add: pow2_def)

lemma fmul64_exact:
  assumes "\<bar>a * n\<bar> < 2 ^ 53" "k \<le> 1000"
  shows "fmul binary64 (Fin (of_int n)) (Fin (of_int a / 2 ^ k)) = Fin (of_int (a * n) / 2 ^ k)"
  using fround_scaled [of "a * n" binary64 "- int k"] assms by (simp add: pow2_neg algebra_simps)

text \<open>Rounding to \<^verbatim>\<open>float64\<close> keeps bounds that are themselves representable.\<close>

lemma fround64_range:
  assumes "representable binary64 lo" "representable binary64 hi" "lo \<le> x" "x \<le> hi" "\<bar>lo\<bar> < 2 ^ 53" "\<bar>hi\<bar> < 2 ^ 53"
  obtains y where "fround binary64 x = Fin y" "lo \<le> y" "y \<le> hi"
proof -
  define y where "y = round_rat binary64 x"
  have y: "lo \<le> y" "y \<le> hi" unfolding y_def using round_ge [OF assms(1,3)] round_le [OF assms(2,4)] by simp_all
  have "2 ^ 53 \<le> pow2 1024" using pow2_mono [of 53 1024] by (simp add: pow2_def)
  then have "y < pow2 1024" "- pow2 1024 < y" using y assms(5,6) by linarith+
  then have "fround binary64 x = Fin y" by (simp add: fround_def Let_def flip: y_def)
  then show thesis using that y by blast
qed

lemma representable64_int: "\<bar>n\<bar> < 2 ^ 53 \<Longrightarrow> k \<le> 1000 \<Longrightarrow> representable binary64 (of_int n / 2 ^ k)"
proof -
  assume "\<bar>n\<bar> < 2 ^ 53" "k \<le> 1000"
  moreover from this have "(of_int \<bar>n\<bar> :: rat) < of_int (2 ^ 53)" unfolding of_int_less_iff by blast
  moreover have "pow2 53 = of_int (2 ^ 53)" by (simp add: pow2_def)
  ultimately show ?thesis using representable_scaled [of n binary64 "- int k"] by (simp add: pow2_neg)
qed

lemma fround64_below:
  assumes "0 \<le> x" "x \<le> of_int n * pow2 (int k)" "\<bar>n\<bar> < 2 ^ 53" "k \<le> 100"
  obtains y where "fround binary64 x = Fin y" "0 \<le> y" "y \<le> of_int n * pow2 (int k)"
proof -
  define y where "y = round_rat binary64 x"
  have p: "pow2 53 = (of_int (2 ^ 53) :: rat)" by (simp add: pow2_def)
  have n: "(of_int \<bar>n\<bar> :: rat) < pow2 53" using assms(3) unfolding p of_int_less_iff .
  have "representable binary64 (of_int n * pow2 (int k))" "representable binary64 (of_int 0 * pow2 0)"
    using n by (intro representable_scaled; simp)+
  then have y: "0 \<le> y" "y \<le> of_int n * pow2 (int k)"
    unfolding y_def using round_ge [of binary64 0 x] round_le [of binary64 _ x] assms(1,2) by simp_all
  have "of_int n * pow2 (int k) \<le> pow2 53 * pow2 (int k)" using n by (intro mult_right_mono) (auto simp: less_imp_le)
  also have "\<dots> = pow2 (53 + int k)" by (simp add: pow2_add)
  also have "\<dots> \<le> pow2 1000" using assms(4) by (intro pow2_mono) simp
  finally have "y \<le> pow2 1000" using y(2) by linarith
  moreover have "pow2 1000 < pow2 1024" using pow2_add [of 1000 24] by (simp add: pow2_def [of 24])
  ultimately have "y < pow2 1024" "- pow2 1024 < y" using y(1) pow2_pos [of 1024] by linarith+
  then have "fround binary64 x = Fin y" by (simp add: fround_def Let_def flip: y_def)
  then show thesis using that y by blast
qed

lemma fround64_between:
  assumes "0 \<le> x" "x \<le> of_int n" "n < 2 ^ 53"
  obtains y where "fround binary64 x = Fin y" "0 \<le> y" "y \<le> of_int n"
proof -
  have "0 \<le> (of_int n :: rat)" using assms(1,2) by linarith
  then have "0 \<le> n" by simp
  moreover have "(of_int n :: rat) < of_int (2 ^ 53)" using assms(3) unfolding of_int_less_iff .
  ultimately show thesis
    using fround64_range [of 0 "of_int n" x] representable64_int [of n 0] representable64_int [of 0 0] assms that by auto
qed

lemma to_uint64_between:
  assumes "0 \<le> y" "y \<le> of_int n" "n < 2 ^ 64"
  shows "uint (to_uint64 undef (Fin y)) \<le> n"
proof -
  have "\<lfloor>y\<rfloor> \<le> n" "0 \<le> \<lfloor>y\<rfloor>" using assms by (simp_all add: floor_le_iff)
  then show ?thesis using assms by (simp add: to_uint64_def trunc_rat_def uint_word_of_int)
qed

end
