(* ===== verification/RTTStats.thy ===== *)
theory RTTStats
  imports Protocol GoFloat
begin

text \<open>
  The round-trip statistics of \<^verbatim>\<open>internal/utils/rtt_stats.go\<close>.  The atomic fields are plain fields, and the
  smoothing is done in \<^verbatim>\<open>float32\<close> as in the code.  \<open>undef\<close> is what the platform returns for a float that does
  not fit into an \<^verbatim>\<open>int64\<close>.
\<close>

section \<open>State\<close>

definition TimerGranularity :: duration where
  [go_defs]: "TimerGranularity = Millisecond"

definition DefaultInitialRTT :: duration where
  [go_defs]: "DefaultInitialRTT = 100 * Millisecond"

definition rttAlpha :: gofloat where "rttAlpha = Fin (1 / 8)"
definition oneMinusAlpha :: gofloat where "oneMinusAlpha = Fin (7 / 8)"
definition rttBeta :: gofloat where "rttBeta = Fin (1 / 4)"
definition oneMinusBeta :: gofloat where "oneMinusBeta = Fin (3 / 4)"

record RTTStats =
  hasMeasurement :: bool
  minRTT :: duration
  latestRTT :: duration
  smoothedRTT :: duration
  meanDeviation :: duration
  maxAckDelay :: duration

definition NewRTTStats :: RTTStats where
  "NewRTTStats = \<lparr>hasMeasurement = False, minRTT = DefaultInitialRTT, latestRTT = DefaultInitialRTT,
     smoothedRTT = DefaultInitialRTT, meanDeviation = 0, maxAckDelay = 0\<rparr>"

section \<open>Operations\<close>

definition PTO :: "RTTStats \<Rightarrow> bool \<Rightarrow> duration" where
  "PTO r includeMaxAckDelay =
     (if \<not> hasMeasurement r then 2 * DefaultInitialRTT
      else let pto = i64 (smoothedRTT r + max (i64 (4 * meanDeviation r)) TimerGranularity) in
        if includeMaxAckDelay then i64 (pto + maxAckDelay r) else pto)"

text \<open>\<^verbatim>\<open>Duration.Abs\<close>: the smallest duration has no absolute value and becomes the largest one.\<close>

definition Duration_Abs :: "duration \<Rightarrow> duration" where
  "Duration_Abs d = (if 0 \<le> d then d else if d = - (2 ^ 63) then MaxInt64 else - d)"

definition ewma_dev :: "(gofloat \<Rightarrow> int) \<Rightarrow> duration \<Rightarrow> duration \<Rightarrow> duration \<Rightarrow> duration" where
  "ewma_dev undef dev smoothed sample =
     i64 (to_int64 undef (fadd binary32 (fmul binary32 oneMinusBeta (float32 (go_div dev Microsecond)))
        (fmul binary32 rttBeta (float32 (go_div (Duration_Abs (i64 (smoothed - sample))) Microsecond)))) * Microsecond)"

definition ewma_rtt :: "(gofloat \<Rightarrow> int) \<Rightarrow> duration \<Rightarrow> duration \<Rightarrow> duration" where
  "ewma_rtt undef smoothed sample =
     i64 (to_int64 undef (fadd binary32 (fmul binary32 (float32 (go_div smoothed Microsecond)) oneMinusAlpha)
        (fmul binary32 (float32 (go_div sample Microsecond)) rttAlpha)) * Microsecond)"

definition UpdateRTT :: "(gofloat \<Rightarrow> int) \<Rightarrow> RTTStats \<Rightarrow> duration \<Rightarrow> duration \<Rightarrow> RTTStats" where
  "UpdateRTT undef r sendDelta ackDelay =
     (if sendDelta \<le> 0 then r
      else
        let min_rtt = (if \<not> hasMeasurement r \<or> minRTT r > sendDelta then sendDelta else minRTT r);
            sample = (if i64 (sendDelta - min_rtt) \<ge> ackDelay then i64 (sendDelta - ackDelay) else sendDelta);
            r = r\<lparr>minRTT := min_rtt, latestRTT := sample\<rparr>
        in if \<not> hasMeasurement r
           then r\<lparr>hasMeasurement := True, smoothedRTT := sample, meanDeviation := go_div sample 2\<rparr>
           else r\<lparr>meanDeviation := ewma_dev undef (meanDeviation r) (smoothedRTT r) sample,
             smoothedRTT := ewma_rtt undef (smoothedRTT r) sample\<rparr>)"

definition SetMaxAckDelay :: "RTTStats \<Rightarrow> duration \<Rightarrow> RTTStats" where
  "SetMaxAckDelay r mad = r\<lparr>maxAckDelay := mad\<rparr>"

definition SetInitialRTT :: "RTTStats \<Rightarrow> duration \<Rightarrow> RTTStats" where
  "SetInitialRTT r t = (if hasMeasurement r then r else r\<lparr>smoothedRTT := t, latestRTT := t\<rparr>)"

definition rtt_ResetForPathMigration :: "RTTStats \<Rightarrow> RTTStats" where
  "rtt_ResetForPathMigration r = r\<lparr>hasMeasurement := False, minRTT := DefaultInitialRTT,
     latestRTT := DefaultInitialRTT, smoothedRTT := DefaultInitialRTT, meanDeviation := 0\<rparr>"

definition rtt_Clone :: "RTTStats \<Rightarrow> RTTStats" where
  "rtt_Clone r = \<lparr>hasMeasurement = hasMeasurement r, minRTT = minRTT r, latestRTT = latestRTT r,
     smoothedRTT = smoothedRTT r, meanDeviation = meanDeviation r, maxAckDelay = maxAckDelay r\<rparr>"

text \<open>
  A run of the statistics on one path, with the send deltas measured since the last reset.  The samples are
  below \<open>2\<^sup>2\<^sup>1\<close> microseconds (about two seconds), where \<^verbatim>\<open>float32\<close> is exact; runs with larger samples are not covered.
\<close>

definition rtt_limit :: duration where
  "rtt_limit = 2 ^ 21 * 1000"

inductive rtt_reach :: "(gofloat \<Rightarrow> int) \<Rightarrow> RTTStats \<Rightarrow> duration list \<Rightarrow> bool" for undef where
  rtt_new: "rtt_reach undef NewRTTStats []"
| rtt_update: "rtt_reach undef r ds \<Longrightarrow> 0 < d \<Longrightarrow> d < rtt_limit \<Longrightarrow> 0 \<le> ack \<Longrightarrow>
    rtt_reach undef (UpdateRTT undef r d ack) (ds @ [d])"
| rtt_mad: "rtt_reach undef r ds \<Longrightarrow> 0 \<le> mad \<Longrightarrow> mad < 2 ^ 62 \<Longrightarrow> rtt_reach undef (SetMaxAckDelay r mad) ds"
| rtt_initial: "rtt_reach undef r ds \<Longrightarrow> rtt_reach undef (SetInitialRTT r t) ds"
| rtt_migrate: "rtt_reach undef r ds \<Longrightarrow> rtt_reach undef (rtt_ResetForPathMigration r) []"

section \<open>Lemmas\<close>

text \<open>Sums of multiples of a power of two are exact in \<^verbatim>\<open>float32\<close>.\<close>

lemma fround32_scaled:
  assumes "\<bar>n\<bar> < 2 ^ 24" "- 149 \<le> k" "k \<le> 0"
  shows "fround binary32 (of_int n * pow2 k) = Fin (of_int n * pow2 k)"
  using assms by (intro fround_scaled) simp_all

lemma float32_exact: "\<bar>n\<bar> < 2 ^ 24 \<Longrightarrow> float32 n = Fin (of_int n)"
  using fround32_scaled [of n 0] by (simp add: of_i_def)

lemma fmul_exact:
  assumes "0 \<le> a" "0 \<le> x" "a * x < 2 ^ 24" "x < 2 ^ 24" "k \<in> {2, 3}"
  shows "fmul binary32 (Fin (of_int a / 2 ^ k)) (Fin (of_int x)) = Fin (of_int (a * x) / 2 ^ k)"
    "fmul binary32 (Fin (of_int x)) (Fin (of_int a / 2 ^ k)) = Fin (of_int (a * x) / 2 ^ k)"
  using fround32_scaled [of "a * x" "- int k"] assms by (auto simp: pow2_def algebra_simps)

lemma fadd_exact:
  assumes "0 \<le> a" "0 \<le> b" "a + b < 2 ^ 24" "k \<in> {2, 3}"
  shows "fadd binary32 (Fin (of_int a / 2 ^ k)) (Fin (of_int b / 2 ^ k)) = Fin (of_int (a + b) / 2 ^ k)"
  using fround32_scaled [of "a + b" "- int k"] assms by (auto simp: pow2_def add_divide_distrib)

lemma rtt_div_bounds:
  assumes "0 \<le> x" "x < rtt_limit"
  shows "0 \<le> x div 1000" "x div 1000 < 2 ^ 21"
  using assms by (simp_all add: rtt_limit_def)

lemma ewma_rtt_exact:
  assumes "0 \<le> s" "s < rtt_limit" "0 \<le> x" "x < rtt_limit"
  shows "ewma_rtt undef s x = (7 * (s div 1000) + x div 1000) div 8 * 1000"
proof -
  define a b where "a = s div 1000" and "b = x div 1000"
  have a: "0 \<le> a" "a < 2 ^ 21" and b: "0 \<le> b" "b < 2 ^ 21"
    using rtt_div_bounds [OF assms(1,2)] rtt_div_bounds [OF assms(3,4)] by (simp_all add: a_def b_def)
  have m: "fmul binary32 (float32 a) oneMinusAlpha = Fin (of_int (7 * a) / 2 ^ 3)"
    using fmul_exact(2) [of 7 a 3] a by (simp add: oneMinusAlpha_def float32_exact)
  have n: "fmul binary32 (float32 b) rttAlpha = Fin (of_int b / 2 ^ 3)"
    using fmul_exact(2) [of 1 b 3] b by (simp add: rttAlpha_def float32_exact)
  have "to_int64 undef (fadd binary32 (fmul binary32 (float32 a) oneMinusAlpha) (fmul binary32 (float32 b) rttAlpha))
      = (7 * a + b) div 8"
    using fadd_exact [of "7 * a" b 3] to_int64_scaled [of "7 * a + b" 8 undef] a b unfolding m n by simp
  moreover have "0 \<le> (7 * a + b) div 8" "(7 * a + b) div 8 < 2 ^ 21" using a b by simp_all
  ultimately show ?thesis
    using assms by (simp add: ewma_rtt_def go_div_nonneg Microsecond_def a_def b_def i64_id is_i64_def)
qed

lemma ewma_dev_exact:
  assumes "0 \<le> d" "d < rtt_limit" "0 \<le> s" "s < rtt_limit" "0 \<le> x" "x < rtt_limit"
  shows "ewma_dev undef d s x = (3 * (d div 1000) + \<bar>s - x\<bar> div 1000) div 4 * 1000"
proof -
  obtain y where y: "\<bar>s - x\<bar> = y" "0 \<le> y" "y < rtt_limit" using assms by (intro that [OF refl]) simp_all
  define a b where "a = d div 1000" and "b = y div 1000"
  have a: "0 \<le> a" "a < 2 ^ 21" and b: "0 \<le> b" "b < 2 ^ 21"
    using rtt_div_bounds [OF assms(1,2)] rtt_div_bounds [OF y(2,3)] by (simp_all add: a_def b_def)
  have m: "fmul binary32 oneMinusBeta (float32 a) = Fin (of_int (3 * a) / 2 ^ 2)"
    using fmul_exact(1) [of 3 a 2] a by (simp add: oneMinusBeta_def float32_exact)
  have n: "fmul binary32 rttBeta (float32 b) = Fin (of_int b / 2 ^ 2)"
    using fmul_exact(1) [of 1 b 2] b by (simp add: rttBeta_def float32_exact)
  have t: "to_int64 undef (fadd binary32 (fmul binary32 oneMinusBeta (float32 a)) (fmul binary32 rttBeta (float32 b)))
      = (3 * a + b) div 4"
    using fadd_exact [of "3 * a" b 2] to_int64_scaled [of "3 * a + b" 4 undef] a b unfolding m n by simp
  have "0 \<le> (3 * a + b) div 4" "(3 * a + b) div 4 < 2 ^ 21" using a b by simp_all
  then have i: "i64 ((3 * a + b) div 4 * 1000) = (3 * a + b) div 4 * 1000" by (simp add: i64_id is_i64_def)
  have "Duration_Abs (i64 (s - x)) = y"
    using assms unfolding y(1) [symmetric] by (simp add: Duration_Abs_def i64_id is_i64_def rtt_limit_def)
  then show ?thesis
    using t i go_div_nonneg [OF assms(1), of 1000] go_div_nonneg [OF y(2), of 1000]
    by (simp add: ewma_dev_def Microsecond_def y(1) flip: a_def b_def)
qed

text \<open>The invariant of a run: every estimate lies between the smallest and the largest sample.\<close>

definition rtt_inv :: "RTTStats \<Rightarrow> duration list \<Rightarrow> bool" where
  "rtt_inv r ds \<longleftrightarrow>
     (hasMeasurement r \<longleftrightarrow> ds \<noteq> []) \<and> list_all (\<lambda>d. 0 < d \<and> d < rtt_limit) ds \<and>
     0 \<le> maxAckDelay r \<and> maxAckDelay r < 2 ^ 62 \<and>
     (ds \<noteq> [] \<longrightarrow> minRTT r = Min (set ds) \<and> minRTT r \<le> latestRTT r \<and> latestRTT r \<le> last ds \<and>
        minRTT r div 1000 * 1000 \<le> smoothedRTT r \<and> smoothedRTT r \<le> Max (set ds) \<and>
        0 \<le> meanDeviation r \<and> meanDeviation r \<le> Max (set ds))"

lemma ewma_rtt_between:
  assumes "m div 1000 * 1000 \<le> s" "m \<le> x" "s \<le> M" "x \<le> (M::int)"
  shows "m div 1000 * 1000 \<le> (7 * (s div 1000) + x div 1000) div 8 * 1000"
    "(7 * (s div 1000) + x div 1000) div 8 * 1000 \<le> M"
proof -
  define a b p q where "a = s div 1000" "b = x div 1000" "p = m div 1000" "q = M div 1000"
  note d = a_b_p_q_def
  have "p \<le> a" using zdiv_mono1 [OF assms(1), of 1000] by (simp add: d)
  moreover have "p \<le> b" "a \<le> q" "b \<le> q" using assms by (simp_all add: d zdiv_mono1)
  ultimately have "p \<le> (7 * a + b) div 8" "(7 * a + b) div 8 \<le> q" by linarith+
  moreover have "q * 1000 \<le> M" by (simp add: d)
  ultimately have "p * 1000 \<le> (7 * a + b) div 8 * 1000" "(7 * a + b) div 8 * 1000 \<le> M" by linarith+
  then show "m div 1000 * 1000 \<le> (7 * (s div 1000) + x div 1000) div 8 * 1000"
    "(7 * (s div 1000) + x div 1000) div 8 * 1000 \<le> M" by (simp_all only: d)
qed

lemma ewma_dev_between:
  assumes "0 \<le> (d::int)" "d \<le> M" "0 \<le> s" "s \<le> M" "0 \<le> x" "x \<le> M"
  shows "0 \<le> (3 * (d div 1000) + \<bar>s - x\<bar> div 1000) div 4 * 1000"
    "(3 * (d div 1000) + \<bar>s - x\<bar> div 1000) div 4 * 1000 \<le> M"
proof -
  obtain y where y: "\<bar>s - x\<bar> = y" "0 \<le> y" "y \<le> M" using assms by (intro that [OF refl]) simp_all
  define a b q where "a = d div 1000" "b = y div 1000" "q = M div 1000"
  note d = a_b_q_def
  have "0 \<le> a" "0 \<le> b" "a \<le> q" "b \<le> q" using assms y by (simp_all add: d zdiv_mono1)
  then have "0 \<le> (3 * a + b) div 4" "(3 * a + b) div 4 \<le> q" by linarith+
  moreover have "q * 1000 \<le> M" by (simp add: d)
  ultimately have "0 \<le> (3 * a + b) div 4 * 1000" "(3 * a + b) div 4 * 1000 \<le> M" by linarith+
  then show "0 \<le> (3 * (d div 1000) + \<bar>s - x\<bar> div 1000) div 4 * 1000"
    "(3 * (d div 1000) + \<bar>s - x\<bar> div 1000) div 4 * 1000 \<le> M" by (simp_all only: d y(1))
qed

lemma rtt_inv_Min: "rtt_inv r ds \<Longrightarrow> ds \<noteq> [] \<Longrightarrow> 0 < Min (set ds) \<and> Max (set ds) < rtt_limit"
  by (auto simp: rtt_inv_def list_all_iff)

lemma rtt_invD:
  assumes "rtt_inv r ds" "ds \<noteq> []"
  shows "hasMeasurement r" "minRTT r = Min (set ds)" "Min (set ds) div 1000 * 1000 \<le> smoothedRTT r"
    "smoothedRTT r \<le> Max (set ds)" "0 \<le> meanDeviation r" "meanDeviation r \<le> Max (set ds)" "0 \<le> smoothedRTT r"
proof -
  show m: "hasMeasurement r" "minRTT r = Min (set ds)" "smoothedRTT r \<le> Max (set ds)"
    "0 \<le> meanDeviation r" "meanDeviation r \<le> Max (set ds)" using assms by (simp_all add: rtt_inv_def)
  have "minRTT r div 1000 * 1000 \<le> smoothedRTT r" using assms unfolding rtt_inv_def by blast
  then show s: "Min (set ds) div 1000 * 1000 \<le> smoothedRTT r" by (simp only: m(2))
  have "0 \<le> Min (set ds) div 1000" using rtt_inv_Min [OF assms] by linarith
  then show "0 \<le> smoothedRTT r" using s by linarith
qed

lemma update_sample:
  assumes inv: "rtt_inv r ds" and d: "0 < d" "d < rtt_limit" and ack: "0 \<le> ack"
  obtains x where "Min (set (ds @ [d])) \<le> x" "x \<le> d"
    "UpdateRTT undef r d ack = (let r = r\<lparr>minRTT := Min (set (ds @ [d])), latestRTT := x\<rparr> in
       if ds = [] then r\<lparr>hasMeasurement := True, smoothedRTT := x, meanDeviation := x div 2\<rparr>
       else r\<lparr>meanDeviation := ewma_dev undef (meanDeviation r) (smoothedRTT r) x,
         smoothedRTT := ewma_rtt undef (smoothedRTT r) x\<rparr>)"
proof -
  define m where "m = Min (set (ds @ [d]))"
  have h: "hasMeasurement r \<longleftrightarrow> ds \<noteq> []" using inv by (simp add: rtt_inv_def)
  have mm: "(if \<not> hasMeasurement r \<or> minRTT r > d then d else minRTT r) = m"
  proof (cases "ds = []")
    case False
    then have "m = min d (minRTT r)" by (simp add: m_def rtt_invD(2) [OF inv])
    then show ?thesis using h False by (simp add: min_def)
  qed (simp add: m_def h)
  have m: "0 < m" "m \<le> d" using rtt_inv_Min [OF inv] d by (cases "ds = []"; auto simp: m_def)+
  define x where "x = (if d - m \<ge> ack then d - ack else d)"
  have i: "i64 (d - m) = d - m" using m d by (intro i64_id) (simp add: is_i64_def rtt_limit_def)
  have j: "i64 (d - ack) = d - ack" if "d - m \<ge> ack"
    using m d ack that by (intro i64_id) (simp add: is_i64_def rtt_limit_def)
  have xx: "(if i64 (d - m) \<ge> ack then i64 (d - ack) else d) = x" by (auto simp: i j x_def)
  have x: "m \<le> x" "x \<le> d" using m ack by (auto simp: x_def)
  then have "go_div x 2 = x div 2" using m by (simp add: go_div_nonneg)
  then have "UpdateRTT undef r d ack = (let r = r\<lparr>minRTT := m, latestRTT := x\<rparr> in
       if ds = [] then r\<lparr>hasMeasurement := True, smoothedRTT := x, meanDeviation := x div 2\<rparr>
       else r\<lparr>meanDeviation := ewma_dev undef (meanDeviation r) (smoothedRTT r) x,
         smoothedRTT := ewma_rtt undef (smoothedRTT r) x\<rparr>)"
    using d(1) unfolding UpdateRTT_def mm by (simp add: Let_def xx h)
  then show ?thesis using that x unfolding m_def by blast
qed

lemma rtt_inv_update:
  assumes inv: "rtt_inv r ds" and d: "0 < d" "d < rtt_limit" and ack: "0 \<le> ack"
  shows "rtt_inv (UpdateRTT undef r d ack) (ds @ [d])"
proof -
  obtain x where x: "Min (set (ds @ [d])) \<le> x" "x \<le> d"
    and u: "UpdateRTT undef r d ack = (let r = r\<lparr>minRTT := Min (set (ds @ [d])), latestRTT := x\<rparr> in
       if ds = [] then r\<lparr>hasMeasurement := True, smoothedRTT := x, meanDeviation := x div 2\<rparr>
       else r\<lparr>meanDeviation := ewma_dev undef (meanDeviation r) (smoothedRTT r) x,
         smoothedRTT := ewma_rtt undef (smoothedRTT r) x\<rparr>)"
    by (rule update_sample [OF assms])
  show ?thesis
  proof (cases "ds = []")
    case True
    have "d div 1000 * 1000 \<le> d" by simp
    then show ?thesis using x d inv True unfolding u by (simp add: rtt_inv_def)
  next
    case False
    define m M M' where "m = Min (set (ds @ [d]))" "M = Max (set (ds @ [d]))" "M' = Max (set ds)"
    note defs = m_M_M'_def
    have mM: "M' \<le> M" "d \<le> M" "m \<le> Min (set ds)" "M < rtt_limit" "M' < rtt_limit" "0 < m"
      using False rtt_inv_Min [OF inv False] d by (simp_all add: defs)
    have r: "Min (set ds) div 1000 * 1000 \<le> smoothedRTT r" "smoothedRTT r \<le> M'" "0 \<le> meanDeviation r" "meanDeviation r \<le> M'"
      using rtt_invD [OF inv False] by (simp_all only: defs)
    have s: "m div 1000 * 1000 \<le> smoothedRTT r"
      using r(1) zdiv_mono1 [OF mM(3), of 1000] by linarith
    have s0: "0 \<le> smoothedRTT r" by (rule rtt_invD(7) [OF inv False])
    have x0: "0 \<le> x" "x < rtt_limit" "m \<le> x" using x d mM unfolding defs by linarith+
    have e: "ewma_rtt undef (smoothedRTT r) x = (7 * (smoothedRTT r div 1000) + x div 1000) div 8 * 1000"
      "ewma_dev undef (meanDeviation r) (smoothedRTT r) x
        = (3 * (meanDeviation r div 1000) + \<bar>smoothedRTT r - x\<bar> div 1000) div 4 * 1000"
      using s0 r mM x0 by (intro ewma_rtt_exact ewma_dev_exact; linarith)+
    have "m div 1000 * 1000 \<le> ewma_rtt undef (smoothedRTT r) x" "ewma_rtt undef (smoothedRTT r) x \<le> M"
      unfolding e using ewma_rtt_between [of m "smoothedRTT r" x M] s r x0 x mM by linarith+
    moreover have "0 \<le> ewma_dev undef (meanDeviation r) (smoothedRTT r) x"
      "ewma_dev undef (meanDeviation r) (smoothedRTT r) x \<le> M"
      unfolding e using ewma_dev_between [of "meanDeviation r" M "smoothedRTT r" x] s0 r x0 x mM by linarith+
    ultimately show ?thesis
      using x d inv False unfolding u rtt_inv_def defs by simp
  qed
qed

lemma rtt_reach_inv: "rtt_reach undef r ds \<Longrightarrow> rtt_inv r ds"
proof (induction rule: rtt_reach.induct)
  case rtt_new
  then show ?case by (simp add: rtt_inv_def NewRTTStats_def)
next
  case (rtt_update r ds d ack)
  then show ?case by (intro rtt_inv_update)
next
  case (rtt_mad r ds mad)
  then show ?case unfolding rtt_inv_def SetMaxAckDelay_def by auto
next
  case (rtt_initial r ds t)
  then show ?case by (auto simp: rtt_inv_def SetInitialRTT_def)
next
  case (rtt_migrate r ds)
  then show ?case by (simp add: rtt_inv_def rtt_ResetForPathMigration_def)
qed

section \<open>Properties\<close>

text \<open>
  Property C14.  On every run with send deltas below \<open>2\<^sup>2\<^sup>1\<close> microseconds (about two seconds), the minimum RTT is the smallest send delta of the path, the latest sample lies
  between the minimum and the last send delta, and the smoothed RTT, computed in \<^verbatim>\<open>float32\<close>, stays between the
  minimum truncated to whole microseconds (it can lie below the minimum itself by less than a microsecond) and the largest
  send delta.  The probe timeout is at least the smoothed
  RTT plus one millisecond, and at most five times the largest send delta plus one millisecond and the ACK delay.
\<close>

theorem rtt_estimates_bounded:
  assumes "rtt_reach undef r ds" "ds \<noteq> []"
  shows "minRTT r = Min (set ds) \<and> minRTT r \<le> latestRTT r \<and> latestRTT r \<le> last ds \<and>
    minRTT r div 1000 * 1000 \<le> smoothedRTT r \<and> smoothedRTT r \<le> Max (set ds) \<and>
    smoothedRTT r + Millisecond \<le> PTO r b \<and> PTO r b \<le> 5 * Max (set ds) + Millisecond + maxAckDelay r"
proof -
  have inv: "rtt_inv r ds" by (rule rtt_reach_inv [OF assms(1)])
  define M where "M = Max (set ds)"
  have M: "M < rtt_limit" "0 \<le> meanDeviation r" "meanDeviation r \<le> M" "smoothedRTT r \<le> M" "0 \<le> smoothedRTT r"
    using rtt_inv_Min [OF inv assms(2)] rtt_invD [OF inv assms(2)] by (simp_all add: M_def)
  have "hasMeasurement r" "0 \<le> maxAckDelay r" "maxAckDelay r < 2 ^ 62"
    using inv assms(2) by (simp_all add: rtt_inv_def)
  moreover from this have "PTO r b = smoothedRTT r + max (4 * meanDeviation r) Millisecond + (if b then maxAckDelay r else 0)"
    using M by (simp add: PTO_def Let_def i64_id is_i64_def go_defs rtt_limit_def max_def)
  ultimately have "smoothedRTT r + Millisecond \<le> PTO r b" "PTO r b \<le> 5 * M + Millisecond + maxAckDelay r"
    using M by (auto simp: max_def Millisecond_def)
  then show ?thesis using inv assms(2) unfolding rtt_inv_def M_def by blast
qed

definition rtt_example :: RTTStats where
  "rtt_example = foldl (\<lambda>r (d, a). UpdateRTT (\<lambda>_. 0) r d a) NewRTTStats
     [(20000000, 0), (30000000, 5000000), (10000000, 1000000)]"

lemma rtt_example_reach: "rtt_reach (\<lambda>_. 0) rtt_example [20000000, 30000000, 10000000]"
proof -
  have "rtt_reach (\<lambda>_. 0) (UpdateRTT (\<lambda>_. 0) (UpdateRTT (\<lambda>_. 0) (UpdateRTT (\<lambda>_. 0) NewRTTStats 20000000 0)
      30000000 5000000) 10000000 1000000) ((([] @ [20000000]) @ [30000000]) @ [10000000])"
    by (intro rtt_update rtt_new) (simp_all add: rtt_limit_def)
  then show ?thesis by (simp add: rtt_example_def)
qed

theorem rtt_estimates_bounded_witness:
  "minRTT rtt_example = 10000000 \<and> smoothedRTT rtt_example \<le> 30000000 \<and> PTO rtt_example True \<le> 151000000 + maxAckDelay rtt_example"
  using rtt_estimates_bounded [OF rtt_example_reach, of True] by (simp add: Millisecond_def)

text \<open>
  Property C32.  With a smoothed RTT, a mean deviation and a sample below two seconds, the \<^verbatim>\<open>float32\<close> smoothing is
  exact: the new smoothed RTT is 7/8 of the old one plus 1/8 of the sample and the new deviation 3/4 of the old one
  plus 1/4 of the distance, both truncated to microseconds.
\<close>

theorem rtt_smoothing_exact:
  assumes "hasMeasurement r" "minRTT r \<le> d" "0 < d" "d < rtt_limit" "0 \<le> minRTT r"
    and "0 \<le> smoothedRTT r" "smoothedRTT r < rtt_limit" "0 \<le> meanDeviation r" "meanDeviation r < rtt_limit"
  shows "UpdateRTT undef r d 0 = r\<lparr>latestRTT := d,
    smoothedRTT := (7 * (smoothedRTT r div 1000) + d div 1000) div 8 * 1000,
    meanDeviation := (3 * (meanDeviation r div 1000) + \<bar>smoothedRTT r - d\<bar> div 1000) div 4 * 1000\<rparr>"
proof -
  have "i64 (d - minRTT r) = d - minRTT r" "i64 d = d"
    using assms(2-5) by (intro i64_id; simp add: is_i64_def rtt_limit_def)+
  then have "UpdateRTT undef r d 0 = r\<lparr>latestRTT := d, smoothedRTT := ewma_rtt undef (smoothedRTT r) d,
      meanDeviation := ewma_dev undef (meanDeviation r) (smoothedRTT r) d\<rparr>"
    using assms(1-5) by (simp add: UpdateRTT_def Let_def)
  moreover have "ewma_rtt undef (smoothedRTT r) d = (7 * (smoothedRTT r div 1000) + d div 1000) div 8 * 1000"
    "ewma_dev undef (meanDeviation r) (smoothedRTT r) d
      = (3 * (meanDeviation r div 1000) + \<bar>smoothedRTT r - d\<bar> div 1000) div 4 * 1000"
    using assms by (intro ewma_rtt_exact ewma_dev_exact; linarith)+
  ultimately show ?thesis by simp
qed

theorem rtt_smoothing_exact_witness:
  "smoothedRTT (UpdateRTT (\<lambda>_. 0) (NewRTTStats\<lparr>hasMeasurement := True\<rparr>) 108000000 0) = 101000000"
  using rtt_smoothing_exact [of "NewRTTStats\<lparr>hasMeasurement := True\<rparr>" 108000000 "\<lambda>_. 0"]
  by (simp add: NewRTTStats_def go_defs rtt_limit_def)

end
