(* ===== verification/FlowControl.thy ===== *)
theory FlowControl
  imports RTTStats
begin

text \<open>
  The flow controllers of \<^verbatim>\<open>internal/flowcontrol\<close>: the base controller, the controller of a stream, and the
  controller of the connection.  A stream controller holds a pointer to the connection's controller, so its
  operations take and return both.  Mutexes and logging are left out, and the RTT statistics and the clock are
  arguments.  Byte counts are integers without wrap-around: offsets are below \<open>2\<^sup>6\<^sup>2\<close>.

  \<open>allowWindowIncrease\<close> is a callback of the application; \<open>None\<close> is the nil function, and calling it panics.
  The error values are the transport error codes; the message texts are left out.
\<close>

section \<open>Transport errors\<close>

type_synonym TransportErrorCode = u64

definition NoError :: TransportErrorCode where [go_defs]: "NoError = 0x0"
definition InternalError :: TransportErrorCode where [go_defs]: "InternalError = 0x1"
definition FlowControlError :: TransportErrorCode where [go_defs]: "FlowControlError = 0x3"
definition StreamLimitError :: TransportErrorCode where [go_defs]: "StreamLimitError = 0x4"
definition StreamStateError :: TransportErrorCode where [go_defs]: "StreamStateError = 0x5"
definition FinalSizeError :: TransportErrorCode where [go_defs]: "FinalSizeError = 0x6"
definition ProtocolViolation :: TransportErrorCode where [go_defs]: "ProtocolViolation = 0xa"

section \<open>Base controller\<close>

record baseFlowController =
  bytesSent :: byte_count
  sendWindow :: byte_count
  lastBlockedAt :: byte_count
  bytesRead :: byte_count
  highestReceived :: byte_count
  receiveWindow :: byte_count
  receiveWindowSize :: byte_count
  maxReceiveWindowSize :: byte_count
  allowWindowIncrease :: "(byte_count \<Rightarrow> bool) option"
  epochStartTime :: mtime
  epochStartOffset :: byte_count

definition base_SendWindowSize :: "baseFlowController \<Rightarrow> byte_count" where
  "base_SendWindowSize c = (if bytesSent c > sendWindow c then 0 else sendWindow c - bytesSent c)"

definition base_IsNewlyBlocked :: "baseFlowController \<Rightarrow> (bool \<times> byte_count) \<times> baseFlowController" where
  "base_IsNewlyBlocked c =
     (if base_SendWindowSize c \<noteq> 0 \<or> sendWindow c = lastBlockedAt c then ((False, 0), c)
      else ((True, sendWindow c), c\<lparr>lastBlockedAt := sendWindow c\<rparr>))"

definition base_AddBytesSent :: "baseFlowController \<Rightarrow> byte_count \<Rightarrow> baseFlowController" where
  "base_AddBytesSent c n = c\<lparr>bytesSent := bytesSent c + n\<rparr>"

definition UpdateSendWindow :: "baseFlowController \<Rightarrow> byte_count \<Rightarrow> bool \<times> baseFlowController" where
  "UpdateSendWindow c offset =
     (if offset > sendWindow c then (True, c\<lparr>sendWindow := offset\<rparr>) else (False, c))"

definition base_addBytesRead :: "baseFlowController \<Rightarrow> byte_count \<Rightarrow> baseFlowController" where
  "base_addBytesRead c n = c\<lparr>bytesRead := bytesRead c + n\<rparr>"

text \<open>\<^verbatim>\<open>1-protocol.WindowUpdateThreshold\<close> is a constant expression.\<close>

definition WindowUpdateThreshold :: rat where
  "WindowUpdateThreshold = 1 / 4"

definition ConnectionFlowControlMultiplier :: rat where
  "ConnectionFlowControlMultiplier = 3 / 2"

definition hasWindowUpdate :: "(gofloat \<Rightarrow> int) \<Rightarrow> baseFlowController \<Rightarrow> bool" where
  "hasWindowUpdate undef c \<longleftrightarrow>
     receiveWindow c - bytesRead c
       \<le> to_int64 undef (fmul binary64 (float64 (receiveWindowSize c)) (Fin (1 - WindowUpdateThreshold)))"

definition startNewAutoTuningEpoch :: "baseFlowController \<Rightarrow> mtime \<Rightarrow> baseFlowController" where
  "startNewAutoTuningEpoch c now = c\<lparr>epochStartTime := now, epochStartOffset := bytesRead c\<rparr>"

definition maybeAdjustWindowSize :: "(gofloat \<Rightarrow> int) \<Rightarrow> RTTStats \<Rightarrow> baseFlowController \<Rightarrow> mtime \<Rightarrow> baseFlowController" where
  "maybeAdjustWindowSize undef rttStats c now =
     (let bytesReadInEpoch = bytesRead c - epochStartOffset c; rtt = smoothedRTT rttStats in
      if bytesReadInEpoch \<le> go_div (receiveWindowSize c) 2 then c
      else if rtt = 0 then c
      else
        let fraction = fdiv binary64 (float64 bytesReadInEpoch) (float64 (receiveWindowSize c));
            newSize = min (i64 (2 * receiveWindowSize c)) (maxReceiveWindowSize c);
            allowed = (\<lambda>d. case allowWindowIncrease c of None \<Rightarrow> True | Some f \<Rightarrow> f d);
            c = (if monotime_Sub now (epochStartTime c)
                    < to_int64 undef (fmul binary64 (fmul binary64 (Fin 4) fraction) (float64 rtt))
                  \<and> newSize > receiveWindowSize c \<and> allowed (newSize - receiveWindowSize c)
                 then c\<lparr>receiveWindowSize := newSize\<rparr> else c)
        in startNewAutoTuningEpoch c now)"

definition base_getWindowUpdate ::
  "(gofloat \<Rightarrow> int) \<Rightarrow> RTTStats \<Rightarrow> baseFlowController \<Rightarrow> mtime \<Rightarrow> byte_count \<times> baseFlowController" where
  "base_getWindowUpdate undef rttStats c now =
     (if \<not> hasWindowUpdate undef c then (0, c)
      else
        let c = maybeAdjustWindowSize undef rttStats c now;
            c = c\<lparr>receiveWindow := bytesRead c + receiveWindowSize c\<rparr>
        in (receiveWindow c, c))"

definition checkFlowControlViolation :: "baseFlowController \<Rightarrow> bool" where
  "checkFlowControlViolation c \<longleftrightarrow> highestReceived c > receiveWindow c"

section \<open>Connection controller\<close>

type_synonym connectionFlowController = baseFlowController

definition NewConnectionFlowController ::
  "byte_count \<Rightarrow> byte_count \<Rightarrow> (byte_count \<Rightarrow> bool) option \<Rightarrow> connectionFlowController" where
  "NewConnectionFlowController window maxReceiveWindow allow =
     \<lparr>bytesSent = 0, sendWindow = 0, lastBlockedAt = 0, bytesRead = 0, highestReceived = 0,
      receiveWindow = window, receiveWindowSize = window, maxReceiveWindowSize = maxReceiveWindow,
      allowWindowIncrease = allow, epochStartTime = 0, epochStartOffset = 0\<rparr>"

definition IncrementHighestReceived ::
  "connectionFlowController \<Rightarrow> byte_count \<Rightarrow> mtime \<Rightarrow> TransportErrorCode option \<times> connectionFlowController" where
  "IncrementHighestReceived c increment now =
     (let c = (if highestReceived c = 0 then startNewAutoTuningEpoch c now else c);
          c = c\<lparr>highestReceived := highestReceived c + increment\<rparr>
      in (if checkFlowControlViolation c then Some FlowControlError else None, c))"

definition conn_AddBytesRead ::
  "(gofloat \<Rightarrow> int) \<Rightarrow> connectionFlowController \<Rightarrow> byte_count \<Rightarrow> bool \<times> connectionFlowController" where
  "conn_AddBytesRead undef c n = (let c = base_addBytesRead c n in (hasWindowUpdate undef c, c))"

definition conn_GetWindowUpdate ::
  "(gofloat \<Rightarrow> int) \<Rightarrow> RTTStats \<Rightarrow> connectionFlowController \<Rightarrow> mtime \<Rightarrow> byte_count \<times> connectionFlowController" where
  "conn_GetWindowUpdate undef rttStats c now = base_getWindowUpdate undef rttStats c now"

definition EnsureMinimumWindowSize ::
  "connectionFlowController \<Rightarrow> byte_count \<Rightarrow> mtime \<Rightarrow> connectionFlowController go" where
  "EnsureMinimumWindowSize c inc now =
     (if inc \<le> receiveWindowSize c then Inr c
      else
        let newSize = min inc (maxReceiveWindowSize c); delta = newSize - receiveWindowSize c in
        if delta > 0 then
          (case allowWindowIncrease c of
             None \<Rightarrow> Inl ''nil function''
           | Some f \<Rightarrow> Inr (startNewAutoTuningEpoch (if f delta then c\<lparr>receiveWindowSize := newSize\<rparr> else c) now))
        else Inr (startNewAutoTuningEpoch c now))"

datatype flow_error = ResetAfterReading

definition conn_Reset :: "connectionFlowController \<Rightarrow> flow_error + connectionFlowController" where
  "conn_Reset c =
     (if bytesRead c > 0 \<or> highestReceived c > 0 \<or> \<not> monotime_IsZero (epochStartTime c) then Inl ResetAfterReading
      else Inr (c\<lparr>bytesSent := 0, lastBlockedAt := 0, sendWindow := 0\<rparr>))"

section \<open>Stream controller\<close>

record streamFlowController =
  base :: baseFlowController
  streamID :: stream_id
  receivedFinalOffset :: bool

definition NewStreamFlowController ::
  "stream_id \<Rightarrow> byte_count \<Rightarrow> byte_count \<Rightarrow> byte_count \<Rightarrow> streamFlowController" where
  "NewStreamFlowController sid window maxReceiveWindow initialSendWindow =
     \<lparr>base = \<lparr>bytesSent = 0, sendWindow = initialSendWindow, lastBlockedAt = 0, bytesRead = 0, highestReceived = 0,
        receiveWindow = window, receiveWindowSize = window, maxReceiveWindowSize = maxReceiveWindow,
        allowWindowIncrease = None, epochStartTime = 0, epochStartOffset = 0\<rparr>,
      streamID = sid, receivedFinalOffset = False\<rparr>"

definition UpdateHighestReceived ::
  "streamFlowController \<Rightarrow> connectionFlowController \<Rightarrow> byte_count \<Rightarrow> bool \<Rightarrow> mtime \<Rightarrow>
     TransportErrorCode option \<times> streamFlowController \<times> connectionFlowController" where
  "UpdateHighestReceived s c offset final now =
     (let high = highestReceived (base s) in
      if receivedFinalOffset s \<and> final \<and> offset \<noteq> high then (Some FinalSizeError, s, c)
      else if receivedFinalOffset s \<and> offset > high then (Some FinalSizeError, s, c)
      else
        let s = (if final then s\<lparr>receivedFinalOffset := True\<rparr> else s) in
        if offset = high then (None, s, c)
        else if offset < high then (if final then Some FinalSizeError else None, s, c)
        else
          let b = (if high = 0 then startNewAutoTuningEpoch (base s) now else base s);
              increment = offset - high;
              b = b\<lparr>highestReceived := offset\<rparr>;
              s = s\<lparr>base := b\<rparr>
          in if checkFlowControlViolation b then (Some FlowControlError, s, c)
             else case IncrementHighestReceived c increment now of (e, c) \<Rightarrow> (e, s, c))"

definition shouldQueueWindowUpdate :: "(gofloat \<Rightarrow> int) \<Rightarrow> streamFlowController \<Rightarrow> bool" where
  "shouldQueueWindowUpdate undef s \<longleftrightarrow> \<not> receivedFinalOffset s \<and> hasWindowUpdate undef (base s)"

definition stream_AddBytesRead ::
  "(gofloat \<Rightarrow> int) \<Rightarrow> streamFlowController \<Rightarrow> connectionFlowController \<Rightarrow> byte_count \<Rightarrow>
     (bool \<times> bool) \<times> streamFlowController \<times> connectionFlowController" where
  "stream_AddBytesRead undef s c n =
     (let s = s\<lparr>base := base_addBytesRead (base s) n\<rparr>;
          hasStreamWindowUpdate = shouldQueueWindowUpdate undef s
      in case conn_AddBytesRead undef c n of (hasConnWindowUpdate, c) \<Rightarrow>
           ((hasStreamWindowUpdate, hasConnWindowUpdate), s, c))"

definition Abandon ::
  "(gofloat \<Rightarrow> int) \<Rightarrow> streamFlowController \<Rightarrow> connectionFlowController \<Rightarrow>
     streamFlowController \<times> connectionFlowController" where
  "Abandon undef s c =
     (let unread = highestReceived (base s) - bytesRead (base s);
          s = s\<lparr>base := (base s)\<lparr>bytesRead := highestReceived (base s)\<rparr>\<rparr>
      in (s, if unread > 0 then snd (conn_AddBytesRead undef c unread) else c))"

definition stream_AddBytesSent ::
  "streamFlowController \<times> connectionFlowController \<Rightarrow> byte_count \<Rightarrow> streamFlowController \<times> connectionFlowController" where
  "stream_AddBytesSent sc n = (case sc of (s, c) \<Rightarrow> (s\<lparr>base := base_AddBytesSent (base s) n\<rparr>, base_AddBytesSent c n))"

definition stream_SendWindowSize :: "streamFlowController \<times> connectionFlowController \<Rightarrow> byte_count" where
  "stream_SendWindowSize sc = (case sc of (s, c) \<Rightarrow> min (base_SendWindowSize (base s)) (base_SendWindowSize c))"

definition stream_IsNewlyBlocked :: "streamFlowController \<Rightarrow> bool \<times> streamFlowController" where
  "stream_IsNewlyBlocked s =
     (case base_IsNewlyBlocked (base s) of ((blocked, _), b) \<Rightarrow> (blocked, s\<lparr>base := b\<rparr>))"

definition stream_GetWindowUpdate ::
  "(gofloat \<Rightarrow> int) \<Rightarrow> RTTStats \<Rightarrow> streamFlowController \<Rightarrow> connectionFlowController \<Rightarrow> mtime \<Rightarrow>
     (byte_count \<times> streamFlowController \<times> connectionFlowController) go" where
  "stream_GetWindowUpdate undef rttStats s c now =
     (if receivedFinalOffset s then Inr (0, s, c)
      else case base_getWindowUpdate undef rttStats (base s) now of (offset, b) \<Rightarrow>
        let s' = s\<lparr>base := b\<rparr> in
        if receiveWindowSize b > receiveWindowSize (base s)
        then go_bind (EnsureMinimumWindowSize c
            (to_int64 undef (fmul binary64 (float64 (receiveWindowSize b)) (Fin ConnectionFlowControlMultiplier))) now)
          (\<lambda>c. Inr (offset, s', c))
        else Inr (offset, s', c))"

section \<open>Sending credit\<close>

text \<open>
  The contract of a controller towards the sender: the window is never negative, and sending within it uses up
  exactly that much of it.
\<close>

locale send_credit =
  fixes size_of :: "'s \<Rightarrow> byte_count"
    and spend :: "'s \<Rightarrow> byte_count \<Rightarrow> 's"
    and ok :: "'s \<Rightarrow> bool"
  assumes size_nonneg: "0 \<le> size_of s"
    and spend_size: "ok s \<Longrightarrow> 0 \<le> n \<Longrightarrow> n \<le> size_of s \<Longrightarrow> size_of (spend s n) = size_of s - n"
    and spend_ok: "ok s \<Longrightarrow> 0 \<le> n \<Longrightarrow> n \<le> size_of s \<Longrightarrow> ok (spend s n)"
begin

fun spend_all :: "'s \<Rightarrow> byte_count list \<Rightarrow> 's option" where
  "spend_all s [] = Some s"
| "spend_all s (n # ns) = (if 0 \<le> n \<and> n \<le> size_of s then spend_all (spend s n) ns else None)"

lemma spend_all_total:
  assumes "ok s" "spend_all s ns = Some s'"
  shows "ok s' \<and> size_of s' = size_of s - sum_list ns"
  using assms
proof (induction ns arbitrary: s)
  case (Cons n ns)
  then have n: "0 \<le> n" "n \<le> size_of s" and t: "spend_all (spend s n) ns = Some s'" by (auto split: if_splits)
  then show ?case using Cons.IH [OF spend_ok [OF Cons.prems(1) n] t] spend_size [OF Cons.prems(1) n] by simp
qed simp

lemma spend_all_bounded: "ok s \<Longrightarrow> spend_all s ns = Some s' \<Longrightarrow> sum_list ns \<le> size_of s"
  using spend_all_total [of s ns s'] size_nonneg [of s'] by simp

end

definition send_ok :: "baseFlowController \<Rightarrow> bool" where
  "send_ok c \<longleftrightarrow> 0 \<le> bytesSent c \<and> bytesSent c \<le> sendWindow c"

interpretation base_credit: send_credit base_SendWindowSize base_AddBytesSent send_ok
  by unfold_locales (auto simp: base_SendWindowSize_def base_AddBytesSent_def send_ok_def)

interpretation stream_credit: send_credit stream_SendWindowSize stream_AddBytesSent
  "\<lambda>(s, c). send_ok (base s) \<and> send_ok c"
  by unfold_locales
    (auto simp: stream_SendWindowSize_def stream_AddBytesSent_def base_SendWindowSize_def base_AddBytesSent_def send_ok_def)

section \<open>Lemmas\<close>

text \<open>
  The threshold is computed in \<^verbatim>\<open>float64\<close>.  For windows that the configuration allows (up to \<open>2\<^sup>6\<^sup>2 - 1\<close> bytes) rounding
  may move it, but it stays within range and is not negative.
\<close>

lemma threshold_nonneg:
  assumes "0 \<le> n" "n < 2 ^ 62"
  shows "0 \<le> to_int64 undef (fmul binary64 (float64 n) (Fin (1 - WindowUpdateThreshold)))"
proof -
  have n: "of_int n \<le> of_int 1 * pow2 (int 62)"
  proof -
    have "(of_int n :: rat) \<le> of_int (2 ^ 62)" using assms(2) unfolding of_int_le_iff by simp
    then show ?thesis by (simp only: pow2_nat of_int_power of_int_numeral of_int_1 mult_1)
  qed
  obtain x where x: "float64 n = Fin x" "0 \<le> x" "x \<le> of_int 1 * pow2 (int 62)"
    unfolding of_i_def by (rule fround64_below [OF _ n]) (use assms in simp_all)
  have "x * (3 / 4) \<le> of_int 3 * pow2 (int 60)" using x(3) by (simp add: pow2_def)
  then obtain y where y: "fmul binary64 (float64 n) (Fin (1 - WindowUpdateThreshold)) = Fin y" "0 \<le> y" "y \<le> of_int 3 * pow2 (int 60)"
    using fround64_below [of "x * (3 / 4)" 3 60] x by (auto simp: WindowUpdateThreshold_def)
  have "0 \<le> \<lfloor>y\<rfloor>" "\<lfloor>y\<rfloor> \<le> 3 * 2 ^ 60" using y(2,3) by (simp_all add: pow2_def floor_le_iff)
  then show ?thesis using y(1,2) by (simp add: to_int64_def trunc_rat_def is_i64_def)
qed

text \<open>The receive side of a controller is consistent.\<close>

definition recv_ok :: "baseFlowController \<Rightarrow> bool" where
  "recv_ok c \<longleftrightarrow> 0 \<le> bytesRead c \<and> bytesRead c \<le> highestReceived c \<and> highestReceived c \<le> receiveWindow c \<and>
     receiveWindow c \<le> bytesRead c + receiveWindowSize c \<and>
     0 \<le> receiveWindowSize c \<and> receiveWindowSize c < 2 ^ 62 \<and> 0 \<le> maxReceiveWindowSize c \<and> maxReceiveWindowSize c < 2 ^ 62"

lemma hasWindowUpdate_exhausted: "recv_ok c \<Longrightarrow> bytesRead c = receiveWindow c \<Longrightarrow> hasWindowUpdate undef c"
  by (simp add: recv_ok_def hasWindowUpdate_def threshold_nonneg)

text \<open>What auto-tuning leaves alone, and what it does to the size of the window.\<close>

lemma adjust_window:
  assumes "recv_ok c"
  obtains size t o' where "maybeAdjustWindowSize undef r c now = c\<lparr>receiveWindowSize := size, epochStartTime := t, epochStartOffset := o'\<rparr>"
    "receiveWindowSize c \<le> size" "size \<le> 2 * receiveWindowSize c" "size \<le> max (receiveWindowSize c) (maxReceiveWindowSize c)"
    "size < 2 ^ 62"
proof -
  define n where "n = min (i64 (2 * receiveWindowSize c)) (maxReceiveWindowSize c)"
  have c: "0 \<le> receiveWindowSize c" "receiveWindowSize c < 2 ^ 62" "maxReceiveWindowSize c < 2 ^ 62"
    using assms by (simp_all add: recv_ok_def)
  then have "i64 (2 * receiveWindowSize c) = 2 * receiveWindowSize c" by (intro i64_id) (simp add: is_i64_def)
  then have n: "n \<le> 2 * receiveWindowSize c" "n \<le> maxReceiveWindowSize c" by (simp_all add: n_def)
  consider "maybeAdjustWindowSize undef r c now = c" |
    P where "maybeAdjustWindowSize undef r c now
      = startNewAutoTuningEpoch (if P \<and> n > receiveWindowSize c then c\<lparr>receiveWindowSize := n\<rparr> else c) now"
  proof (cases "bytesRead c - epochStartOffset c \<le> go_div (receiveWindowSize c) 2 \<or> smoothedRTT r = 0")
    case True
    then show ?thesis by (intro that(1)) (auto simp: maybeAdjustWindowSize_def Let_def)
  next
    case False
    let ?P = "monotime_Sub now (epochStartTime c)
        < to_int64 undef (fmul binary64 (fmul binary64 (Fin 4) (fdiv binary64 (float64 (bytesRead c - epochStartOffset c))
            (float64 (receiveWindowSize c)))) (float64 (smoothedRTT r)))
      \<and> (case allowWindowIncrease c of None \<Rightarrow> True | Some f \<Rightarrow> f (n - receiveWindowSize c))"
    have "maybeAdjustWindowSize undef r c now
        = startNewAutoTuningEpoch (if ?P \<and> n > receiveWindowSize c then c\<lparr>receiveWindowSize := n\<rparr> else c) now"
      using False unfolding maybeAdjustWindowSize_def Let_def n_def [symmetric]
      by (simp only: de_Morgan_disj if_False conj_ac)
    then show ?thesis by (rule that(2))
  qed
  then show thesis
  proof cases
    case 1
    then show ?thesis using c by (intro that [of "epochStartOffset c" "epochStartTime c" "receiveWindowSize c"]) simp_all
  next
    case (2 P)
    show ?thesis
    proof (cases "P \<and> n > receiveWindowSize c")
      case True
      then show ?thesis using 2 c n by (intro that [of "bytesRead c" now n]) (simp_all add: startNewAutoTuningEpoch_def)
    next
      case False
      then show ?thesis using 2 c by (intro that [of "bytesRead c" now "receiveWindowSize c"]) (auto simp: startNewAutoTuningEpoch_def)
    qed
  qed
qed

lemma window_update:
  assumes "recv_ok c" "base_getWindowUpdate undef r c now = (off, c')"
  shows "recv_ok c'" "receiveWindow c \<le> receiveWindow c'" "receiveWindowSize c \<le> receiveWindowSize c'"
    "bytesSent c' = bytesSent c" "sendWindow c' = sendWindow c" "bytesRead c' = bytesRead c"
    "highestReceived c' = highestReceived c" "allowWindowIncrease c' = allowWindowIncrease c"
    "receiveWindowSize c' \<le> max (receiveWindowSize c) (maxReceiveWindowSize c)"
    "maxReceiveWindowSize c' = maxReceiveWindowSize c"
    "off = (if hasWindowUpdate undef c then receiveWindow c' else 0)"
    "off \<noteq> 0 \<Longrightarrow> receiveWindow c' = bytesRead c + receiveWindowSize c'"
    "hasWindowUpdate undef c \<Longrightarrow> receiveWindow c' = bytesRead c + receiveWindowSize c'"
proof -
  obtain size t o' where
    m: "maybeAdjustWindowSize undef r c now = c\<lparr>receiveWindowSize := size, epochStartTime := t, epochStartOffset := o'\<rparr>"
    "receiveWindowSize c \<le> size" "size \<le> 2 * receiveWindowSize c" "size \<le> max (receiveWindowSize c) (maxReceiveWindowSize c)"
    "size < 2 ^ 62" by (rule adjust_window [OF assms(1)])
  define u where "u \<longleftrightarrow> hasWindowUpdate undef c"
  have "(off, c') = (if hasWindowUpdate undef c
     then (bytesRead c + size, c\<lparr>receiveWindowSize := size, epochStartTime := t, epochStartOffset := o', receiveWindow := bytesRead c + size\<rparr>)
     else (0, c))"
    unfolding assms(2) [symmetric] by (simp add: base_getWindowUpdate_def m(1))
  then have c': "off = (if u then bytesRead c + size else 0)"
    "c' = (if u then c\<lparr>receiveWindowSize := size, epochStartTime := t, epochStartOffset := o', receiveWindow := bytesRead c + size\<rparr> else c)"
    unfolding u_def by (simp_all split: if_splits)
  show "recv_ok c'" "receiveWindow c \<le> receiveWindow c'" "receiveWindowSize c \<le> receiveWindowSize c'"
    "bytesSent c' = bytesSent c" "sendWindow c' = sendWindow c" "bytesRead c' = bytesRead c"
    "highestReceived c' = highestReceived c" "allowWindowIncrease c' = allowWindowIncrease c"
    "receiveWindowSize c' \<le> max (receiveWindowSize c) (maxReceiveWindowSize c)"
    "maxReceiveWindowSize c' = maxReceiveWindowSize c"
    "off = (if hasWindowUpdate undef c then receiveWindow c' else 0)"
    "off \<noteq> 0 \<Longrightarrow> receiveWindow c' = bytesRead c + receiveWindowSize c'"
    "hasWindowUpdate undef c \<Longrightarrow> receiveWindow c' = bytesRead c + receiveWindowSize c'"
    unfolding u_def [symmetric] c' using assms(1) m(2-5) by (cases u; simp add: recv_ok_def)+
qed

lemma ensure_minimum:
  assumes "recv_ok c" "EnsureMinimumWindowSize c inc now = Inr c'"
  shows "recv_ok c'" "receiveWindow c' = receiveWindow c" "bytesSent c' = bytesSent c" "sendWindow c' = sendWindow c"
    "bytesRead c' = bytesRead c" "highestReceived c' = highestReceived c" "receiveWindowSize c \<le> receiveWindowSize c'"
  using assms
  by (auto simp: EnsureMinimumWindowSize_def Let_def startNewAutoTuningEpoch_def recv_ok_def split: if_splits option.splits)

section \<open>A connection with its streams\<close>

text \<open>
  The controller of a connection and those of all streams opened so far.  Frames that make a controller return
  an error close the connection, so a run takes the steps that succeed.  The application reads at most what was
  received.  Nothing is assumed about the amounts sent: during connection establishment data is sent before the
  peer's transport parameters arrive, and then more than the window may have been sent.  Windows are configured below \<open>2\<^sup>6\<^sup>2\<close> bytes, the limit of \<^verbatim>\<open>config.go\<close>.
\<close>

record flow =
  conn :: connectionFlowController
  streams :: "streamFlowController list"

definition put :: "flow \<Rightarrow> nat \<Rightarrow> streamFlowController \<Rightarrow> connectionFlowController \<Rightarrow> flow" where
  "put f i s c = f\<lparr>conn := c, streams := (streams f)[i := s]\<rparr>"

inductive flow_step :: "(gofloat \<Rightarrow> int) \<Rightarrow> flow \<Rightarrow> flow \<Rightarrow> bool" for undef where
  fs_open: "0 \<le> w \<Longrightarrow> w < 2 ^ 62 \<Longrightarrow> 0 \<le> m \<Longrightarrow> m < 2 ^ 62 \<Longrightarrow> 0 \<le> sw \<Longrightarrow>
    flow_step undef f (f\<lparr>streams := streams f @ [NewStreamFlowController sid w m sw]\<rparr>)"
| fs_receive: "i < length (streams f) \<Longrightarrow> 0 \<le> offset \<Longrightarrow>
    UpdateHighestReceived (streams f ! i) (conn f) offset final now = (None, s, c) \<Longrightarrow> flow_step undef f (put f i s c)"
| fs_read: "i < length (streams f) \<Longrightarrow> 0 \<le> n \<Longrightarrow>
    n \<le> highestReceived (base (streams f ! i)) - bytesRead (base (streams f ! i)) \<Longrightarrow>
    stream_AddBytesRead undef (streams f ! i) (conn f) n = (b, s, c) \<Longrightarrow> flow_step undef f (put f i s c)"
| fs_abandon: "i < length (streams f) \<Longrightarrow> Abandon undef (streams f ! i) (conn f) = (s, c) \<Longrightarrow> flow_step undef f (put f i s c)"
| fs_send: "i < length (streams f) \<Longrightarrow> 0 \<le> n \<Longrightarrow>
    stream_AddBytesSent (streams f ! i, conn f) n = (s, c) \<Longrightarrow> flow_step undef f (put f i s c)"
| fs_max_stream_data: "i < length (streams f) \<Longrightarrow>
    UpdateSendWindow (base (streams f ! i)) offset = (u, b) \<Longrightarrow>
    flow_step undef f (put f i ((streams f ! i)\<lparr>base := b\<rparr>) (conn f))"
| fs_max_data: "UpdateSendWindow (conn f) offset = (u, c) \<Longrightarrow> flow_step undef f (f\<lparr>conn := c\<rparr>)"
| fs_stream_blocked: "i < length (streams f) \<Longrightarrow> stream_IsNewlyBlocked (streams f ! i) = (b, s) \<Longrightarrow>
    flow_step undef f (put f i s (conn f))"
| fs_blocked: "base_IsNewlyBlocked (conn f) = (b, c) \<Longrightarrow> flow_step undef f (f\<lparr>conn := c\<rparr>)"
| fs_stream_update: "i < length (streams f) \<Longrightarrow>
    stream_GetWindowUpdate undef rttStats (streams f ! i) (conn f) now = Inr (offset, s, c) \<Longrightarrow> flow_step undef f (put f i s c)"
| fs_update: "conn_GetWindowUpdate undef rttStats (conn f) now = (offset, c) \<Longrightarrow> flow_step undef f (f\<lparr>conn := c\<rparr>)"
| fs_callback: "flow_step undef f (f\<lparr>conn := (conn f)\<lparr>allowWindowIncrease := a\<rparr>\<rparr>)"
| fs_reset: "conn_Reset (conn f) = Inr c \<Longrightarrow> flow_step undef f (f\<lparr>conn := c, streams := []\<rparr>)"

inductive flow_reach :: "(gofloat \<Rightarrow> int) \<Rightarrow> flow \<Rightarrow> bool" for undef where
  flow_new: "0 \<le> w \<Longrightarrow> w < 2 ^ 62 \<Longrightarrow> 0 \<le> m \<Longrightarrow> m < 2 ^ 62 \<Longrightarrow>
    flow_reach undef \<lparr>conn = NewConnectionFlowController w m allow, streams = []\<rparr>"
| flow_next: "flow_reach undef f \<Longrightarrow> flow_step undef f f' \<Longrightarrow> flow_reach undef f'"

inductive_cases flow_stepE: "flow_step undef f f'"

definition controller_ok :: "baseFlowController \<Rightarrow> bool" where
  "controller_ok c \<longleftrightarrow> recv_ok c \<and> 0 \<le> bytesSent c"

definition total :: "(baseFlowController \<Rightarrow> byte_count) \<Rightarrow> flow \<Rightarrow> byte_count" where
  "total field f = sum_list (map (\<lambda>s. field (base s)) (streams f))"

definition flow_inv :: "flow \<Rightarrow> bool" where
  "flow_inv f \<longleftrightarrow> controller_ok (conn f) \<and> list_all (\<lambda>s. controller_ok (base s)) (streams f) \<and>
     highestReceived (conn f) = total highestReceived f \<and> bytesRead (conn f) = total bytesRead f \<and>
     bytesSent (conn f) = total bytesSent f"

text \<open>An operation on stream \<open>i\<close> keeps the invariant when stream and connection change by the same amounts.\<close>

lemma sum_list_map_update:
  "i < length xs \<Longrightarrow> sum_list (map g (xs[i := x])) = sum_list (map g xs) + (g x - g (xs ! i))" for g :: "'a \<Rightarrow> int"
proof (induction xs arbitrary: i)
  case (Cons a xs)
  then show ?case by (cases i) auto
qed simp

definition same_change :: "streamFlowController \<Rightarrow> connectionFlowController \<Rightarrow> streamFlowController \<Rightarrow> connectionFlowController \<Rightarrow> bool" where
  "same_change s c s' c' \<longleftrightarrow> controller_ok (base s') \<and> controller_ok c' \<and>
     highestReceived c' - highestReceived c = highestReceived (base s') - highestReceived (base s) \<and>
     bytesRead c' - bytesRead c = bytesRead (base s') - bytesRead (base s) \<and>
     bytesSent c' - bytesSent c = bytesSent (base s') - bytesSent (base s)"

lemma flow_inv_put:
  assumes "flow_inv f" "i < length (streams f)" "same_change (streams f ! i) (conn f) s c"
  shows "flow_inv (put f i s c)"
proof -
  have "list_all (\<lambda>s. controller_ok (base s)) ((streams f)[i := s])"
    using assms by (auto simp: flow_inv_def same_change_def list_all_length nth_list_update)
  then show ?thesis
    using assms by (simp add: flow_inv_def same_change_def put_def total_def sum_list_map_update)
qed

lemma flow_inv_stream: "flow_inv f \<Longrightarrow> i < length (streams f) \<Longrightarrow> controller_ok (base (streams f ! i)) \<and> controller_ok (conn f)"
  by (simp add: flow_inv_def list_all_length)

lemma flow_inv_conn:
  assumes "flow_inv f" "controller_ok c" "highestReceived c = highestReceived (conn f)" "bytesRead c = bytesRead (conn f)"
    "bytesSent c = bytesSent (conn f)"
  shows "flow_inv (f\<lparr>conn := c\<rparr>)"
  using assms by (simp add: flow_inv_def total_def)

text \<open>A new auto-tuning epoch changes none of the counters.\<close>

lemma startNewAutoTuningEpoch_frame [simp]:
  "bytesSent (startNewAutoTuningEpoch c now) = bytesSent c" "sendWindow (startNewAutoTuningEpoch c now) = sendWindow c"
  "bytesRead (startNewAutoTuningEpoch c now) = bytesRead c" "highestReceived (startNewAutoTuningEpoch c now) = highestReceived c"
  "receiveWindow (startNewAutoTuningEpoch c now) = receiveWindow c"
  "receiveWindowSize (startNewAutoTuningEpoch c now) = receiveWindowSize c"
  "maxReceiveWindowSize (startNewAutoTuningEpoch c now) = maxReceiveWindowSize c"
  by (simp_all add: startNewAutoTuningEpoch_def)

lemma receive_one:
  assumes "controller_ok c" "highestReceived c \<le> h" "h \<le> receiveWindow c"
  shows "controller_ok ((if b then startNewAutoTuningEpoch c now else c)\<lparr>highestReceived := h\<rparr>)"
  using assms by (cases b) (simp_all add: controller_ok_def recv_ok_def send_ok_def)

lemma receive_ok:
  assumes ok: "controller_ok (base s)" "controller_ok c" and u: "UpdateHighestReceived s c offset final now = (None, s', c')"
  shows "same_change s c s' c'"
proof (cases "highestReceived (base s) < offset")
  case False
  then have "base s' = base s" "c' = c" using u by (auto simp: UpdateHighestReceived_def Let_def split: if_splits)
  then show ?thesis using ok by (simp add: same_change_def)
next
  case True
  let ?b = "(if highestReceived (base s) = 0 then startNewAutoTuningEpoch (base s) now else base s)\<lparr>highestReceived := offset\<rparr>"
  let ?c = "(if highestReceived c = 0 then startNewAutoTuningEpoch c now else c)"
  let ?d = "?c\<lparr>highestReceived := highestReceived ?c + (offset - highestReceived (base s))\<rparr>"
  have h: "highestReceived ?c = highestReceived c" by simp
  have s': "base s' = ?b" "\<not> checkFlowControlViolation ?b" "c' = ?d" "\<not> checkFlowControlViolation ?d"
    using u True unfolding UpdateHighestReceived_def IncrementHighestReceived_def Let_def
    by (auto split: if_splits)
  have "controller_ok ?b" using s'(2) True ok by (intro receive_one) (simp_all add: checkFlowControlViolation_def split: if_splits)
  moreover have "controller_ok ?d" unfolding h
    using s'(4) True ok by (intro receive_one) (simp_all add: checkFlowControlViolation_def split: if_splits)
  ultimately show ?thesis using ok unfolding same_change_def s' by simp
qed

lemma read_ok:
  assumes "controller_ok (base s)" "controller_ok c" "0 \<le> n" "n \<le> highestReceived (base s) - bytesRead (base s)"
    "bytesRead c + n \<le> highestReceived c"
  shows "same_change s c (s\<lparr>base := base_addBytesRead (base s) n\<rparr>) (base_addBytesRead c n)"
  using assms by (simp add: base_addBytesRead_def controller_ok_def recv_ok_def send_ok_def same_change_def)

text \<open>What is still unread on one stream is also unread on the connection.\<close>

lemma unread_le:
  assumes "flow_inv f" "i < length (streams f)"
  shows "highestReceived (base (streams f ! i)) - bytesRead (base (streams f ! i)) \<le> highestReceived (conn f) - bytesRead (conn f)"
proof -
  let ?g = "\<lambda>s. highestReceived (base s) - bytesRead (base s)"
  have "\<forall>s \<in> set (streams f). 0 \<le> ?g s" using assms(1) by (auto simp: flow_inv_def list_all_iff controller_ok_def recv_ok_def)
  then have "?g (streams f ! i) \<le> sum_list (map ?g (streams f))"
    using assms(2) by (intro member_le_sum_list) auto
  also have "\<dots> = total highestReceived f - total bytesRead f" by (simp add: total_def sum_list_subtractf)
  finally show ?thesis using assms(1) by (simp add: flow_inv_def)
qed

lemma flow_read:
  assumes "flow_inv f" "i < length (streams f)" "0 \<le> n"
    "n \<le> highestReceived (base (streams f ! i)) - bytesRead (base (streams f ! i))"
  shows "flow_inv (put f i ((streams f ! i)\<lparr>base := base_addBytesRead (base (streams f ! i)) n\<rparr>) (base_addBytesRead (conn f) n))"
  using flow_inv_stream [OF assms(1,2)] unread_le [OF assms(1,2)] assms by (intro flow_inv_put read_ok) auto

lemma send_keeps:
  assumes "controller_ok (base s)" "controller_ok c" "0 \<le> n" "stream_AddBytesSent (s, c) n = (s', c')"
  shows "same_change s c s' c'"
  using assms
  by (auto simp: stream_AddBytesSent_def base_AddBytesSent_def controller_ok_def recv_ok_def same_change_def)

lemma send_window_keeps:
  assumes "controller_ok c" "UpdateSendWindow c offset = (u, c')"
  shows "controller_ok c'" "highestReceived c' = highestReceived c" "bytesRead c' = bytesRead c" "bytesSent c' = bytesSent c"
  using assms by (auto simp: UpdateSendWindow_def controller_ok_def recv_ok_def send_ok_def split: if_splits)

lemma blocked_keeps:
  assumes "controller_ok c" "base_IsNewlyBlocked c = (b, c')"
  shows "controller_ok c'" "highestReceived c' = highestReceived c" "bytesRead c' = bytesRead c" "bytesSent c' = bytesSent c"
  using assms by (auto simp: base_IsNewlyBlocked_def controller_ok_def recv_ok_def send_ok_def split: if_splits)

lemma update_keeps:
  assumes "controller_ok c" "base_getWindowUpdate undef r c now = (off, c')"
  shows "controller_ok c'" "highestReceived c' = highestReceived c" "bytesRead c' = bytesRead c" "bytesSent c' = bytesSent c"
  using window_update [of c undef r now off c'] assms by (simp_all add: controller_ok_def send_ok_def)

lemma stream_update_keeps:
  assumes "controller_ok (base s)" "controller_ok c" "stream_GetWindowUpdate undef r s c now = Inr (off, s', c')"
  shows "same_change s c s' c'"
proof (cases "receivedFinalOffset s")
  case True
  then show ?thesis using assms by (simp add: stream_GetWindowUpdate_def same_change_def)
next
  case False
  obtain o' b where g: "base_getWindowUpdate undef r (base s) now = (o', b)" by fastforce
  note b = update_keeps [OF assms(1) g]
  from assms(3) False g consider "s' = s\<lparr>base := b\<rparr>" "c' = c" |
    "s' = s\<lparr>base := b\<rparr>" "EnsureMinimumWindowSize c
       (to_int64 undef (fmul binary64 (float64 (receiveWindowSize b)) (Fin ConnectionFlowControlMultiplier))) now = Inr c'"
    by (auto simp: stream_GetWindowUpdate_def Let_def split: if_splits)
  then show ?thesis
  proof cases
    case 1
    then show ?thesis using b assms by (simp add: same_change_def)
  next
    case 2
    from assms(2) have "recv_ok c" by (simp add: controller_ok_def)
    from ensure_minimum [OF this 2(2)] show ?thesis
      using 2(1) b assms(2) by (simp add: same_change_def controller_ok_def send_ok_def)
  qed
qed

lemma Abandon_alt:
  assumes "controller_ok (base s)" "Abandon undef s c = (s', c')"
  defines "n \<equiv> highestReceived (base s) - bytesRead (base s)"
  shows "s' = s\<lparr>base := base_addBytesRead (base s) n\<rparr> \<and> c' = base_addBytesRead c n"
  using assms by (auto simp: Abandon_def Let_def base_addBytesRead_def conn_AddBytesRead_def controller_ok_def recv_ok_def)

lemma total_nil: "flow_inv f \<Longrightarrow> conn_Reset (conn f) = Inr c \<Longrightarrow> flow_inv (f\<lparr>conn := c, streams := []\<rparr>)"
  by (auto simp: conn_Reset_def flow_inv_def total_def controller_ok_def recv_ok_def send_ok_def split: if_splits)

lemma flow_inv_step:
  assumes "flow_step undef f f'" "flow_inv f"
  shows "flow_inv f'"
proof -
  have ok: "controller_ok (conn f)" using assms(2) by (simp add: flow_inv_def)
  from assms(1) show ?thesis
  proof (cases rule: flow_step.cases)
    case (fs_open w m sw sid)
    have "controller_ok (base (NewStreamFlowController sid w m sw))"
      using fs_open by (simp add: NewStreamFlowController_def controller_ok_def recv_ok_def send_ok_def)
    then show ?thesis using assms(2) fs_open(1) by (simp add: flow_inv_def total_def NewStreamFlowController_def)
  next
    case (fs_receive i offset final now s c)
    note ok = flow_inv_stream [OF assms(2) fs_receive(2)]
    show ?thesis unfolding fs_receive(1)
      by (rule flow_inv_put [OF assms(2) fs_receive(2) receive_ok [OF conjunct1 [OF ok] conjunct2 [OF ok] fs_receive(4)]])
  next
    case (fs_read i n b s c)
    then have "s = (streams f ! i)\<lparr>base := base_addBytesRead (base (streams f ! i)) n\<rparr>" "c = base_addBytesRead (conn f) n"
      by (auto simp: stream_AddBytesRead_def conn_AddBytesRead_def Let_def)
    then show ?thesis using flow_read [OF assms(2) fs_read(2,3,4)] unfolding fs_read(1) by simp
  next
    case (fs_abandon i s c)
    have ok: "controller_ok (base (streams f ! i))" using flow_inv_stream [OF assms(2) fs_abandon(2)] by simp
    then have "0 \<le> highestReceived (base (streams f ! i)) - bytesRead (base (streams f ! i))" by (simp add: controller_ok_def recv_ok_def)
    from flow_read [OF assms(2) fs_abandon(2) this order_refl] show ?thesis
      using Abandon_alt [OF ok fs_abandon(3)] unfolding fs_abandon(1) by simp
  next
    case (fs_send i n s c)
    note ok = flow_inv_stream [OF assms(2) fs_send(2)]
    show ?thesis unfolding fs_send(1)
      by (rule flow_inv_put [OF assms(2) fs_send(2) send_keeps [OF conjunct1 [OF ok] conjunct2 [OF ok] fs_send(3,4)]])
  next
    case (fs_max_stream_data i offset u b)
    have ok: "controller_ok (base (streams f ! i))" "controller_ok (conn f)" using flow_inv_stream [OF assms(2) fs_max_stream_data(2)] by simp_all
    show ?thesis unfolding fs_max_stream_data(1)
      by (rule flow_inv_put [OF assms(2) fs_max_stream_data(2)])
        (use send_window_keeps [OF ok(1) fs_max_stream_data(3)] ok in \<open>simp add: same_change_def\<close>)
  next
    case (fs_max_data offset u c)
    show ?thesis unfolding fs_max_data(1) by (rule flow_inv_conn [OF assms(2) send_window_keeps [OF ok fs_max_data(2)]])
  next
    case (fs_stream_blocked i b s)
    have ok: "controller_ok (base (streams f ! i))" "controller_ok (conn f)" using flow_inv_stream [OF assms(2) fs_stream_blocked(2)] by simp_all
    obtain b' c' where b: "base_IsNewlyBlocked (base (streams f ! i)) = (b', c')" by fastforce
    then have "s = (streams f ! i)\<lparr>base := c'\<rparr>" using fs_stream_blocked(3) by (auto simp: stream_IsNewlyBlocked_def split: prod.splits)
    then show ?thesis unfolding fs_stream_blocked(1)
      by (intro flow_inv_put [OF assms(2) fs_stream_blocked(2)]) (use blocked_keeps [OF ok(1) b] ok in \<open>simp add: same_change_def\<close>)
  next
    case (fs_blocked b c)
    show ?thesis unfolding fs_blocked(1) by (rule flow_inv_conn [OF assms(2) blocked_keeps [OF ok fs_blocked(2)]])
  next
    case (fs_stream_update i rttStats now offset s c)
    note ok = flow_inv_stream [OF assms(2) fs_stream_update(2)]
    show ?thesis unfolding fs_stream_update(1)
      by (rule flow_inv_put [OF assms(2) fs_stream_update(2) stream_update_keeps [OF conjunct1 [OF ok] conjunct2 [OF ok] fs_stream_update(3)]])
  next
    case (fs_update rttStats now offset c)
    show ?thesis unfolding fs_update(1)
      by (rule flow_inv_conn [OF assms(2) update_keeps [OF ok fs_update(2) [unfolded conn_GetWindowUpdate_def]]])
  next
    case (fs_callback a)
    show ?thesis unfolding fs_callback(1)
      by (rule flow_inv_conn [OF assms(2)]) (use ok in \<open>simp_all add: controller_ok_def recv_ok_def send_ok_def\<close>)
  next
    case (fs_reset c)
    show ?thesis unfolding fs_reset(1) by (rule total_nil [OF assms(2) fs_reset(2)])
  qed
qed

lemma flow_reach_inv: "flow_reach undef f \<Longrightarrow> flow_inv f"
proof (induction rule: flow_reach.induct)
  case (flow_new w m allow)
  then show ?case by (simp add: flow_inv_def total_def NewConnectionFlowController_def controller_ok_def recv_ok_def send_ok_def)
next
  case (flow_next f f')
  then show ?case by (rule_tac flow_inv_step)
qed

section \<open>Properties\<close>

text \<open>
  Property C3.  On every run of a connection with any number of streams, whatever windows up to \<open>2\<^sup>6\<^sup>2 - 1\<close> bytes are configured
  and whatever amounts are sent, the connection's counters of received, read and sent bytes are the sums of those of its
  streams; no stream and no connection has accepted more than it allowed the peer, or allowed more than its window size
  beyond what was read, and nothing is read before it is received.  \<^verbatim>\<open>SendWindowSize\<close> of a stream is never negative, and
  what it announces fits into what is left of the window of the stream and of that of the connection.
\<close>

theorem flow_accounting:
  assumes "flow_reach undef f"
  shows "highestReceived (conn f) = (\<Sum>s\<leftarrow>streams f. highestReceived (base s)) \<and>
    bytesRead (conn f) = (\<Sum>s\<leftarrow>streams f. bytesRead (base s)) \<and>
    bytesSent (conn f) = (\<Sum>s\<leftarrow>streams f. bytesSent (base s)) \<and>
    list_all (\<lambda>c. 0 \<le> bytesSent c \<and> 0 \<le> bytesRead c \<and> bytesRead c \<le> highestReceived c \<and>
      highestReceived c \<le> receiveWindow c \<and> receiveWindow c \<le> bytesRead c + receiveWindowSize c)
      (conn f # map base (streams f)) \<and>
    list_all (\<lambda>s. let w = stream_SendWindowSize (s, conn f) in
      w = max 0 (min (sendWindow (base s) - bytesSent (base s)) (sendWindow (conn f) - bytesSent (conn f)))) (streams f)"
  using flow_reach_inv [OF assms]
  by (auto simp: flow_inv_def total_def controller_ok_def recv_ok_def list_all_iff stream_SendWindowSize_def base_SendWindowSize_def)

definition flow_example :: flow where
  "flow_example = \<lparr>conn = (NewConnectionFlowController 1000 2000 (Some (\<lambda>_. True)))
       \<lparr>highestReceived := 500, bytesRead := 500, epochStartTime := 7\<rparr>,
     streams = [(NewStreamFlowController 4 500 2000 0)\<lparr>base := (base (NewStreamFlowController 4 500 2000 0))
       \<lparr>highestReceived := 500, bytesRead := 500, epochStartTime := 7\<rparr>\<rparr>]\<rparr>"

lemma flow_example_reach: "flow_reach (\<lambda>_. 0) flow_example"
proof -
  define f where "f = \<lparr>conn = NewConnectionFlowController 1000 2000 (Some (\<lambda>_. True)), streams = []\<rparr>"
  have "flow_reach (\<lambda>_. 0) f" unfolding f_def by (rule flow_new) simp_all
  from flow_next [OF this fs_open [of 500 2000 0 _ f 4]]
  have 1: "flow_reach (\<lambda>_. 0) (f\<lparr>streams := [NewStreamFlowController 4 500 2000 0]\<rparr>)" by (simp add: f_def)
  have "UpdateHighestReceived (NewStreamFlowController 4 500 2000 0) (conn f) 500 False 7
     = (None, (NewStreamFlowController 4 500 2000 0)\<lparr>base := (base (NewStreamFlowController 4 500 2000 0))
         \<lparr>highestReceived := 500, epochStartTime := 7\<rparr>\<rparr>, (conn f)\<lparr>highestReceived := 500, epochStartTime := 7\<rparr>)"
    by (simp add: UpdateHighestReceived_def NewStreamFlowController_def f_def NewConnectionFlowController_def
        startNewAutoTuningEpoch_def checkFlowControlViolation_def IncrementHighestReceived_def)
  with flow_next [OF 1 fs_receive [of 0 _ 500 False 7]]
  have 2: "flow_reach (\<lambda>_. 0) (f\<lparr>conn := (conn f)\<lparr>highestReceived := 500, epochStartTime := 7\<rparr>,
      streams := [(NewStreamFlowController 4 500 2000 0)\<lparr>base := (base (NewStreamFlowController 4 500 2000 0))
         \<lparr>highestReceived := 500, epochStartTime := 7\<rparr>\<rparr>]\<rparr>)" (is "flow_reach _ ?f")
    by (simp add: put_def)
  obtain b s c where r: "stream_AddBytesRead (\<lambda>_. 0) (streams ?f ! 0) (conn ?f) 500 = (b, s, c)" by (metis prod_cases3)
  then have "s = hd (streams flow_example)" "c = conn flow_example"
    by (auto simp: stream_AddBytesRead_def conn_AddBytesRead_def Let_def base_addBytesRead_def flow_example_def f_def
        NewStreamFlowController_def NewConnectionFlowController_def)
  with flow_next [OF 2 fs_read [OF _ _ _ r]] show ?thesis
    by (simp add: put_def flow_example_def NewStreamFlowController_def f_def)
qed

theorem flow_accounting_witness:
  "highestReceived (conn flow_example) = 500 \<and> (\<Sum>s\<leftarrow>streams flow_example. highestReceived (base s)) = 500"
  using flow_accounting [OF flow_example_reach] by (simp add: flow_example_def NewStreamFlowController_def)

text \<open>
  Property C18.  \<^verbatim>\<open>UpdateHighestReceived\<close> on every branch: a final size error exactly when the frame contradicts
  the known final size or ends the stream before data already received, a flow control error exactly when
  otherwise new data exceeds the window of the stream or of the connection; without an error both counters grow by
  the new data, and the final size is remembered.
\<close>

theorem update_highest_received_errors:
  assumes "UpdateHighestReceived s c offset final now = (e, s', c')"
  defines "high \<equiv> highestReceived (base s)"
  shows "e = (if receivedFinalOffset s \<and> (final \<and> offset \<noteq> high \<or> offset > high) \<or> final \<and> offset < high then Some FinalSizeError
      else if offset > high \<and> (offset > receiveWindow (base s) \<or> highestReceived c + (offset - high) > receiveWindow c)
        then Some FlowControlError else None) \<and>
    (e = None \<longrightarrow> highestReceived (base s') = max high offset \<and> highestReceived c' = highestReceived c + (max high offset - high) \<and>
      (receivedFinalOffset s' \<longleftrightarrow> receivedFinalOffset s \<or> final))"
  using assms
  by (auto simp: UpdateHighestReceived_def IncrementHighestReceived_def startNewAutoTuningEpoch_def
      checkFlowControlViolation_def Let_def split: if_splits prod.splits)

theorem update_highest_received_errors_witness:
  "fst (UpdateHighestReceived (NewStreamFlowController 4 500 2000 0) (NewConnectionFlowController 400 400 None) 450 True 7)
     = Some FlowControlError"
proof -
  obtain e s c where u: "UpdateHighestReceived (NewStreamFlowController 4 500 2000 0) (NewConnectionFlowController 400 400 None) 450 True 7 = (e, s, c)"
    by (metis prod_cases3)
  from update_highest_received_errors [OF u] show ?thesis
    unfolding u by (simp add: NewStreamFlowController_def NewConnectionFlowController_def)
qed

text \<open>
  Property C12.  A peer that used up the window of a stream is never blocked for good: once the application has read
  all of it, reading has queued a window update, and \<^verbatim>\<open>GetWindowUpdate\<close> returns (without a panic) a larger offset,
  which is the new window.  The same holds for the window of the connection.
\<close>

theorem window_update_unblocks:
  assumes "flow_reach undef f" "i < length (streams f)" "allowWindowIncrease (conn f) \<noteq> None"
    and "\<not> receivedFinalOffset (streams f ! i)" "bytesRead (base (streams f ! i)) = receiveWindow (base (streams f ! i))"
    and "0 < receiveWindowSize (base (streams f ! i))"
  shows "shouldQueueWindowUpdate undef (streams f ! i) \<and>
    (\<exists>offset s c. stream_GetWindowUpdate undef rttStats (streams f ! i) (conn f) now = Inr (offset, s, c) \<and>
      offset = receiveWindow (base s) \<and> receiveWindow (base (streams f ! i)) < offset) \<and>
    (bytesRead (conn f) = receiveWindow (conn f) \<and> 0 < receiveWindowSize (conn f) \<longrightarrow>
      hasWindowUpdate undef (conn f) \<and> receiveWindow (conn f) < fst (conn_GetWindowUpdate undef rttStats (conn f) now))"
proof -
  let ?s = "streams f ! i"
  have ok: "recv_ok (base ?s)" "recv_ok (conn f)"
    using flow_inv_stream [OF flow_reach_inv [OF assms(1)] assms(2)] by (simp_all add: controller_ok_def)
  have h: "hasWindowUpdate undef (base ?s)"
    using assms by (intro hasWindowUpdate_exhausted [OF ok(1)])
  have h2: "hasWindowUpdate undef (conn f)" if "bytesRead (conn f) = receiveWindow (conn f)"
    using that by (rule hasWindowUpdate_exhausted [OF ok(2)])
  obtain o1 b where g: "base_getWindowUpdate undef rttStats (base ?s) now = (o1, b)" by fastforce
  have o1: "o1 = receiveWindow b" "receiveWindow (base ?s) < o1"
    using window_update(3,11,13) [OF ok(1) g] h assms by simp_all
  obtain o2 c where g2: "base_getWindowUpdate undef rttStats (conn f) now = (o2, c)" by fastforce
  have o2: "receiveWindow (conn f) < o2" if "bytesRead (conn f) = receiveWindow (conn f)" "0 < receiveWindowSize (conn f)"
    using window_update(3,11,13) [OF ok(2) g2] h2 that by simp
  have "\<exists>c'. EnsureMinimumWindowSize (conn f) inc now = Inr c'" for inc
    using assms(3) by (auto simp: EnsureMinimumWindowSize_def Let_def)
  then have "\<exists>c'. stream_GetWindowUpdate undef rttStats ?s (conn f) now = Inr (o1, ?s\<lparr>base := b\<rparr>, c')"
    using assms(4) g by (simp add: stream_GetWindowUpdate_def Let_def)
  then show ?thesis using h h2 assms(4) o1 o2 g2 by (auto simp: shouldQueueWindowUpdate_def conn_GetWindowUpdate_def)
qed

theorem window_update_unblocks_witness:
  "\<exists>offset s c. stream_GetWindowUpdate (\<lambda>_. 0) NewRTTStats (hd (streams flow_example)) (conn flow_example) 9 = Inr (offset, s, c) \<and>
     500 < offset"
  using window_update_unblocks [OF flow_example_reach, of 0 NewRTTStats 9]
  by (auto simp: flow_example_def NewStreamFlowController_def NewConnectionFlowController_def)

end
