(* ===== verification/BBRStats.thy ===== *)
theory BBRStats
  imports GoFloat
begin

text \<open>
  The statistics object of the BBRv3 sender (\<^verbatim>\<open>internal/congestion/bbrv3_stats.go\<close>).  The mutex is left out,
  \<^verbatim>\<open>time.Now()\<close> is the argument \<open>now\<close>, and \<^verbatim>\<open>Log\<close> is modelled by what it changes; the text it prints is not.
\<close>

record BBRv3Stats =
  st_enabled :: bool
  st_logInterval :: duration
  st_lastLogTime :: mtime
  st_connID :: string
  st_cwnd :: u64
  st_bytesSent :: u64
  st_bytesLost :: u64
  st_minRtt :: duration
  st_avgRtt :: duration
  st_currentRtt :: duration
  st_rttCount :: u64
  st_rttSum :: duration
  st_transmissionRate :: u64
  st_ssthresh :: u64
  st_retransmitCount :: u64
  st_state :: string
  st_pacingRate :: u64
  st_bandwidth :: u64
  st_inflight :: u64
  st_maxBandwidth :: u64

record BBRv3StatsConfig =
  cfg_Enabled :: bool
  cfg_LogInterval :: duration
  cfg_ConnID :: string

definition NewBBRv3Stats :: "BBRv3StatsConfig \<Rightarrow> mtime \<Rightarrow> BBRv3Stats" where
  "NewBBRv3Stats config now =
     \<lparr>st_enabled = cfg_Enabled config,
      st_logInterval = (if cfg_LogInterval config = 0 then Second else cfg_LogInterval config),
      st_lastLogTime = now, st_connID = cfg_ConnID config,
      st_cwnd = 0, st_bytesSent = 0, st_bytesLost = 0, st_minRtt = 0, st_avgRtt = 0, st_currentRtt = 0,
      st_rttCount = 0, st_rttSum = 0, st_transmissionRate = 0, st_ssthresh = 0, st_retransmitCount = 0,
      st_state = '''', st_pacingRate = 0, st_bandwidth = 0, st_inflight = 0, st_maxBandwidth = 0\<rparr>"

definition stats_SetEnabled :: "BBRv3Stats \<Rightarrow> bool \<Rightarrow> BBRv3Stats" where
  "stats_SetEnabled s enabled = s\<lparr>st_enabled := enabled\<rparr>"

definition stats_SetLogInterval :: "BBRv3Stats \<Rightarrow> duration \<Rightarrow> BBRv3Stats" where
  "stats_SetLogInterval s interval = s\<lparr>st_logInterval := interval\<rparr>"

definition stats_SetConnID :: "BBRv3Stats \<Rightarrow> string \<Rightarrow> BBRv3Stats" where
  "stats_SetConnID s connID = s\<lparr>st_connID := connID\<rparr>"

definition stats_UpdateCWND :: "BBRv3Stats \<Rightarrow> u64 \<Rightarrow> BBRv3Stats" where
  "stats_UpdateCWND s cwnd = s\<lparr>st_cwnd := cwnd\<rparr>"

definition stats_AddBytesSent :: "BBRv3Stats \<Rightarrow> u64 \<Rightarrow> BBRv3Stats" where
  "stats_AddBytesSent s n = s\<lparr>st_bytesSent := st_bytesSent s + n\<rparr>"

definition stats_AddBytesLost :: "BBRv3Stats \<Rightarrow> u64 \<Rightarrow> BBRv3Stats" where
  "stats_AddBytesLost s n = s\<lparr>st_bytesLost := st_bytesLost s + n\<rparr>"

definition stats_UpdateRTT :: "BBRv3Stats \<Rightarrow> duration \<Rightarrow> BBRv3Stats go" where
  "stats_UpdateRTT s rtt =
     (if rtt > 0 then
        let s = (if st_minRtt s = 0 \<or> rtt < st_minRtt s then s\<lparr>st_minRtt := rtt\<rparr> else s);
            s = s\<lparr>st_currentRtt := rtt, st_rttSum := i64 (st_rttSum s + rtt), st_rttCount := st_rttCount s + 1\<rparr>
        in if st_rttCount s = 0 then Inl ''integer divide by zero''
           else Inr (s\<lparr>st_avgRtt := sint (word_of_int (st_rttSum s) div st_rttCount s :: u64)\<rparr>)
      else Inr s)"

definition stats_UpdateTransmissionRate :: "BBRv3Stats \<Rightarrow> u64 \<Rightarrow> BBRv3Stats" where
  "stats_UpdateTransmissionRate s rate = s\<lparr>st_transmissionRate := rate\<rparr>"

definition stats_UpdateSSThresh :: "BBRv3Stats \<Rightarrow> u64 \<Rightarrow> BBRv3Stats" where
  "stats_UpdateSSThresh s ssthresh = s\<lparr>st_ssthresh := ssthresh\<rparr>"

definition stats_IncrementRetransmit :: "BBRv3Stats \<Rightarrow> BBRv3Stats" where
  "stats_IncrementRetransmit s = s\<lparr>st_retransmitCount := st_retransmitCount s + 1\<rparr>"

definition stats_UpdateState :: "BBRv3Stats \<Rightarrow> string \<Rightarrow> BBRv3Stats" where
  "stats_UpdateState s state = s\<lparr>st_state := state\<rparr>"

definition stats_UpdatePacingRate :: "BBRv3Stats \<Rightarrow> u64 \<Rightarrow> BBRv3Stats" where
  "stats_UpdatePacingRate s rate = s\<lparr>st_pacingRate := rate\<rparr>"

definition stats_UpdateBandwidth :: "BBRv3Stats \<Rightarrow> u64 \<Rightarrow> BBRv3Stats" where
  "stats_UpdateBandwidth s bw = s\<lparr>st_bandwidth := bw\<rparr>"

definition stats_UpdateInflight :: "BBRv3Stats \<Rightarrow> u64 \<Rightarrow> BBRv3Stats" where
  "stats_UpdateInflight s inflight = s\<lparr>st_inflight := inflight\<rparr>"

definition stats_UpdateMaxBandwidth :: "BBRv3Stats \<Rightarrow> u64 \<Rightarrow> BBRv3Stats" where
  "stats_UpdateMaxBandwidth s maxBw = s\<lparr>st_maxBandwidth := maxBw\<rparr>"

definition stats_ShouldLog :: "BBRv3Stats \<Rightarrow> mtime \<Rightarrow> bool" where
  "stats_ShouldLog s now \<longleftrightarrow> st_enabled s \<and> monotime_Sub now (st_lastLogTime s) \<ge> st_logInterval s"

definition stats_Log :: "BBRv3Stats \<Rightarrow> mtime \<Rightarrow> BBRv3Stats" where
  "stats_Log s now = (if \<not> st_enabled s then s else s\<lparr>st_lastLogTime := now\<rparr>)"

record BBRv3StatsSnapshot =
  CWND :: u64
  BytesSent :: u64
  BytesLost :: u64
  MinRTT :: duration
  AvgRTT :: duration
  CurrentRTT :: duration
  TransmissionRate :: u64
  SSTHRESH :: u64
  RetransmitCount :: u64
  SnapState :: string
  PacingRate :: u64
  Bandwidth :: u64
  Inflight :: u64
  MaxBandwidth :: u64
  ConnID :: string

definition GetStatsSnapshot :: "BBRv3Stats \<Rightarrow> BBRv3StatsSnapshot" where
  "GetStatsSnapshot s =
     \<lparr>CWND = st_cwnd s, BytesSent = st_bytesSent s, BytesLost = st_bytesLost s, MinRTT = st_minRtt s,
      AvgRTT = st_avgRtt s, CurrentRTT = st_currentRtt s, TransmissionRate = st_transmissionRate s,
      SSTHRESH = st_ssthresh s, RetransmitCount = st_retransmitCount s, SnapState = st_state s,
      PacingRate = st_pacingRate s, Bandwidth = st_bandwidth s, Inflight = st_inflight s,
      MaxBandwidth = st_maxBandwidth s, ConnID = ''''\<rparr>"

lemma UpdateRTT_no_panic: "st_rttCount s \<noteq> - 1 \<Longrightarrow> \<exists>s'. stats_UpdateRTT s rtt = Inr s'"
  by (auto simp: stats_UpdateRTT_def Let_def simp flip: eq_neg_iff_add_eq_0)

end
