(* ===== verification/BBRv3.thy ===== *)
theory BBRv3
  imports BBRStats "HOL-Library.AList"
begin

text \<open>
  The BBRv3 congestion controller (\<^verbatim>\<open>internal/congestion/bbrv3.go\<close>), one definition per method.  The sender is
  the record \<open>BBRv3Sender\<close>; a method that changes the sender returns the changed one, after its result if it has
  one.  \<^verbatim>\<open>uint64\<close> fields are 64-bit words that wrap around, \<^verbatim>\<open>float64\<close> is rounded as in \<^verbatim>\<open>GoFloat\<close>.  The argument
  \<open>pl\<close> gives the results of out-of-range float conversions, and every reading of the clock by \<^verbatim>\<open>monotime.Now()\<close>
  is an argument.  A division by zero is a panic.
\<close>

section \<open>Types\<close>

record platform =
  conv_i64 :: "gofloat \<Rightarrow> int"
  conv_u64 :: "gofloat \<Rightarrow> u64"

datatype bbrv3State = bbrv3StateStartup | bbrv3StateDrain | bbrv3StateProbeBwDown | bbrv3StateProbeBwCruise
  | bbrv3StateProbeBwRefill | bbrv3StateProbeBwUp | bbrv3StateProbeRTT

datatype ackProbePhase = ackProbePhaseInit | ackProbePhaseStopping | ackProbePhaseRefilling
  | ackProbePhaseStarting | ackProbePhaseFeedback

record bbrv3Config =
  minCwnd :: u64
  initialCwnd :: u64
  initialRtt :: duration
  cfg_maxDatagramSize :: u64
  fullBwCountThreshold :: u64
  fullBwGrowthRate :: gofloat
  probeRttDuration :: duration
  probeRttInterval :: duration
  lossThreshold :: gofloat
  fullLossCount :: u64
  beta :: gofloat
  headroom :: gofloat

text \<open>A decimal constant of the source becomes the nearest \<^verbatim>\<open>float64\<close>.\<close>

definition lit :: "rat \<Rightarrow> gofloat" where
  "lit x = fround binary64 x"

definition startupPacingGain :: gofloat where "startupPacingGain = lit (277 / 100)"
definition oneMinusPacingMargin :: gofloat where "oneMinusPacingMargin = lit (99 / 100)"
definition lossThresh :: gofloat where "lossThresh = lit (2 / 100)"
definition fullLossCnt :: u64 where "fullLossCnt = 6"
definition betaFactor :: gofloat where "betaFactor = lit (7 / 10)"
definition headroomFactor :: gofloat where "headroomFactor = lit (85 / 100)"
definition minPipeCwndInSmss :: u64 where "minPipeCwndInSmss = 4"
definition extraAckedFilterLen :: u64 where "extraAckedFilterLen = 10"
definition probeRttDurationConst :: duration where "probeRttDurationConst = 200 * Millisecond"
definition probeRttIntervalConst :: duration where "probeRttIntervalConst = 5 * Second"
definition fullBwCountThresholdConst :: u64 where "fullBwCountThresholdConst = 3"
definition fullBwGrowthRateConst :: gofloat where "fullBwGrowthRateConst = lit (25 / 100)"
definition probeBwMaxRounds :: u64 where "probeBwMaxRounds = 63"
definition sendQuantumThresholdPacing :: u64 where "sendQuantumThresholdPacing = 150000"
definition defaultMaxDatagramSize :: u64 where "defaultMaxDatagramSize = 1200"
definition defaultInitialCwnd :: u64 where "defaultInitialCwnd = 10"

text \<open>\<^verbatim>\<open>^uint64(0)\<close>, used for ``no bound''.\<close>

abbreviation no_bound :: u64 where "no_bound \<equiv> - 1"

record roundTripCounter =
  roundCount :: u64
  isRoundStart :: bool
  nextRoundDelivered :: u64

record fullPipeEstimator =
  filledPipe :: bool
  fullBw :: u64
  fullBwCount :: u64

record simpleMaxFilter =
  bw0 :: u64
  bw1 :: u64

definition filter_maxBw :: "simpleMaxFilter \<Rightarrow> u64" where
  "filter_maxBw f = (if bw0 f > bw1 f then bw0 f else bw1 f)"

record minMaxFilter =
  mm_data :: "(u64 \<times> u64) list"
  mm_idx :: u64
  mm_window :: u64
  mm_curMax :: u64

definition newMinMaxFilter :: "u64 \<Rightarrow> minMaxFilter" where
  "newMinMaxFilter window = \<lparr>mm_data = [], mm_idx = 0, mm_window = window, mm_curMax = 0\<rparr>"

definition mm_updateMax :: "minMaxFilter \<Rightarrow> u64 \<Rightarrow> u64 \<Rightarrow> minMaxFilter" where
  "mm_updateMax m time value =
     m\<lparr>mm_idx := time,
       mm_curMax := (if value > mm_curMax m then value else mm_curMax m),
       mm_data := filter (\<lambda>(k, _). \<not> k + mm_window m < time) (AList.update time value (mm_data m))\<rparr>"

definition mm_get :: "minMaxFilter \<Rightarrow> u64 \<times> minMaxFilter" where
  "mm_get m =
     (let maxVal = foldl (\<lambda>acc (_, v). if v > acc then v else acc) 0 (mm_data m)
      in (maxVal, m\<lparr>mm_curMax := maxVal\<rparr>))"

record bbrv3AckInfo =
  ai_ackedBytes :: byte_count
  ai_recordTime :: mtime
  ai_delivered :: u64

record BBRv3Sender =
  config :: bbrv3Config
  state :: bbrv3State
  pacingRate :: u64
  pacingGain :: gofloat
  sendQuantum :: u64
  cwnd :: u64
  cwndGain :: gofloat
  packetConservation :: bool
  priorCwnd :: u64
  round :: roundTripCounter
  idleRestart :: bool
  maxBw :: u64
  bwHi :: u64
  bwLo :: u64
  bw :: u64
  minRtt :: duration
  minRttStamp :: mtime
  probeRttMinDelay :: duration
  probeRttMinStamp :: mtime
  probeRttExpired :: bool
  bdpVal :: u64
  extraAcked :: u64
  offloadBudget :: u64
  maxInflight :: u64
  inflightHi :: u64
  inflightLo :: u64
  bwLatest :: u64
  inflightLatest :: u64
  maxBwFilter :: simpleMaxFilter
  extraAckedFilter :: minMaxFilter
  cycleCount :: u64
  cycleStamp :: mtime
  ackPhase :: ackProbePhase
  extraAckedIntervalStart :: mtime
  extraAckedDelivered :: u64
  fullPipe :: fullPipeEstimator
  probeRttDoneStamp :: mtime
  probeRttRoundDone :: bool
  roundsSinceBwProbe :: u64
  bwProbeWait :: duration
  bwProbeUpCnt :: u64
  bwProbeUpAcks :: u64
  bwProbeUpRounds :: u64
  bwProbeSamples :: bool
  lossRoundStart :: bool
  lossInRound :: bool
  inRecoveryMode :: bool
  lossRoundDelivered :: u64
  lossEventsInRound :: u64
  recoveryEpochStart :: mtime
  sentTimes :: "packet_number \<Rightarrow> mtime option"
  delivered :: u64
  ackinfo :: "bbrv3AckInfo list"
  maxDatagramSize :: byte_count
  nextSendTime :: mtime
  lastNewMinRTT :: duration
  lastNewMinRTTTime :: mtime
  stats :: "BBRv3Stats option"
  totalBytesSent :: u64
  totalBytesLost :: u64
  retransmitCount :: u64

text \<open>\<^verbatim>\<open>float64(x)\<close> of a \<^verbatim>\<open>uint64\<close>, \<^verbatim>\<open>uint64(x)\<close> of a \<^verbatim>\<open>float64\<close> and of an \<^verbatim>\<open>int64\<close>, and \<^verbatim>\<open>Duration.Seconds()\<close>.\<close>

abbreviation fl :: "u64 \<Rightarrow> gofloat" where "fl w \<equiv> float64 (uint w)"
abbreviation u64_of :: "platform \<Rightarrow> gofloat \<Rightarrow> u64" where "u64_of pl x \<equiv> to_uint64 (conv_u64 pl) x"
abbreviation fm :: "gofloat \<Rightarrow> gofloat \<Rightarrow> gofloat" where "fm \<equiv> fmul binary64"

definition Seconds :: "duration \<Rightarrow> gofloat" where
  "Seconds d = fadd binary64 (float64 (go_div d Second)) (fdiv binary64 (float64 (go_mod d Second)) (Fin 1000000000))"

section \<open>Rounds, gains and signals\<close>

definition EnableStats :: "BBRv3Sender \<Rightarrow> BBRv3StatsConfig \<Rightarrow> mtime \<Rightarrow> BBRv3Sender" where
  "EnableStats b cfg now = b\<lparr>stats := Some (NewBBRv3Stats cfg now)\<rparr>"

definition DisableStats :: "BBRv3Sender \<Rightarrow> BBRv3Sender" where
  "DisableStats b = b\<lparr>stats := map_option (\<lambda>s. stats_SetEnabled s False) (stats b)\<rparr>"

definition initRoundCounting :: "BBRv3Sender \<Rightarrow> BBRv3Sender" where
  "initRoundCounting b = b\<lparr>round := \<lparr>roundCount = 0, isRoundStart = False, nextRoundDelivered = delivered b\<rparr>\<rparr>"

definition startRound :: "BBRv3Sender \<Rightarrow> BBRv3Sender" where
  "startRound b = b\<lparr>round := (round b)\<lparr>nextRoundDelivered := delivered b\<rparr>\<rparr>"

definition updateRound :: "BBRv3Sender \<Rightarrow> BBRv3Sender" where
  "updateRound b =
     (let maxDelivered = foldl (\<lambda>acc info. if ai_delivered info > acc then ai_delivered info else acc) 0 (ackinfo b) in
      if maxDelivered \<ge> nextRoundDelivered (round b) then
        let b = startRound b in
        b\<lparr>round := (round b)\<lparr>roundCount := roundCount (round b) + 1, isRoundStart := True\<rparr>,
          roundsSinceBwProbe := roundsSinceBwProbe b + 1, packetConservation := False\<rparr>
      else b\<lparr>round := (round b)\<lparr>isRoundStart := False\<rparr>\<rparr>)"

definition initFullPipe :: "BBRv3Sender \<Rightarrow> BBRv3Sender" where
  "initFullPipe b = b\<lparr>fullPipe := \<lparr>filledPipe = False, fullBw = 0, fullBwCount = 0\<rparr>\<rparr>"

definition initPacingRate :: "platform \<Rightarrow> BBRv3Sender \<Rightarrow> BBRv3Sender" where
  "initPacingRate pl b =
     (let nominalBandwidth = fdiv binary64 (fl (initialCwnd (config b))) (Seconds (initialRtt (config b)));
          rate = u64_of pl (fm startupPacingGain nominalBandwidth)
      in b\<lparr>pacingRate := rate, bw := rate, maxBw := rate\<rparr>)"

definition updateGains :: "BBRv3Sender \<Rightarrow> BBRv3Sender" where
  "updateGains b =
     (case state b of
        bbrv3StateStartup \<Rightarrow> b\<lparr>pacingGain := lit (277 / 100), cwndGain := lit 2\<rparr>
      | bbrv3StateDrain \<Rightarrow> b\<lparr>pacingGain := lit (1 / 2), cwndGain := lit 2\<rparr>
      | bbrv3StateProbeBwDown \<Rightarrow> b\<lparr>pacingGain := lit (9 / 10), cwndGain := lit 2\<rparr>
      | bbrv3StateProbeBwCruise \<Rightarrow> b\<lparr>pacingGain := lit 1, cwndGain := lit 2\<rparr>
      | bbrv3StateProbeBwRefill \<Rightarrow> b\<lparr>pacingGain := lit 1, cwndGain := lit 2\<rparr>
      | bbrv3StateProbeBwUp \<Rightarrow> b\<lparr>pacingGain := lit (5 / 4), cwndGain := lit (9 / 4)\<rparr>
      | bbrv3StateProbeRTT \<Rightarrow> b\<lparr>pacingGain := lit 1, cwndGain := lit (1 / 2)\<rparr>)"

definition enterStartup :: "BBRv3Sender \<Rightarrow> BBRv3Sender" where
  "enterStartup b = updateGains (b\<lparr>state := bbrv3StateStartup\<rparr>)"

definition enterDrain :: "BBRv3Sender \<Rightarrow> BBRv3Sender" where
  "enterDrain b = updateGains (b\<lparr>state := bbrv3StateDrain\<rparr>)"

definition enterProbeRtt :: "BBRv3Sender \<Rightarrow> BBRv3Sender" where
  "enterProbeRtt b = updateGains (b\<lparr>state := bbrv3StateProbeRTT\<rparr>)"

definition resetCongestionSignals :: "BBRv3Sender \<Rightarrow> BBRv3Sender" where
  "resetCongestionSignals b = b\<lparr>lossInRound := False, bwLatest := 0, inflightLatest := 0\<rparr>"

definition resetLowerBounds :: "BBRv3Sender \<Rightarrow> BBRv3Sender" where
  "resetLowerBounds b = b\<lparr>bwLo := no_bound, inflightLo := no_bound\<rparr>"

definition initLowerBounds :: "BBRv3Sender \<Rightarrow> BBRv3Sender" where
  "initLowerBounds b =
     b\<lparr>bwLo := (if bwLo b = no_bound then maxBw b else bwLo b),
       inflightLo := (if inflightLo b = no_bound then cwnd b else inflightLo b)\<rparr>"

definition lossLowerBounds :: "platform \<Rightarrow> BBRv3Sender \<Rightarrow> BBRv3Sender" where
  "lossLowerBounds pl b =
     b\<lparr>bwLo := (if bwLatest b > bwLo b then bwLatest b else u64_of pl (fm (fl (bwLo b)) (beta (config b)))),
       inflightLo := (if inflightLatest b > inflightLo b then inflightLatest b
                      else u64_of pl (fm (fl (inflightLo b)) (beta (config b))))\<rparr>"

definition boundBwForModel :: "BBRv3Sender \<Rightarrow> BBRv3Sender" where
  "boundBwForModel b =
     (let b = b\<lparr>bw := maxBw b\<rparr>;
          b = (if bwLo b < bw b then b\<lparr>bw := bwLo b\<rparr> else b)
      in if bwHi b < bw b then b\<lparr>bw := bwHi b\<rparr> else b)"

section \<open>Construction\<close>

definition init :: "platform \<Rightarrow> BBRv3Sender \<Rightarrow> mtime \<Rightarrow> BBRv3Sender" where
  "init pl b now =
     (let b = b\<lparr>minRtt := initialRtt (config b)\<rparr>;
          b = (if minRtt b = 0 then b\<lparr>minRtt := Microsecond\<rparr> else b);
          b = b\<lparr>minRttStamp := now, probeRttDoneStamp := 0, probeRttRoundDone := False, priorCwnd := 0,
                idleRestart := False, extraAckedIntervalStart := now, extraAckedDelivered := 0,
                ackPhase := ackProbePhaseInit, bwHi := no_bound, inflightHi := no_bound\<rparr>
      in enterStartup (initPacingRate pl (initFullPipe (initRoundCounting (resetLowerBounds (resetCongestionSignals b))))))"

definition newConfig :: "u64 \<Rightarrow> bbrv3Config" where
  "newConfig sz =
     \<lparr>minCwnd = minPipeCwndInSmss * sz, initialCwnd = defaultInitialCwnd * sz, initialRtt = 100 * Millisecond,
      cfg_maxDatagramSize = sz, fullBwCountThreshold = fullBwCountThresholdConst,
      fullBwGrowthRate = fullBwGrowthRateConst, probeRttDuration = probeRttDurationConst,
      probeRttInterval = probeRttIntervalConst, lossThreshold = lossThresh, fullLossCount = fullLossCnt,
      beta = betaFactor, headroom = headroomFactor\<rparr>"

definition NewBBRv3Sender :: "platform \<Rightarrow> byte_count \<Rightarrow> mtime \<Rightarrow> mtime \<Rightarrow> BBRv3Sender" where
  "NewBBRv3Sender pl initialMaxDatagramSize now now2 =
     (let sz = (if word_of_int initialMaxDatagramSize = (0 :: u64) then defaultMaxDatagramSize
                  else word_of_int initialMaxDatagramSize);
          cfg = newConfig sz
      in init pl
        \<lparr>config = cfg, state = bbrv3StateStartup, pacingRate = 0, pacingGain = lit (277 / 100), sendQuantum = 0,
         cwnd = initialCwnd cfg, cwndGain = lit 2, packetConservation = False, priorCwnd = 0,
         round = \<lparr>roundCount = 0, isRoundStart = False, nextRoundDelivered = 0\<rparr>, idleRestart = False,
         maxBw = 0, bwHi = no_bound, bwLo = 0, bw = 0,
         minRtt = 10 * Second, minRttStamp = now, probeRttMinDelay = 10 * Second, probeRttMinStamp = now,
         probeRttExpired = False, bdpVal = 0, extraAcked = 0, offloadBudget = 0, maxInflight = 0,
         inflightHi = no_bound, inflightLo = 0, bwLatest = 0, inflightLatest = 0,
         maxBwFilter = \<lparr>bw0 = 0, bw1 = 0\<rparr>, extraAckedFilter = newMinMaxFilter extraAckedFilterLen,
         cycleCount = 0, cycleStamp = now, ackPhase = ackProbePhaseInit, extraAckedIntervalStart = now,
         extraAckedDelivered = 0, fullPipe = \<lparr>filledPipe = False, fullBw = 0, fullBwCount = 0\<rparr>,
         probeRttDoneStamp = now, probeRttRoundDone = False, roundsSinceBwProbe = 0, bwProbeWait = 1 * Second,
         bwProbeUpCnt = no_bound, bwProbeUpAcks = 0, bwProbeUpRounds = 0, bwProbeSamples = False,
         lossRoundStart = False, lossInRound = False, inRecoveryMode = False, lossRoundDelivered = 0,
         lossEventsInRound = 0, recoveryEpochStart = now, sentTimes = (\<lambda>_. None), delivered = 0, ackinfo = [],
         maxDatagramSize = initialMaxDatagramSize, nextSendTime = 0, lastNewMinRTT = 10 * Second,
         lastNewMinRTTTime = now, stats = None, totalBytesSent = 0, totalBytesLost = 0, retransmitCount = 0\<rparr>
        now2)"

section \<open>Bandwidth-delay product and in-flight targets\<close>

definition bdp :: "platform \<Rightarrow> BBRv3Sender \<Rightarrow> u64 \<Rightarrow> gofloat \<Rightarrow> u64 \<times> BBRv3Sender" where
  "bdp pl b w gain =
     (if minRtt b = 0 then (initialCwnd (config b), b)
      else let x = fm (fl w) (Seconds (minRtt b)) in (u64_of pl (fm gain x), b\<lparr>bdpVal := u64_of pl x\<rparr>))"

definition quantizationBudget :: "BBRv3Sender \<Rightarrow> u64 \<Rightarrow> u64 \<times> BBRv3Sender" where
  "quantizationBudget b x =
     (let b = b\<lparr>offloadBudget := 3 * sendQuantum b\<rparr>;
          x = max x (offloadBudget b);
          x = max x (minCwnd (config b));
          x = (if state b = bbrv3StateProbeBwUp then x + 2 * cfg_maxDatagramSize (config b) else x)
      in (x, b))"

definition inflight :: "platform \<Rightarrow> BBRv3Sender \<Rightarrow> gofloat \<Rightarrow> u64 \<times> BBRv3Sender" where
  "inflight pl b gain = (case bdp pl b (maxBw b) gain of (x, b) \<Rightarrow> quantizationBudget b x)"

definition inflightWithHeadroom :: "platform \<Rightarrow> BBRv3Sender \<Rightarrow> u64" where
  "inflightWithHeadroom pl b =
     (if inflightHi b = no_bound then no_bound
      else
        let h = u64_of pl (fm (fl (inflightHi b)) (headroom (config b)));
            h = (if h < 1 then 1 else h)
        in if inflightHi b > h then max (inflightHi b - h) (minCwnd (config b)) else minCwnd (config b))"

definition targetInflight :: "BBRv3Sender \<Rightarrow> u64" where
  "targetInflight b = (if bdpVal b < cwnd b then bdpVal b else cwnd b)"

definition isFilledPipe :: "BBRv3Sender \<Rightarrow> bool" where
  "isFilledPipe b = filledPipe (fullPipe b)"

definition isInProbeBwState :: "BBRv3Sender \<Rightarrow> bool" where
  "isInProbeBwState b \<longleftrightarrow>
     state b \<in> {bbrv3StateProbeBwDown, bbrv3StateProbeBwCruise, bbrv3StateProbeBwRefill, bbrv3StateProbeBwUp}"

definition isProbingBw :: "BBRv3Sender \<Rightarrow> bool" where
  "isProbingBw b \<longleftrightarrow> state b \<in> {bbrv3StateStartup, bbrv3StateProbeBwRefill, bbrv3StateProbeBwUp}"

section \<open>The state machine\<close>

definition checkStartupFullBandwidth :: "platform \<Rightarrow> BBRv3Sender \<Rightarrow> BBRv3Sender" where
  "checkStartupFullBandwidth pl b =
     (if isFilledPipe b \<or> \<not> isRoundStart (round b) then b
      else if maxBw b \<ge> u64_of pl (fm (fl (fullBw (fullPipe b))) (fadd binary64 (lit 1) (fullBwGrowthRate (config b))))
      then b\<lparr>fullPipe := (fullPipe b)\<lparr>fullBw := maxBw b, fullBwCount := 0\<rparr>\<rparr>
      else
        let b = b\<lparr>fullPipe := (fullPipe b)\<lparr>fullBwCount := fullBwCount (fullPipe b) + 1\<rparr>\<rparr> in
        if fullBwCount (fullPipe b) \<ge> fullBwCountThreshold (config b)
        then b\<lparr>fullPipe := (fullPipe b)\<lparr>filledPipe := True\<rparr>\<rparr> else b)"

definition checkStartupHighLoss :: "BBRv3Sender \<Rightarrow> BBRv3Sender" where
  "checkStartupHighLoss b = b"

definition checkStartupDone :: "platform \<Rightarrow> BBRv3Sender \<Rightarrow> BBRv3Sender" where
  "checkStartupDone pl b =
     (let b = checkStartupHighLoss (checkStartupFullBandwidth pl b) in
      if state b = bbrv3StateStartup \<and> filledPipe (fullPipe b) then enterDrain b else b)"

definition pickProbeWait :: "BBRv3Sender \<Rightarrow> BBRv3Sender" where
  "pickProbeWait b = b\<lparr>roundsSinceBwProbe := 0, bwProbeWait := 2500 * Millisecond\<rparr>"

definition startProbeBwDown :: "BBRv3Sender \<Rightarrow> mtime \<Rightarrow> BBRv3Sender" where
  "startProbeBwDown b now =
     (let b = resetCongestionSignals b;
          b = pickProbeWait (b\<lparr>bwProbeUpCnt := no_bound\<rparr>);
          b = startRound (b\<lparr>cycleStamp := now, ackPhase := ackProbePhaseStopping\<rparr>)
      in b\<lparr>state := bbrv3StateProbeBwDown\<rparr>)"

definition enterProbeBw :: "BBRv3Sender \<Rightarrow> mtime \<Rightarrow> BBRv3Sender" where
  "enterProbeBw b now = startProbeBwDown b now"

definition checkDrain :: "platform \<Rightarrow> BBRv3Sender \<Rightarrow> u64 \<Rightarrow> mtime \<Rightarrow> BBRv3Sender" where
  "checkDrain pl b bytesInFlight now =
     (if state b = bbrv3StateDrain then
        case inflight pl b (lit 1) of (x, b) \<Rightarrow> if bytesInFlight \<le> x then enterProbeBw b now else b
      else b)"

definition startProbeBwCruise :: "BBRv3Sender \<Rightarrow> BBRv3Sender" where
  "startProbeBwCruise b = b\<lparr>state := bbrv3StateProbeBwCruise\<rparr>"

definition startProbeBwRefill :: "BBRv3Sender \<Rightarrow> BBRv3Sender" where
  "startProbeBwRefill b =
     (let b = resetLowerBounds b;
          b = startRound (b\<lparr>bwProbeUpRounds := 0, bwProbeUpAcks := 0, ackPhase := ackProbePhaseRefilling\<rparr>)
      in b\<lparr>state := bbrv3StateProbeBwRefill\<rparr>)"

definition raiseInflightHiSlope :: "BBRv3Sender \<Rightarrow> BBRv3Sender" where
  "raiseInflightHiSlope b =
     (let growthThisRound = push_bit (unat (bwProbeUpRounds b)) (1 :: u64);
          b = (if bwProbeUpRounds b < 30 then b\<lparr>bwProbeUpRounds := bwProbeUpRounds b + 1\<rparr> else b)
      in if growthThisRound > 0
         then (let n = cwnd b div growthThisRound in b\<lparr>bwProbeUpCnt := (if n < 1 then 1 else n)\<rparr>)
         else b)"

definition startProbeBwUp :: "BBRv3Sender \<Rightarrow> mtime \<Rightarrow> BBRv3Sender" where
  "startProbeBwUp b now =
     (let b = startRound (b\<lparr>ackPhase := ackProbePhaseStarting\<rparr>);
          b = b\<lparr>fullPipe := (fullPipe b)\<lparr>fullBw := maxBw b\<rparr>, cycleStamp := now, state := bbrv3StateProbeBwUp\<rparr>
      in raiseInflightHiSlope b)"

definition hasElapsedInPhase :: "BBRv3Sender \<Rightarrow> mtime \<Rightarrow> duration \<Rightarrow> bool" where
  "hasElapsedInPhase b now interval \<longleftrightarrow> monotime_Sub now (cycleStamp b) \<ge> interval"

definition isRenoCoexistenceProbeTime :: "BBRv3Sender \<Rightarrow> bool" where
  "isRenoCoexistenceProbeTime b \<longleftrightarrow>
     (let rounds = (if targetInflight b > probeBwMaxRounds then probeBwMaxRounds else targetInflight b)
      in roundsSinceBwProbe b \<ge> rounds)"

definition checkTimeToProbeBw :: "BBRv3Sender \<Rightarrow> mtime \<Rightarrow> bool \<times> BBRv3Sender" where
  "checkTimeToProbeBw b now =
     (if hasElapsedInPhase b now (bwProbeWait b) \<or> isRenoCoexistenceProbeTime b
      then (True, startProbeBwRefill b) else (False, b))"

definition checkTimeToCruise :: "platform \<Rightarrow> BBRv3Sender \<Rightarrow> u64 \<Rightarrow> bool \<times> BBRv3Sender" where
  "checkTimeToCruise pl b bytesInFlight =
     (if bytesInFlight > inflightWithHeadroom pl b then (False, b)
      else case inflight pl b (lit 1) of (x, b) \<Rightarrow> (bytesInFlight \<le> x, b))"

definition probeInflightHiUpward :: "BBRv3Sender \<Rightarrow> bool \<Rightarrow> BBRv3Sender go" where
  "probeInflightHiUpward b isCwndLimited =
     (if \<not> isCwndLimited \<or> cwnd b < inflightHi b then Inr b
      else
        let b = b\<lparr>bwProbeUpAcks := bwProbeUpAcks b + cfg_maxDatagramSize (config b)\<rparr> in
        go_bind
          (if bwProbeUpAcks b \<ge> bwProbeUpCnt b then
             (if bwProbeUpCnt b = 0 then Inl ''integer divide by zero''
              else
                let delta = bwProbeUpAcks b div bwProbeUpCnt b in
                Inr (b\<lparr>bwProbeUpAcks := bwProbeUpAcks b mod bwProbeUpCnt b,
                       inflightHi := inflightHi b + delta * cfg_maxDatagramSize (config b)\<rparr>))
           else Inr b)
          (\<lambda>b. Inr (if isRoundStart (round b) then raiseInflightHiSlope b else b)))"

definition checkInflightTooHigh :: "BBRv3Sender \<Rightarrow> bool" where
  "checkInflightTooHigh b = False"

definition advanceMaxBwFilter :: "BBRv3Sender \<Rightarrow> BBRv3Sender" where
  "advanceMaxBwFilter b =
     (let b = b\<lparr>cycleCount := cycleCount b + 1\<rparr> in
      if bw1 (maxBwFilter b) = 0 then b else b\<lparr>maxBwFilter := \<lparr>bw0 = bw1 (maxBwFilter b), bw1 = 0\<rparr>\<rparr>)"

definition adaptUpperBounds :: "BBRv3Sender \<Rightarrow> BBRv3Sender go" where
  "adaptUpperBounds b =
     (let b = (if ackPhase b = ackProbePhaseStarting \<and> isRoundStart (round b)
               then b\<lparr>ackPhase := ackProbePhaseFeedback\<rparr> else b);
          b = (if ackPhase b = ackProbePhaseStopping \<and> isRoundStart (round b)
               then let b = b\<lparr>bwProbeSamples := False, ackPhase := ackProbePhaseInit\<rparr>
                    in if isInProbeBwState b \<and> maxBw b > 0 then advanceMaxBwFilter b else b
               else b)
      in if \<not> checkInflightTooHigh b \<and> inflightHi b = no_bound then Inr b
         else if state b = bbrv3StateProbeBwUp then probeInflightHiUpward b True else Inr b)"

definition updateProbeBwCyclePhase :: "platform \<Rightarrow> BBRv3Sender \<Rightarrow> mtime \<Rightarrow> u64 \<Rightarrow> BBRv3Sender go" where
  "updateProbeBwCyclePhase pl b now bytesInFlight =
     (if \<not> isFilledPipe b then Inr b
      else go_bind (adaptUpperBounds b) (\<lambda>b. Inr (
        if \<not> isInProbeBwState b then b
        else case state b of
            bbrv3StateProbeBwDown \<Rightarrow>
              (case checkTimeToProbeBw b now of (probe, b) \<Rightarrow>
                 if probe then b
                 else case checkTimeToCruise pl b bytesInFlight of (cruise, b) \<Rightarrow>
                   if cruise then startProbeBwCruise b else b)
          | bbrv3StateProbeBwCruise \<Rightarrow> snd (checkTimeToProbeBw b now)
          | bbrv3StateProbeBwRefill \<Rightarrow>
              (if isRoundStart (round b) then startProbeBwUp (b\<lparr>bwProbeSamples := True\<rparr>) now else b)
          | bbrv3StateProbeBwUp \<Rightarrow>
              (if hasElapsedInPhase b now (minRtt b) then
                 case inflight pl b (pacingGain b) of (x, b) \<Rightarrow>
                   if bytesInFlight > x then startProbeBwDown b now else b
               else b)
          | _ \<Rightarrow> b)))"

section \<open>ProbeRTT\<close>

definition updateMinRtt :: "BBRv3Sender \<Rightarrow> mtime \<Rightarrow> BBRv3Sender" where
  "updateMinRtt b now =
     (let elapsed = monotime_Sub now (probeRttMinStamp b);
          b = b\<lparr>probeRttExpired := elapsed > probeRttInterval (config b)\<rparr>
      in if minRtt b = 0 \<or> probeRttExpired b then b\<lparr>minRtt := initialRtt (config b), minRttStamp := now\<rparr> else b)"

definition saveCwnd :: "BBRv3Sender \<Rightarrow> BBRv3Sender" where
  "saveCwnd b =
     (if \<not> inRecoveryMode b \<and> state b \<noteq> bbrv3StateProbeRTT then b\<lparr>priorCwnd := cwnd b\<rparr>
      else if cwnd b > priorCwnd b then b\<lparr>priorCwnd := cwnd b\<rparr> else b)"

definition restoreCwnd :: "BBRv3Sender \<Rightarrow> BBRv3Sender" where
  "restoreCwnd b = (if cwnd b < priorCwnd b then b\<lparr>cwnd := priorCwnd b\<rparr> else b)"

definition exitProbeRtt :: "BBRv3Sender \<Rightarrow> mtime \<Rightarrow> BBRv3Sender" where
  "exitProbeRtt b now =
     (let b = resetLowerBounds b in
      if isFilledPipe b then startProbeBwCruise (startProbeBwDown b now) else enterStartup b)"

definition checkProbeRttDone :: "BBRv3Sender \<Rightarrow> mtime \<Rightarrow> BBRv3Sender" where
  "checkProbeRttDone b now =
     (if probeRttDoneStamp b > 0 \<and> monotime_Sub now (probeRttDoneStamp b) \<ge> 0
      then exitProbeRtt (restoreCwnd (b\<lparr>probeRttMinStamp := now\<rparr>)) now else b)"

definition probeRttCwnd :: "platform \<Rightarrow> BBRv3Sender \<Rightarrow> u64 \<times> BBRv3Sender" where
  "probeRttCwnd pl b = bdp pl b (bw b) (cwndGain b)"

definition handleProbeRtt :: "platform \<Rightarrow> BBRv3Sender \<Rightarrow> mtime \<Rightarrow> u64 \<Rightarrow> BBRv3Sender" where
  "handleProbeRtt pl b now bytesInFlight =
     (if probeRttDoneStamp b > 0 then
        let b = (if isRoundStart (round b) then b\<lparr>probeRttRoundDone := True\<rparr> else b)
        in if probeRttRoundDone b then checkProbeRttDone b now else b
      else case probeRttCwnd pl b of (limit, b) \<Rightarrow>
        if bytesInFlight \<le> limit
        then startRound (b\<lparr>probeRttDoneStamp := monotime_Add now (probeRttDuration (config b)), probeRttRoundDone := False\<rparr>)
        else b)"

definition checkProbeRtt :: "platform \<Rightarrow> BBRv3Sender \<Rightarrow> mtime \<Rightarrow> u64 \<Rightarrow> BBRv3Sender" where
  "checkProbeRtt pl b now bytesInFlight =
     (let b = (if state b \<noteq> bbrv3StateProbeRTT \<and> probeRttExpired b \<and> \<not> idleRestart b
               then let b = saveCwnd (enterProbeRtt b)
                    in startRound (b\<lparr>probeRttDoneStamp := 0, ackPhase := ackProbePhaseStopping\<rparr>)
               else b)
      in if state b = bbrv3StateProbeRTT then handleProbeRtt pl b now bytesInFlight else b)"

section \<open>Recovery and control parameters\<close>

definition enterRecovery :: "BBRv3Sender \<Rightarrow> mtime \<Rightarrow> BBRv3Sender" where
  "enterRecovery b now =
     (let b = saveCwnd b in
      startRound (b\<lparr>recoveryEpochStart := now, cwnd := minCwnd (config b) + cfg_maxDatagramSize (config b),
        packetConservation := True, inRecoveryMode := True\<rparr>))"

definition exitRecovery :: "BBRv3Sender \<Rightarrow> BBRv3Sender" where
  "exitRecovery b =
     restoreCwnd (b\<lparr>recoveryEpochStart := 0, packetConservation := False, inRecoveryMode := False\<rparr>)"

definition isInRecovery :: "BBRv3Sender \<Rightarrow> mtime \<Rightarrow> bool" where
  "isInRecovery b sentTime \<longleftrightarrow> recoveryEpochStart b > 0 \<and> sentTime \<ge> recoveryEpochStart b"

definition setPacingRateWithGain :: "platform \<Rightarrow> BBRv3Sender \<Rightarrow> gofloat \<Rightarrow> BBRv3Sender" where
  "setPacingRateWithGain pl b gain =
     (let rate = u64_of pl (fm (fm gain (fl (bw b))) oneMinusPacingMargin)
      in if isFilledPipe b \<or> rate > pacingRate b then b\<lparr>pacingRate := rate\<rparr> else b)"

definition setPacingRate :: "platform \<Rightarrow> BBRv3Sender \<Rightarrow> BBRv3Sender" where
  "setPacingRate pl b = setPacingRateWithGain pl b (pacingGain b)"

definition setSendQuantum :: "BBRv3Sender \<Rightarrow> BBRv3Sender" where
  "setSendQuantum b =
     (let floor = (if pacingRate b < sendQuantumThresholdPacing then cfg_maxDatagramSize (config b)
                   else 2 * cfg_maxDatagramSize (config b));
          quantum = pacingRate b div 1000;
          quantum = (if quantum < floor then floor else quantum);
          quantum = (if quantum > 64 * 1024 then 64 * 1024 else quantum)
      in b\<lparr>sendQuantum := quantum\<rparr>)"

definition updateMaxInflight :: "platform \<Rightarrow> BBRv3Sender \<Rightarrow> BBRv3Sender" where
  "updateMaxInflight pl b =
     (case bdp pl b (maxBw b) (cwndGain b) of (x, b) \<Rightarrow>
      case mm_get (extraAckedFilter b) of (e, m) \<Rightarrow>
      case quantizationBudget (b\<lparr>extraAckedFilter := m\<rparr>) (x + e) of (x, b) \<Rightarrow> b\<lparr>maxInflight := x\<rparr>)"

definition modulateCwndForRecovery :: "BBRv3Sender \<Rightarrow> u64 \<Rightarrow> BBRv3Sender" where
  "modulateCwndForRecovery b bytesInFlight =
     (if packetConservation b \<and> cwnd b < bytesInFlight + cfg_maxDatagramSize (config b)
      then b\<lparr>cwnd := bytesInFlight + cfg_maxDatagramSize (config b)\<rparr> else b)"

definition boundCwndForProbeRtt :: "platform \<Rightarrow> BBRv3Sender \<Rightarrow> BBRv3Sender" where
  "boundCwndForProbeRtt pl b =
     (if state b = bbrv3StateProbeRTT then
        case probeRttCwnd pl b of (limit, b) \<Rightarrow> if cwnd b > limit then b\<lparr>cwnd := limit\<rparr> else b
      else b)"

definition boundCwndForModel :: "platform \<Rightarrow> BBRv3Sender \<Rightarrow> BBRv3Sender" where
  "boundCwndForModel pl b =
     (let cap = no_bound;
          cap = (if isInProbeBwState b \<and> state b \<noteq> bbrv3StateProbeBwCruise then min cap (inflightHi b)
                 else if state b = bbrv3StateProbeRTT \<or> state b = bbrv3StateProbeBwCruise
                 then min cap (inflightWithHeadroom pl b) else cap);
          cap = min cap (inflightLo b);
          cap = max cap (minCwnd (config b))
      in if cwnd b > cap then b\<lparr>cwnd := cap\<rparr> else b)"

text \<open>The branches that test \<open>cwnd < maxInflight\<close> hold only comments in the source, so they change nothing.\<close>

definition setCwnd :: "platform \<Rightarrow> BBRv3Sender \<Rightarrow> u64 \<Rightarrow> BBRv3Sender" where
  "setCwnd pl b bytesInFlight =
     (let b = modulateCwndForRecovery (updateMaxInflight pl b) bytesInFlight;
          b = (if \<not> packetConservation b then
                 (if cwnd b < minCwnd (config b) then b\<lparr>cwnd := minCwnd (config b)\<rparr> else b)
               else b)
      in boundCwndForModel pl (boundCwndForProbeRtt pl b))"

definition updateLatestDeliverySignals :: "BBRv3Sender \<Rightarrow> BBRv3Sender" where
  "updateLatestDeliverySignals b = b\<lparr>lossRoundStart := False\<rparr>"

definition advanceLatestDeliverySignals :: "BBRv3Sender \<Rightarrow> BBRv3Sender" where
  "advanceLatestDeliverySignals b = b"

definition updateMaxBw :: "BBRv3Sender \<Rightarrow> BBRv3Sender" where
  "updateMaxBw b = b"

definition updateCongestionSignals :: "BBRv3Sender \<Rightarrow> BBRv3Sender" where
  "updateCongestionSignals b = updateMaxBw b"

definition updateAckAggregation :: "BBRv3Sender \<Rightarrow> mtime \<Rightarrow> BBRv3Sender" where
  "updateAckAggregation b now = b\<lparr>extraAcked := 0\<rparr>"

definition updateModelAndState :: "platform \<Rightarrow> BBRv3Sender \<Rightarrow> mtime \<Rightarrow> u64 \<Rightarrow> mtime \<Rightarrow> BBRv3Sender go" where
  "updateModelAndState pl b now bytesInFlight clock =
     (let b = updateAckAggregation (updateCongestionSignals (updateLatestDeliverySignals b)) now;
          b = checkDrain pl (checkStartupDone pl b) bytesInFlight clock
      in go_bind (updateProbeBwCyclePhase pl b now bytesInFlight) (\<lambda>b.
           Inr (boundBwForModel (advanceLatestDeliverySignals (checkProbeRtt pl (updateMinRtt b now) now bytesInFlight)))))"

definition updateControlParameters :: "platform \<Rightarrow> BBRv3Sender \<Rightarrow> BBRv3Sender" where
  "updateControlParameters pl b = setSendQuantum (setPacingRate pl b)"

section \<open>The interface of the congestion controller\<close>

definition TimeUntilSend :: "BBRv3Sender \<Rightarrow> byte_count \<Rightarrow> mtime" where
  "TimeUntilSend b bytesInFlight = nextSendTime b"

definition exitProbeRTTFromAbove :: "BBRv3Sender \<Rightarrow> mtime \<Rightarrow> BBRv3Sender" where
  "exitProbeRTTFromAbove b now =
     (if isFilledPipe b then startProbeBwCruise (startProbeBwDown b now) else enterStartup b)"

definition maybeExitProbeRTT :: "BBRv3Sender \<Rightarrow> mtime \<Rightarrow> BBRv3Sender" where
  "maybeExitProbeRTT b now =
     (if state b = bbrv3StateProbeRTT \<and> probeRttDoneStamp b > 0 \<and>
         monotime_Sub now (probeRttDoneStamp b) \<ge> probeRttDuration (config b)
      then exitProbeRTTFromAbove b now else b)"

definition HasPacingBudget :: "BBRv3Sender \<Rightarrow> mtime \<Rightarrow> bool \<times> BBRv3Sender" where
  "HasPacingBudget b now = (True, maybeExitProbeRTT b now)"

definition OnPacketSent ::
  "platform \<Rightarrow> BBRv3Sender \<Rightarrow> mtime \<Rightarrow> byte_count \<Rightarrow> packet_number \<Rightarrow> byte_count \<Rightarrow> bool \<Rightarrow> BBRv3Sender" where
  "OnPacketSent pl b sentTime bytesInFlight packetNumber bytes isRetransmittable =
     (let b = b\<lparr>sentTimes := (sentTimes b)(packetNumber \<mapsto> sentTime)\<rparr>;
          b = (if isRetransmittable
               then b\<lparr>totalBytesSent := totalBytesSent b + word_of_int bytes,
                      stats := map_option (\<lambda>s. stats_AddBytesSent s (word_of_int bytes)) (stats b)\<rparr>
               else b)
      in if pacingRate b > 0 then
           let timePerByte = fdiv binary64 (float64 Second) (fm (fl (pacingRate b)) (pacingGain b))
           in b\<lparr>nextSendTime := monotime_Add sentTime (to_int64 (conv_i64 pl) (fm (float64 bytes) timePerByte))\<rparr>
         else b)"

definition CanSend :: "BBRv3Sender \<Rightarrow> byte_count \<Rightarrow> bool" where
  "CanSend b bytesInFlight \<longleftrightarrow> word_of_int bytesInFlight < cwnd b"

definition MaybeExitSlowStart :: "BBRv3Sender \<Rightarrow> BBRv3Sender" where
  "MaybeExitSlowStart b = b"

definition calculateDeliveryRate :: "platform \<Rightarrow> BBRv3Sender \<Rightarrow> mtime \<Rightarrow> u64" where
  "calculateDeliveryRate pl b eventTime =
     (case ackinfo b of
        [] \<Rightarrow> 0
      | oldest # _ \<Rightarrow>
          let interval = i64 (eventTime - ai_recordTime oldest) in
          if interval \<le> 0 then 0
          else
            let totalBytes = foldl (\<lambda>acc info. i64 (acc + ai_ackedBytes info)) 0 (ackinfo b)
            in u64_of pl (fdiv binary64 (float64 totalBytes) (Seconds interval)))"

definition updateMaxBwFilter :: "BBRv3Sender \<Rightarrow> BBRv3Sender" where
  "updateMaxBwFilter b =
     (if bw1 (maxBwFilter b) = 0 then b
      else
        let b = b\<lparr>maxBwFilter := \<lparr>bw0 = bw1 (maxBwFilter b), bw1 = 0\<rparr>\<rparr>
        in b\<lparr>maxBw := filter_maxBw (maxBwFilter b)\<rparr>)"

definition state_string :: "bbrv3State \<Rightarrow> string" where
  "state_string s =
     (case s of
        bbrv3StateStartup \<Rightarrow> ''Startup''
      | bbrv3StateDrain \<Rightarrow> ''Drain''
      | bbrv3StateProbeBwDown \<Rightarrow> ''ProbeBW-Down''
      | bbrv3StateProbeBwCruise \<Rightarrow> ''ProbeBW-Cruise''
      | bbrv3StateProbeBwRefill \<Rightarrow> ''ProbeBW-Refill''
      | bbrv3StateProbeBwUp \<Rightarrow> ''ProbeBW-Up''
      | bbrv3StateProbeRTT \<Rightarrow> ''ProbeRTT'')"

text \<open>\<open>since\<close> and \<open>now\<close> are the readings of the wall clock by \<^verbatim>\<open>ShouldLog\<close> and by \<^verbatim>\<open>Log\<close>.\<close>

definition updateAndLogStats :: "BBRv3Sender \<Rightarrow> mtime \<Rightarrow> mtime \<Rightarrow> BBRv3Sender" where
  "updateAndLogStats b since now =
     (case stats b of
        None \<Rightarrow> b
      | Some s \<Rightarrow>
          let s = stats_UpdateSSThresh (stats_UpdateCWND s (cwnd b)) (minCwnd (config b));
              s = stats_UpdateState (stats_UpdateTransmissionRate s (pacingRate b)) (state_string (state b));
              s = stats_UpdateBandwidth (stats_UpdatePacingRate s (pacingRate b)) (bw b);
              s = stats_UpdateMaxBandwidth s (maxBw b)
          in b\<lparr>stats := Some (if stats_ShouldLog s since then stats_Log s now else s)\<rparr>)"

text \<open>The readings of the clocks during \<^verbatim>\<open>OnPacketAcked\<close>: by \<^verbatim>\<open>enterProbeBw\<close> (twice), by \<^verbatim>\<open>ShouldLog\<close> and \<^verbatim>\<open>Log\<close>.\<close>

record clocks =
  clk1 :: mtime
  clk2 :: mtime
  clk_since :: mtime
  clk_log :: mtime

text \<open>The part of \<^verbatim>\<open>OnPacketAcked\<close> that records the acknowledgement.\<close>

definition recordAck :: "BBRv3Sender \<Rightarrow> packet_number \<Rightarrow> mtime \<Rightarrow> byte_count \<Rightarrow> mtime \<Rightarrow> BBRv3Sender go" where
  "recordAck b number sentTime ackedBytes eventTime =
     (let b = b\<lparr>sentTimes := (sentTimes b)(number := None)\<rparr>;
          rtt = i64 (eventTime - sentTime)
      in go_bind (case stats b of None \<Rightarrow> Inr b | Some s \<Rightarrow> go_bind (stats_UpdateRTT s rtt) (\<lambda>s. Inr (b\<lparr>stats := Some s\<rparr>)))
        (\<lambda>b.
          let b = (if rtt > 0 \<and> (lastNewMinRTT b \<le> 0 \<or> rtt < lastNewMinRTT b)
                   then b\<lparr>lastNewMinRTT := rtt, lastNewMinRTTTime := eventTime, minRtt := rtt, minRttStamp := eventTime\<rparr>
                   else b);
              b = b\<lparr>delivered := delivered b + word_of_int ackedBytes\<rparr>;
              infos = ackinfo b @ [\<lparr>ai_ackedBytes = ackedBytes, ai_recordTime = eventTime, ai_delivered = delivered b\<rparr>];
              b = b\<lparr>ackinfo := (if length infos > 16 then drop (length infos - 16) infos else infos)\<rparr>
          in Inr (maybeExitProbeRTT b eventTime)))"

text \<open>The part that runs once per round trip.\<close>

definition onRound :: "platform \<Rightarrow> BBRv3Sender \<Rightarrow> byte_count \<Rightarrow> mtime \<Rightarrow> clocks \<Rightarrow> BBRv3Sender go" where
  "onRound pl b priorInFlight eventTime c =
     (let b = (if inRecoveryMode b then exitRecovery b else b) in
      go_bind (updateModelAndState pl b eventTime (word_of_int priorInFlight) (clk1 c)) (\<lambda>b.
        let b = updateControlParameters pl (updateGains b);
            b = checkStartupDone pl (setCwnd pl b (word_of_int priorInFlight));
            b = (if state b = bbrv3StateDrain then
                   case inflight pl b (lit 1) of (x, b) \<Rightarrow> if priorInFlight < sint x then enterProbeBw b (clk2 c) else b
                 else b);
            b = updateMaxBwFilter b
        in Inr (if monotime_Sub eventTime (minRttStamp b) \<ge> 10 * Second \<and>
                   monotime_Sub eventTime (probeRttDoneStamp b) \<ge> 10 * Second
                then b\<lparr>state := bbrv3StateProbeRTT, pacingGain := lit 1, cwndGain := lit 1, minRtt := 10 * Second,
                       probeRttDoneStamp := eventTime\<rparr>
                else b)))"

definition OnPacketAcked ::
  "platform \<Rightarrow> BBRv3Sender \<Rightarrow> packet_number \<Rightarrow> byte_count \<Rightarrow> byte_count \<Rightarrow> mtime \<Rightarrow> clocks \<Rightarrow> BBRv3Sender go" where
  "OnPacketAcked pl b number ackedBytes priorInFlight eventTime c =
     (case sentTimes b number of
        None \<Rightarrow> Inr b
      | Some sentTime \<Rightarrow>
          go_bind (recordAck b number sentTime ackedBytes eventTime) (\<lambda>b.
            if state b = bbrv3StateProbeRTT then Inr (updateAndLogStats b (clk_since c) (clk_log c))
            else
              let b = updateRound b;
                  deliveryRate = calculateDeliveryRate pl b eventTime;
                  b = (if deliveryRate > maxBw b \<or> (bw b > 0 \<and> deliveryRate > 0)
                       then b\<lparr>maxBw := deliveryRate, maxBwFilter := (maxBwFilter b)\<lparr>bw1 := deliveryRate\<rparr>\<rparr> else b)
              in go_bind
                   (if monotime_Sub eventTime (minRttStamp b) \<ge> minRtt b \<or> isRoundStart (round b)
                    then onRound pl b priorInFlight eventTime c else Inr b)
                   (\<lambda>b. Inr (updateAndLogStats b (clk_since c) (clk_log c)))))"

definition OnCongestionEvent ::
  "BBRv3Sender \<Rightarrow> packet_number \<Rightarrow> byte_count \<Rightarrow> byte_count \<Rightarrow> mtime \<Rightarrow> BBRv3Sender" where
  "OnCongestionEvent b number lostBytes priorInFlight now =
     (let b = b\<lparr>totalBytesLost := totalBytesLost b + word_of_int lostBytes, retransmitCount := retransmitCount b + 1,
               stats := map_option (\<lambda>s. stats_IncrementRetransmit (stats_AddBytesLost s (word_of_int lostBytes))) (stats b)\<rparr>;
          b = (if \<not> inRecoveryMode b \<and> state b \<noteq> bbrv3StateStartup \<and> state b \<noteq> bbrv3StateProbeRTT
               then enterRecovery (b\<lparr>inRecoveryMode := True, pacingGain := lit 1\<rparr>) now else b)
      in if cwnd b > word_of_int lostBytes then b\<lparr>cwnd := cwnd b - word_of_int lostBytes\<rparr>
         else b\<lparr>cwnd := minCwnd (config b)\<rparr>)"

definition OnRetransmissionTimeout :: "platform \<Rightarrow> BBRv3Sender \<Rightarrow> bool \<Rightarrow> mtime \<Rightarrow> mtime \<Rightarrow> BBRv3Sender" where
  "OnRetransmissionTimeout pl b packetsRetransmitted now now2 =
     (if packetsRetransmitted
      then (NewBBRv3Sender pl (maxDatagramSize b) now now2)\<lparr>config := config b, maxDatagramSize := maxDatagramSize b\<rparr>
      else b)"

definition SetMaxDatagramSize :: "BBRv3Sender \<Rightarrow> byte_count \<Rightarrow> BBRv3Sender" where
  "SetMaxDatagramSize b sz =
     b\<lparr>maxDatagramSize := sz,
       config := (config b)\<lparr>cfg_maxDatagramSize := word_of_int sz, minCwnd := minPipeCwndInSmss * word_of_int sz\<rparr>\<rparr>"

definition GetCongestionWindow :: "BBRv3Sender \<Rightarrow> byte_count" where
  "GetCongestionWindow b = sint (cwnd b)"

definition InRecovery :: "BBRv3Sender \<Rightarrow> bool" where
  "InRecovery b = inRecoveryMode b"

definition InSlowStart :: "BBRv3Sender \<Rightarrow> bool" where
  "InSlowStart b \<longleftrightarrow> state b = bbrv3StateStartup"

end
