(* ===== verification/BBRv3Proofs.thy ===== *)
theory BBRv3Proofs
  imports BBRv3
begin

text \<open>
  Runs of the BBRv3 sender of \<^verbatim>\<open>BBRv3\<close> and what holds on them: the invariant of the state machine, the bounds of the
  congestion window, and how ProbeRTT is left.
\<close>

section \<open>What the methods leave unchanged\<close>

text \<open>
  \<open>core\<close> collects the fields that only a few methods write; for each other method, one lemma says that it keeps them.
\<close>

type_synonym bbr_core = "bbrv3Config \<times> u64 \<times> u64 \<times> (u64 \<times> u64 \<times> u64 \<times> u64) \<times> bool \<times> (u64 \<times> u64) list \<times>
  bool \<times> bool \<times> nat \<times> byte_count"

definition core :: "BBRv3Sender \<Rightarrow> bbr_core" where
  "core b = (config b, cwnd b, priorCwnd b, (inflightHi b, inflightLo b, bwHi b, bwLo b), idleRestart b,
     mm_data (extraAckedFilter b), packetConservation b, inRecoveryMode b, length (ackinfo b), maxDatagramSize b)"


lemma core_startRound [simp]: "core (startRound b) = core b"
  by (simp add: core_def startRound_def)

lemma core_updateGains [simp]: "core (updateGains b) = core b"
  by (simp add: core_def updateGains_def split: bbrv3State.split)

lemma core_state_update [simp]: "core (b\<lparr>state := s\<rparr>) = core b"
  by (simp add: core_def)

lemma core_enter [simp]:
  "core (enterStartup b) = core b" "core (enterDrain b) = core b" "core (enterProbeRtt b) = core b"
  by (simp_all add: enterStartup_def enterDrain_def enterProbeRtt_def)

lemma core_down [simp]: "core (startProbeBwDown b now) = core b"
  by (simp add: startProbeBwDown_def Let_def core_def resetCongestionSignals_def pickProbeWait_def startRound_def)

lemma core_cruise [simp]: "core (startProbeBwCruise b) = core b"
  by (simp add: startProbeBwCruise_def)

lemma core_slope [simp]: "core (raiseInflightHiSlope b) = core b"
  by (simp add: raiseInflightHiSlope_def Let_def core_def)

lemma core_up [simp]: "core (startProbeBwUp b now) = core b"
  by (simp add: startProbeBwUp_def Let_def) (simp add: core_def startRound_def)

lemma core_bdp [simp]: "core (snd (bdp pl b w g)) = core b"
  by (simp add: bdp_def Let_def core_def)

lemma core_budget [simp]: "core (snd (quantizationBudget b x)) = core b"
  by (simp add: quantizationBudget_def Let_def core_def)

lemma core_inflight [simp]: "core (snd (inflight pl b g)) = core b"
  by (simp add: inflight_def split_beta)

lemma core_full [simp]: "core (checkStartupFullBandwidth pl b) = core b"
  by (simp add: checkStartupFullBandwidth_def Let_def core_def)

lemma core_startup [simp]: "core (checkStartupDone pl b) = core b"
  by (simp add: checkStartupDone_def checkStartupHighLoss_def Let_def)

lemma core_drain [simp]: "core (checkDrain pl b f now) = core b"
  by (simp add: checkDrain_def enterProbeBw_def split_beta)

lemma core_advance [simp]: "core (advanceMaxBwFilter b) = core b"
  by (simp add: advanceMaxBwFilter_def Let_def core_def)

lemma core_minRtt [simp]: "core (updateMinRtt b now) = core b"
  by (simp add: updateMinRtt_def Let_def core_def)

lemma core_boundBw [simp]: "core (boundBwForModel b) = core b"
  by (simp add: boundBwForModel_def Let_def core_def)

lemma core_control [simp]: "core (updateControlParameters pl b) = core b"
  by (simp add: updateControlParameters_def setSendQuantum_def setPacingRate_def setPacingRateWithGain_def Let_def core_def)

lemma core_maxInflight [simp]: "core (updateMaxInflight pl b) = core b"
  by (simp add: updateMaxInflight_def bdp_def quantizationBudget_def mm_get_def Let_def split_beta core_def)

lemma core_maxBwFilter [simp]: "core (updateMaxBwFilter b) = core b"
  by (simp add: updateMaxBwFilter_def Let_def core_def)

lemma core_log [simp]: "core (updateAndLogStats b t u) = core b"
  by (simp add: updateAndLogStats_def Let_def core_def split: option.split)

lemma core_exit_above [simp]: "core (exitProbeRTTFromAbove b now) = core b"
  by (simp add: exitProbeRTTFromAbove_def)

lemma core_maybe_exit [simp]: "core (maybeExitProbeRTT b now) = core b"
  by (simp add: maybeExitProbeRTT_def)

lemma core_sent [simp]: "core (OnPacketSent pl b t f n s r) = core b"
  by (simp add: OnPacketSent_def Let_def core_def)

text \<open>The upper and lower bounds of the model are never set, so resetting them changes nothing.\<close>

definition bounds_ok :: "BBRv3Sender \<Rightarrow> bool" where
  "bounds_ok b \<longleftrightarrow> inflightHi b = no_bound \<and> inflightLo b = no_bound \<and> bwHi b = no_bound \<and> bwLo b = no_bound \<and>
     \<not> idleRestart b \<and> mm_data (extraAckedFilter b) = []"

lemma bounds_ok_core: "core b = core c \<Longrightarrow> bounds_ok b \<longleftrightarrow> bounds_ok c"
  by (simp add: core_def bounds_ok_def)

lemma core_reset_bounds [simp]: "bounds_ok b \<Longrightarrow> core (resetLowerBounds b) = core b"
  by (simp add: bounds_ok_def resetLowerBounds_def core_def)

lemma core_refill [simp]: "bounds_ok b \<Longrightarrow> core (startProbeBwRefill b) = core b"
  by (simp add: bounds_ok_def startProbeBwRefill_def Let_def resetLowerBounds_def core_def startRound_def)

lemma core_probe [simp]: "bounds_ok b \<Longrightarrow> core (snd (checkTimeToProbeBw b now)) = core b"
  by (simp add: checkTimeToProbeBw_def)

lemma core_cruise_check [simp]: "core (snd (checkTimeToCruise pl b f)) = core b"
  by (simp add: checkTimeToCruise_def split_beta)

text \<open>Bandwidth and the start of the ProbeRTT interval change only at the end of a round.\<close>

definition slow :: "BBRv3Sender \<Rightarrow> u64 \<times> mtime" where
  "slow b = (bw b, probeRttMinStamp b)"

lemma slow_simps [simp]:
  "slow (startRound b) = slow b" "slow (resetLowerBounds b) = slow b" "slow (updateGains b) = slow b"
  "slow (b\<lparr>state := s\<rparr>) = slow b" "slow (startProbeBwDown b now) = slow b" "slow (startProbeBwCruise b) = slow b"
  "slow (startProbeBwRefill b) = slow b" "slow (raiseInflightHiSlope b) = slow b" "slow (startProbeBwUp b now) = slow b"
  "slow (snd (inflight pl b g)) = slow b" "slow (updateRound b) = slow b" "slow (advanceMaxBwFilter b) = slow b"
  "slow (exitRecovery b) = slow b" "slow (checkStartupFullBandwidth pl b) = slow b"
  by (simp_all add: slow_def startRound_def resetLowerBounds_def updateGains_def startProbeBwDown_def Let_def
      startProbeBwCruise_def startProbeBwRefill_def raiseInflightHiSlope_def startProbeBwUp_def inflight_def bdp_def
      quantizationBudget_def split_beta updateRound_def advanceMaxBwFilter_def exitRecovery_def restoreCwnd_def
      checkStartupFullBandwidth_def resetCongestionSignals_def pickProbeWait_def split: bbrv3State.split)

lemma slow_startup [simp]: "slow (checkStartupDone pl b) = slow b"
  by (simp add: checkStartupDone_def checkStartupHighLoss_def Let_def enterDrain_def)

lemma slow_drain [simp]: "slow (checkDrain pl b f now) = slow b"
  by (simp add: checkDrain_def enterProbeBw_def split_beta)

lemma adapt_upper:
  assumes "bounds_ok b"
  obtains b' where "adaptUpperBounds b = Inr b'" "core b' = core b" "state b' = state b" "fullPipe b' = fullPipe b"
    "bwProbeUpCnt b' = bwProbeUpCnt b" "probeRttDoneStamp b' = probeRttDoneStamp b" "slow b' = slow b"
proof -
  define b1 where "b1 = (if ackPhase b = ackProbePhaseStarting \<and> isRoundStart (round b)
    then b\<lparr>ackPhase := ackProbePhaseFeedback\<rparr> else b)"
  define b2 where "b2 = b1\<lparr>bwProbeSamples := False, ackPhase := ackProbePhaseInit\<rparr>"
  define b3 where "b3 = (if ackPhase b1 = ackProbePhaseStopping \<and> isRoundStart (round b1)
    then (if isInProbeBwState b2 \<and> maxBw b2 > 0 then advanceMaxBwFilter b2 else b2) else b1)"
  let ?f = "\<lambda>c. (core c, state c, fullPipe c, bwProbeUpCnt c, probeRttDoneStamp c, inflightHi c, slow c)"
  have f1: "?f b1 = ?f b" by (simp add: b1_def core_def slow_def)
  have "?f b2 = ?f b1" by (simp add: b2_def core_def slow_def)
  moreover have "?f (advanceMaxBwFilter b2) = ?f b2" by (simp add: advanceMaxBwFilter_def core_def Let_def slow_def)
  ultimately have f3: "?f b3 = ?f b" using f1 unfolding b3_def by (simp split: if_split)
  have "adaptUpperBounds b = (if inflightHi b3 = no_bound then Inr b3
      else if state b3 = bbrv3StateProbeBwUp then probeInflightHiUpward b3 True else Inr b3)"
    unfolding adaptUpperBounds_def Let_def checkInflightTooHigh_def b3_def b2_def b1_def by (simp only: simp_thms)
  then have "adaptUpperBounds b = Inr b3" using f3 assms by (simp add: bounds_ok_def)
  then show thesis using f3 by (intro that [of b3]) simp_all
qed

section \<open>The state machine\<close>

text \<open>Outside Startup and ProbeRTT the pipe was found to be full, and the divisor of \<open>probeInflightHiUpward\<close> is not zero.\<close>

definition machine_ok :: "BBRv3Sender \<Rightarrow> bool" where
  "machine_ok b \<longleftrightarrow> (state b = bbrv3StateStartup \<or> state b = bbrv3StateProbeRTT \<or> filledPipe (fullPipe b)) \<and> bwProbeUpCnt b \<noteq> 0"

definition mview :: "BBRv3Sender \<Rightarrow> bbrv3State \<times> bool \<times> u64" where
  "mview b = (state b, filledPipe (fullPipe b), bwProbeUpCnt b)"

lemma machine_ok_mview: "mview b = mview c \<Longrightarrow> machine_ok b \<longleftrightarrow> machine_ok c"
  by (simp add: mview_def machine_ok_def)

lemma mview_simps [simp]:
  "mview (startRound b) = mview b" "mview (resetLowerBounds b) = mview b" "mview (updateGains b) = mview b"
  "mview (updateRound b) = mview b" "mview (updateMinRtt b now) = mview b" "mview (saveCwnd b) = mview b"
  "mview (restoreCwnd b) = mview b" "mview (boundBwForModel b) = mview b" "mview (updateControlParameters pl b) = mview b"
  "mview (updateMaxBwFilter b) = mview b" "mview (updateAndLogStats b t u) = mview b"
  "mview (snd (bdp pl b w g)) = mview b" "mview (snd (quantizationBudget b x)) = mview b"
  "mview (OnPacketSent pl b t f n s r) = mview b" "mview (exitRecovery b) = mview b"
  by (simp_all add: mview_def startRound_def resetLowerBounds_def updateGains_def updateRound_def Let_def updateMinRtt_def
      saveCwnd_def restoreCwnd_def boundBwForModel_def updateControlParameters_def setSendQuantum_def setPacingRate_def
      setPacingRateWithGain_def updateMaxBwFilter_def updateAndLogStats_def bdp_def quantizationBudget_def OnPacketSent_def
      exitRecovery_def split: bbrv3State.split option.split)

lemma mview_inflight [simp]: "mview (snd (inflight pl b g)) = mview b"
  by (simp add: inflight_def split_beta)

lemma mview_maxInflight [simp]: "mview (updateMaxInflight pl b) = mview b"
  by (simp add: updateMaxInflight_def bdp_def quantizationBudget_def mm_get_def Let_def split_beta mview_def)

lemma mview_setCwnd [simp]: "mview (setCwnd pl b f) = mview b"
proof -
  have "mview (modulateCwndForRecovery b f) = mview b" "mview (boundCwndForModel pl b) = mview b"
    "mview (boundCwndForProbeRtt pl b) = mview b" for b
    by (simp_all add: modulateCwndForRecovery_def boundCwndForModel_def boundCwndForProbeRtt_def probeRttCwnd_def bdp_def
        Let_def mview_def)
  moreover have "mview (b\<lparr>cwnd := x\<rparr>) = mview b" for b x by (simp add: mview_def)
  ultimately show ?thesis by (simp add: setCwnd_def Let_def)
qed

lemma mview_reduced [simp]:
  "state b = s \<Longrightarrow> state (snd (inflight pl b g)) = s" "state b = s \<Longrightarrow> state (snd (bdp pl b w g)) = s"
  using mview_inflight [of pl b g] mview_simps(12) [of pl b w g] by (simp_all add: mview_def)

lemma machine_startup [simp]: "machine_ok b \<Longrightarrow> machine_ok (enterStartup b)"
  by (simp add: enterStartup_def machine_ok_mview [of "updateGains _", OF mview_simps(3)]) (simp add: machine_ok_def)

lemma machine_probe_rtt [simp]: "machine_ok b \<Longrightarrow> machine_ok (enterProbeRtt b)"
  by (simp add: enterProbeRtt_def machine_ok_mview [of "updateGains _", OF mview_simps(3)]) (simp add: machine_ok_def)

lemma machine_drain_enter: "bwProbeUpCnt b \<noteq> 0 \<Longrightarrow> filledPipe (fullPipe b) \<Longrightarrow> machine_ok (enterDrain b)"
  by (simp add: enterDrain_def machine_ok_mview [of "updateGains _", OF mview_simps(3)]) (simp add: machine_ok_def)

lemma machine_down: "filledPipe (fullPipe b) \<Longrightarrow> machine_ok (startProbeBwDown b now)"
  by (simp add: startProbeBwDown_def Let_def startRound_def pickProbeWait_def resetCongestionSignals_def machine_ok_def)

lemma machine_cruise: "filledPipe (fullPipe b) \<Longrightarrow> bwProbeUpCnt b \<noteq> 0 \<Longrightarrow> machine_ok (startProbeBwCruise b)"
  by (simp add: startProbeBwCruise_def machine_ok_def)

lemma machine_refill: "filledPipe (fullPipe b) \<Longrightarrow> bwProbeUpCnt b \<noteq> 0 \<Longrightarrow> machine_ok (startProbeBwRefill b)"
  by (simp add: startProbeBwRefill_def Let_def startRound_def resetLowerBounds_def machine_ok_def)

lemma slope_nz: "bwProbeUpCnt b \<noteq> 0 \<Longrightarrow> bwProbeUpCnt (raiseInflightHiSlope b) \<noteq> 0"
  by (auto simp: raiseInflightHiSlope_def Let_def)

lemma machine_up: "filledPipe (fullPipe b) \<Longrightarrow> bwProbeUpCnt b \<noteq> 0 \<Longrightarrow> machine_ok (startProbeBwUp b now)"
  using slope_nz
  by (simp add: startProbeBwUp_def Let_def machine_ok_def startRound_def)
    (simp add: raiseInflightHiSlope_def Let_def)

lemma machine_full: "machine_ok b \<Longrightarrow> machine_ok (checkStartupFullBandwidth pl b)"
  by (auto simp: checkStartupFullBandwidth_def Let_def machine_ok_def)

lemma machine_startup_done: "machine_ok b \<Longrightarrow> machine_ok (checkStartupDone pl b)"
  using machine_full [of b pl] machine_drain_enter [of "checkStartupFullBandwidth pl b"]
  by (auto simp: checkStartupDone_def checkStartupHighLoss_def Let_def machine_ok_def)

lemma filled_inflight [simp]: "filledPipe (fullPipe (snd (inflight pl b g))) = filledPipe (fullPipe b)"
  using mview_inflight [of pl b g] by (simp add: mview_def)

lemma machine_drain: "machine_ok b \<Longrightarrow> machine_ok (checkDrain pl b f now)"
  using machine_ok_mview [OF mview_inflight [of pl b "lit 1"]] machine_down [of "snd (inflight pl b (lit 1))"]
  by (auto simp: checkDrain_def enterProbeBw_def split_beta machine_ok_def)

lemma machine_exit_above: "machine_ok b \<Longrightarrow> machine_ok (exitProbeRTTFromAbove b now)"
proof (cases "isFilledPipe b")
  case True
  then have "filledPipe (fullPipe (startProbeBwDown b now))" "bwProbeUpCnt (startProbeBwDown b now) \<noteq> 0"
    by (simp_all add: isFilledPipe_def startProbeBwDown_def Let_def startRound_def pickProbeWait_def resetCongestionSignals_def)
  then show ?thesis using True by (simp add: exitProbeRTTFromAbove_def machine_cruise)
qed (simp add: exitProbeRTTFromAbove_def)

lemma machine_maybe_exit: "machine_ok b \<Longrightarrow> machine_ok (maybeExitProbeRTT b now)"
  by (simp add: maybeExitProbeRTT_def machine_exit_above)

lemma machine_exit: "machine_ok b \<Longrightarrow> machine_ok (exitProbeRtt b now)"
proof -
  assume "machine_ok b"
  then have "machine_ok (resetLowerBounds b)" by (simp add: machine_ok_mview [OF mview_simps(2)])
  then show ?thesis using machine_exit_above [of "resetLowerBounds b" now] by (simp add: exitProbeRtt_def exitProbeRTTFromAbove_def Let_def)
qed

lemma cycle_phase:
  assumes "bounds_ok b" "machine_ok b"
  obtains b' where "updateProbeBwCyclePhase pl b now f = Inr b'" "core b' = core b" "machine_ok b'"
    "probeRttDoneStamp b' = probeRttDoneStamp b" "slow b' = slow b" "state b \<noteq> bbrv3StateProbeRTT \<Longrightarrow> state b' \<noteq> bbrv3StateProbeRTT"
proof (cases "isFilledPipe b")
  case False
  then show thesis using assms by (intro that [of b]) (simp_all add: updateProbeBwCyclePhase_def)
next
  case True
  obtain c where c: "adaptUpperBounds b = Inr c" "core c = core b" "state c = state b" "fullPipe c = fullPipe b"
    "bwProbeUpCnt c = bwProbeUpCnt b" "probeRttDoneStamp c = probeRttDoneStamp b" "slow c = slow b"
    by (rule adapt_upper [OF assms(1)])
  have bc: "bounds_ok c" using bounds_ok_core [OF c(2)] assms(1) by simp
  have fc: "filledPipe (fullPipe c)" "bwProbeUpCnt c \<noteq> 0" "machine_ok c"
    using True assms(2) c by (simp_all add: isFilledPipe_def machine_ok_def)
  have ms: "machine_ok (snd (inflight pl c g))" "filledPipe (fullPipe (snd (inflight pl c g)))"
    "bwProbeUpCnt (snd (inflight pl c g)) \<noteq> 0" for g
    using machine_ok_mview [OF mview_inflight] fc mview_inflight [of pl c g] by (simp_all add: mview_def)
  have st: "probeRttDoneStamp (snd (inflight pl c g)) = probeRttDoneStamp c"
    "probeRttDoneStamp (startProbeBwDown d now) = probeRttDoneStamp d"
    "probeRttDoneStamp (startProbeBwCruise d) = probeRttDoneStamp d"
    "probeRttDoneStamp (startProbeBwRefill d) = probeRttDoneStamp d"
    "probeRttDoneStamp (startProbeBwUp d now) = probeRttDoneStamp d" for g d
    by (simp_all add: inflight_def bdp_def quantizationBudget_def Let_def split_beta startProbeBwDown_def startProbeBwCruise_def
        startProbeBwRefill_def startProbeBwUp_def startRound_def pickProbeWait_def resetCongestionSignals_def resetLowerBounds_def
        raiseInflightHiSlope_def)
  define d where "d = (if \<not> isInProbeBwState c then c
        else case state c of
            bbrv3StateProbeBwDown \<Rightarrow>
              (case checkTimeToProbeBw c now of (probe, b) \<Rightarrow>
                 if probe then b
                 else case checkTimeToCruise pl b f of (cruise, b) \<Rightarrow>
                   if cruise then startProbeBwCruise b else b)
          | bbrv3StateProbeBwCruise \<Rightarrow> snd (checkTimeToProbeBw c now)
          | bbrv3StateProbeBwRefill \<Rightarrow>
              (if isRoundStart (round c) then startProbeBwUp (c\<lparr>bwProbeSamples := True\<rparr>) now else c)
          | bbrv3StateProbeBwUp \<Rightarrow>
              (if hasElapsedInPhase c now (minRtt c) then
                 case inflight pl c (pacingGain c) of (x, b) \<Rightarrow>
                   if f > x then startProbeBwDown b now else b
               else c)
          | _ \<Rightarrow> c)"
  have s: "state (startProbeBwDown d now) = bbrv3StateProbeBwDown" "state (startProbeBwCruise d) = bbrv3StateProbeBwCruise"
    "state (startProbeBwRefill d) = bbrv3StateProbeBwRefill" "state (startProbeBwUp d now) = bbrv3StateProbeBwUp"
    "state (snd (inflight pl d g)) = state d" for d g
    by (simp_all add: startProbeBwDown_def startProbeBwCruise_def startProbeBwRefill_def startProbeBwUp_def Let_def
        raiseInflightHiSlope_def)
  have "slow (c\<lparr>bwProbeSamples := True\<rparr>) = slow c" by (simp add: slow_def)
  then have d2: "slow d = slow c \<and> (state c \<noteq> bbrv3StateProbeRTT \<longrightarrow> state d \<noteq> bbrv3StateProbeRTT)"
    unfolding d_def by (cases "state c") (simp_all add: checkTimeToProbeBw_def checkTimeToCruise_def split_beta s)
  have "core (c\<lparr>bwProbeSamples := True\<rparr>) = core c" by (simp add: core_def)
  then have d: "core d = core c \<and> machine_ok d \<and> probeRttDoneStamp d = probeRttDoneStamp c"
    using bc fc ms st machine_down machine_refill [of c] machine_up [of "c\<lparr>bwProbeSamples := True\<rparr>"]
      machine_cruise [of c] machine_cruise [of "snd (inflight pl c (lit 1))"]
    unfolding d_def
    by (cases "state c") (simp_all add: checkTimeToProbeBw_def checkTimeToCruise_def split_beta)
  have "updateProbeBwCyclePhase pl b now f = Inr d"
    using True c(1) by (simp add: updateProbeBwCyclePhase_def d_def)
  then show thesis using d d2 c by (intro that [of d]) simp_all
qed

section \<open>The invariant\<close>

text \<open>\<open>S\<close> bounds the datagram sizes of a run.\<close>

definition fixed_cfg :: "bbrv3Config \<Rightarrow> bool" where
  "fixed_cfg c \<longleftrightarrow> initialRtt c = 100 * Millisecond \<and> probeRttDuration c = 200 * Millisecond \<and> probeRttInterval c = 5 * Second"

definition bbr_ok :: "nat \<Rightarrow> BBRv3Sender \<Rightarrow> bool" where
  "bbr_ok S b \<longleftrightarrow> bounds_ok b \<and> fixed_cfg (config b) \<and> unat (cfg_maxDatagramSize (config b)) \<le> S \<and> minCwnd (config b) = 4 * cfg_maxDatagramSize (config b) \<and>
     unat (cwnd b) \<le> 10 * S \<and> unat (priorCwnd b) \<le> 10 * S \<and> (packetConservation b \<longrightarrow> inRecoveryMode b) \<and>
     length (ackinfo b) \<le> 16 \<and> 0 < maxDatagramSize b \<and> maxDatagramSize b \<le> int S"

lemma bbr_ok_core: "core b = core c \<Longrightarrow> bbr_ok S b \<longleftrightarrow> bbr_ok S c"
  using bounds_ok_core [of b c] by (simp add: core_def bbr_ok_def)

lemma bbr_ok_coreD: "core b = core c \<Longrightarrow> bbr_ok S c \<Longrightarrow> bbr_ok S b"
  using bbr_ok_core by blast

lemma bbr_ok_bounds: "bbr_ok S b \<Longrightarrow> bounds_ok b"
  by (simp add: bbr_ok_def)

lemma ok_cwnd: "bbr_ok S b \<Longrightarrow> x \<le> cwnd b \<or> unat x \<le> 10 * S \<Longrightarrow> bbr_ok S (b\<lparr>cwnd := x\<rparr>)"
  by (auto simp: bbr_ok_def bounds_ok_def word_le_nat_alt)

lemma min_cwnd_bound:
  fixes m :: u64
  assumes "unat m \<le> S" "S < 2 ^ 16"
  shows "unat (4 * m) = 4 * unat m" "unat (4 * m + m) = 5 * unat m"
  using assms by (simp_all add: unat_word_ariths)

lemma ok_min_cwnd: "bbr_ok S b \<Longrightarrow> S < 2 ^ 16 \<Longrightarrow> unat (minCwnd (config b)) \<le> 10 * S \<and>
    unat (minCwnd (config b) + cfg_maxDatagramSize (config b)) \<le> 10 * S"
  using min_cwnd_bound [of "cfg_maxDatagramSize (config b)" S] by (simp add: bbr_ok_def)

lemma ok_save: "bbr_ok S b \<Longrightarrow> bbr_ok S (saveCwnd b)"
  by (auto simp: bbr_ok_def bounds_ok_def saveCwnd_def)

lemma ok_restore: "bbr_ok S b \<Longrightarrow> bbr_ok S (restoreCwnd b)"
  by (auto simp: bbr_ok_def bounds_ok_def restoreCwnd_def)

lemma ok_exit_probe_rtt: "bbr_ok S b \<Longrightarrow> bbr_ok S (exitProbeRtt b now)"
  by (rule bbr_ok_coreD [of _ b]) (simp_all add: exitProbeRtt_def Let_def bbr_ok_bounds)

lemma ok_probe_rtt_done: "bbr_ok S b \<Longrightarrow> bbr_ok S (checkProbeRttDone b now)"
proof -
  assume "bbr_ok S b"
  then have "bbr_ok S (b\<lparr>probeRttMinStamp := now\<rparr>)" by (rule bbr_ok_coreD [rotated]) (simp add: core_def)
  then show ?thesis using \<open>bbr_ok S b\<close> by (simp add: checkProbeRttDone_def ok_exit_probe_rtt ok_restore)
qed

lemma core_probeRttCwnd [simp]: "core (snd (probeRttCwnd pl b)) = core b"
  by (simp add: probeRttCwnd_def)

lemma core_done_stamp [simp]: "core (b\<lparr>probeRttDoneStamp := t\<rparr>) = core b"
  "core (b\<lparr>probeRttRoundDone := r\<rparr>) = core b" "core (b\<lparr>ackPhase := a\<rparr>) = core b"
  by (simp_all add: core_def)

lemma ok_handle: "bbr_ok S b \<Longrightarrow> bbr_ok S (handleProbeRtt pl b now f)"
proof -
  assume b: "bbr_ok S b"
  define c where "c = (if isRoundStart (round b) then b\<lparr>probeRttRoundDone := True\<rparr> else b)"
  have c: "bbr_ok S c" by (rule bbr_ok_coreD [OF _ b]) (simp add: c_def)
  have d: "bbr_ok S (snd (probeRttCwnd pl b))" by (rule bbr_ok_coreD [OF _ b]) simp
  have e: "bbr_ok S (startRound (snd (probeRttCwnd pl b)\<lparr>probeRttDoneStamp := t, probeRttRoundDone := False\<rparr>))" for t
    by (rule bbr_ok_coreD [OF _ b]) simp
  show ?thesis
    unfolding handleProbeRtt_def Let_def c_def [symmetric] split_beta
    using c d e ok_probe_rtt_done by (simp split: if_split)
qed

lemma ok_check_probe_rtt: "bbr_ok S b \<Longrightarrow> bbr_ok S (checkProbeRtt pl b now f)"
proof -
  assume b: "bbr_ok S b"
  define c where "c = (if state b \<noteq> bbrv3StateProbeRTT \<and> probeRttExpired b \<and> \<not> idleRestart b
     then startRound (saveCwnd (enterProbeRtt b)\<lparr>probeRttDoneStamp := 0, ackPhase := ackProbePhaseStopping\<rparr>) else b)"
  have "bbr_ok S (saveCwnd (enterProbeRtt b))" by (rule ok_save) (rule bbr_ok_coreD [OF _ b], simp)
  then have "bbr_ok S (startRound (saveCwnd (enterProbeRtt b)\<lparr>probeRttDoneStamp := 0, ackPhase := ackProbePhaseStopping\<rparr>))"
    by (rule bbr_ok_coreD [rotated]) simp
  then have "bbr_ok S c" using b by (simp add: c_def)
  moreover have "checkProbeRtt pl b now f = (if state c = bbrv3StateProbeRTT then handleProbeRtt pl c now f else c)"
    by (simp add: checkProbeRtt_def Let_def c_def)
  ultimately show ?thesis by (simp add: ok_handle)
qed

lemma machine_handle: "machine_ok b \<Longrightarrow> machine_ok (handleProbeRtt pl b now f)"
proof -
  assume b: "machine_ok b"
  have m: "mview (b\<lparr>probeRttRoundDone := r\<rparr>) = mview b" "mview (b\<lparr>probeRttMinStamp := t\<rparr>) = mview b"
    "mview (b\<lparr>probeRttDoneStamp := t, probeRttRoundDone := r\<rparr>) = mview b" for b r t by (simp_all add: mview_def)
  define c where "c = (if isRoundStart (round b) then b\<lparr>probeRttRoundDone := True\<rparr> else b)"
  have c: "machine_ok c" using b machine_ok_mview [OF m(1)] by (simp add: c_def)
  have "machine_ok (checkProbeRttDone c now)"
    using c machine_ok_mview [OF m(2)] machine_ok_mview [OF mview_simps(7)] by (simp add: checkProbeRttDone_def machine_exit)
  moreover have "machine_ok (snd (probeRttCwnd pl b))" using b machine_ok_mview [OF mview_simps(12)] by (simp add: probeRttCwnd_def)
  moreover from this have "machine_ok (startRound (snd (probeRttCwnd pl b)\<lparr>probeRttDoneStamp := t, probeRttRoundDone := False\<rparr>))" for t
    using machine_ok_mview [OF mview_simps(1)] machine_ok_mview [OF m(3)] by blast
  ultimately show ?thesis
    unfolding handleProbeRtt_def Let_def c_def [symmetric] split_beta using c by (simp split: if_split)
qed

lemma machine_check_probe_rtt: "machine_ok b \<Longrightarrow> machine_ok (checkProbeRtt pl b now f)"
proof -
  assume b: "machine_ok b"
  define c where "c = (if state b \<noteq> bbrv3StateProbeRTT \<and> probeRttExpired b \<and> \<not> idleRestart b
     then startRound (saveCwnd (enterProbeRtt b)\<lparr>probeRttDoneStamp := 0, ackPhase := ackProbePhaseStopping\<rparr>) else b)"
  have "mview (d\<lparr>probeRttDoneStamp := 0\<rparr>) = mview d" "mview (d\<lparr>ackPhase := a\<rparr>) = mview d" for d a by (simp_all add: mview_def)
  then have "mview (startRound (saveCwnd (enterProbeRtt b)\<lparr>probeRttDoneStamp := 0, ackPhase := ackProbePhaseStopping\<rparr>)) = mview (enterProbeRtt b)"
    by simp
  from machine_ok_mview [OF this] machine_probe_rtt [OF b]
  have "machine_ok (startRound (saveCwnd (enterProbeRtt b)\<lparr>probeRttDoneStamp := 0, ackPhase := ackProbePhaseStopping\<rparr>))" by simp
  then have "machine_ok c" using b by (simp add: c_def)
  moreover have "checkProbeRtt pl b now f = (if state c = bbrv3StateProbeRTT then handleProbeRtt pl c now f else c)"
    by (simp add: checkProbeRtt_def Let_def c_def)
  ultimately show ?thesis by (simp add: machine_handle)
qed

lemma core_signals [simp]:
  "core (updateAckAggregation (updateCongestionSignals (updateLatestDeliverySignals b)) now) = core b"
  "mview (updateAckAggregation (updateCongestionSignals (updateLatestDeliverySignals b)) now) = mview b"
  by (simp_all add: updateAckAggregation_def updateCongestionSignals_def updateLatestDeliverySignals_def updateMaxBw_def core_def mview_def)

lemma model_and_state:
  assumes "bbr_ok S b" "machine_ok b"
  obtains b' where "updateModelAndState pl b now f clock = Inr b'" "bbr_ok S b'" "machine_ok b'"
    "packetConservation b' = packetConservation b"
proof -
  define c where "c = checkDrain pl (checkStartupDone pl
    (updateAckAggregation (updateCongestionSignals (updateLatestDeliverySignals b)) now)) f clock"
  have cc: "core c = core b" by (simp add: c_def)
  have c: "bbr_ok S c" "machine_ok c"
    using bbr_ok_coreD [OF cc assms(1)] machine_drain [OF machine_startup_done] machine_ok_mview [OF core_signals(2)] assms(2)
    by (simp_all add: c_def)
  obtain d where d: "updateProbeBwCyclePhase pl c now f = Inr d" "core d = core c" "machine_ok d"
    by (rule cycle_phase [OF bbr_ok_bounds [OF c(1)] c(2)])
  define e where "e = updateMinRtt d now"
  have e: "bbr_ok S e" "machine_ok e" "core e = core b"
    using bbr_ok_coreD [OF d(2) c(1)] bbr_ok_coreD [OF core_minRtt] machine_ok_mview [OF mview_simps(5)] d cc
    by (simp_all add: e_def)
  define g where "g = checkProbeRtt pl e now f"
  have g: "bbr_ok S g" "machine_ok g" using ok_check_probe_rtt machine_check_probe_rtt e by (simp_all add: g_def)
  have "packetConservation g = packetConservation e"
  proof -
    have *: "packetConservation (enterProbeRtt e) = packetConservation e" "packetConservation (startProbeBwDown x now) = packetConservation x"
      "packetConservation (enterStartup x) = packetConservation x" for e x
      by (simp_all add: enterProbeRtt_def enterStartup_def updateGains_def startProbeBwDown_def Let_def startRound_def pickProbeWait_def
          resetCongestionSignals_def)
    have **: "packetConservation (snd (probeRttCwnd pl x)) = packetConservation x" for x
      by (simp add: probeRttCwnd_def bdp_def Let_def)
    have "packetConservation (handleProbeRtt pl x now f) = packetConservation x" for x
      unfolding handleProbeRtt_def checkProbeRttDone_def exitProbeRtt_def Let_def split_beta
      by (simp add: * ** startRound_def startProbeBwCruise_def resetLowerBounds_def restoreCwnd_def)
    then show ?thesis
      unfolding g_def checkProbeRtt_def Let_def by (simp add: * startRound_def saveCwnd_def)
  qed
  then have p: "packetConservation g = packetConservation b" using e(3) by (simp add: core_def)
  define h where "h = boundBwForModel g"
  have ch: "core h = core g" by (simp add: h_def)
  have "updateModelAndState pl b now f clock = Inr h"
    unfolding updateModelAndState_def Let_def c_def [symmetric] d(1) go_bind_simps advanceLatestDeliverySignals_def h_def g_def e_def ..
  moreover have "bbr_ok S h" using bbr_ok_coreD [OF ch g(1)] .
  moreover have "machine_ok h" using machine_ok_mview [OF mview_simps(8)] g(2) by (simp add: h_def)
  moreover have "packetConservation h = packetConservation b" using ch p by (simp add: core_def)
  ultimately show thesis by (rule that)
qed

lemma setCwnd_effect:
  assumes "bbr_ok S b" "\<not> packetConservation b" "S < 2 ^ 16"
  shows "bbr_ok S (setCwnd pl b f)" "state b \<noteq> bbrv3StateProbeRTT \<Longrightarrow> minCwnd (config b) \<le> cwnd (setCwnd pl b f)"
    "config (setCwnd pl b f) = config b"
proof -
  define c where "c = updateMaxInflight pl b"
  have cc: "core c = core b" and sc: "state c = state b"
    using mview_maxInflight [of pl b] by (simp_all add: c_def mview_def)
  have c: "bbr_ok S c" "\<not> packetConservation c" "config c = config b"
    using bbr_ok_coreD [OF cc assms(1)] cc assms(2) by (simp_all add: core_def)
  define d where "d = (if cwnd c < minCwnd (config c) then c\<lparr>cwnd := minCwnd (config c)\<rparr> else c)"
  have d: "bbr_ok S d" using c ok_cwnd ok_min_cwnd [OF c(1) assms(3)] by (simp add: d_def)
  have md: "minCwnd (config d) \<le> cwnd d" "config d = config b" "state d = state b" using c sc by (simp_all add: d_def not_less)
  define e where "e = boundCwndForProbeRtt pl d"
  have e: "bbr_ok S e" "config e = config d" "state e = state d" "state d \<noteq> bbrv3StateProbeRTT \<Longrightarrow> e = d"
  proof -
    define x where "x = snd (probeRttCwnd pl d)"
    have x: "core x = core d" "state x = state d" by (simp_all add: x_def) (simp add: probeRttCwnd_def bdp_def Let_def)
    have ed: "e = (if state d = bbrv3StateProbeRTT then (if cwnd x > fst (probeRttCwnd pl d) then x\<lparr>cwnd := fst (probeRttCwnd pl d)\<rparr> else x) else d)"
      unfolding e_def boundCwndForProbeRtt_def split_beta x_def ..
    have "bbr_ok S x" by (rule bbr_ok_coreD [OF x(1) d])
    then show "bbr_ok S e" using d ok_cwnd [of S x "fst (probeRttCwnd pl d)"] unfolding ed by (simp add: less_imp_le)
    show "config e = config d" "state e = state d" "state d \<noteq> bbrv3StateProbeRTT \<Longrightarrow> e = d"
      using x by (simp_all add: ed core_def)
  qed
  have s: "setCwnd pl b f = boundCwndForModel pl e"
    using c(2) unfolding setCwnd_def Let_def modulateCwndForRecovery_def c_def [symmetric] by (simp add: d_def e_def)
  have "inflightLo e = no_bound" "inflightHi e = no_bound" using e(1) by (simp_all add: bbr_ok_def bounds_ok_def)
  moreover have "max no_bound x = no_bound" "\<not> no_bound < x" for x :: u64
    by (simp_all add: max_absorb1 word_order.extremum leD)
  ultimately have "boundCwndForModel pl e = e"
    by (simp add: boundCwndForModel_def Let_def inflightWithHeadroom_def)
  then show "bbr_ok S (setCwnd pl b f)" "state b \<noteq> bbrv3StateProbeRTT \<Longrightarrow> minCwnd (config b) \<le> cwnd (setCwnd pl b f)"
    "config (setCwnd pl b f) = config b"
    using s e md by simp_all
qed

lemma ok_exit_recovery: "bbr_ok S b \<Longrightarrow> bbr_ok S (exitRecovery b) \<and> \<not> packetConservation (exitRecovery b)"
proof -
  assume "bbr_ok S b"
  then have "bbr_ok S (b\<lparr>recoveryEpochStart := 0, packetConservation := False, inRecoveryMode := False\<rparr>)"
    by (simp add: bbr_ok_def bounds_ok_def)
  then show ?thesis using ok_restore by (simp add: exitRecovery_def) (simp add: restoreCwnd_def)
qed

text \<open>The end of a round: entering ProbeBW from Drain, and the second way into ProbeRTT.\<close>

definition endRound :: "platform \<Rightarrow> BBRv3Sender \<Rightarrow> byte_count \<Rightarrow> mtime \<Rightarrow> clocks \<Rightarrow> BBRv3Sender" where
  "endRound pl b priorInFlight eventTime c =
     (let b = (if state b = bbrv3StateDrain then
                 case inflight pl b (lit 1) of (x, b) \<Rightarrow> if priorInFlight < sint x then enterProbeBw b (clk2 c) else b
               else b);
          b = updateMaxBwFilter b
      in if monotime_Sub eventTime (minRttStamp b) \<ge> 10 * Second \<and>
            monotime_Sub eventTime (probeRttDoneStamp b) \<ge> 10 * Second
         then b\<lparr>state := bbrv3StateProbeRTT, pacingGain := lit 1, cwndGain := lit 1, minRtt := 10 * Second,
                probeRttDoneStamp := eventTime\<rparr>
         else b)"

lemma end_round:
  assumes "machine_ok b"
  shows "core (endRound pl b p t c) = core b" "machine_ok (endRound pl b p t c)"
    "state b = bbrv3StateProbeRTT \<Longrightarrow> state (endRound pl b p t c) = bbrv3StateProbeRTT"
proof -
  define d where "d = (if state b = bbrv3StateDrain then
      (if p < sint (fst (inflight pl b (lit 1))) then enterProbeBw (snd (inflight pl b (lit 1))) (clk2 c) else snd (inflight pl b (lit 1)))
    else b)"
  have cd: "core d = core b" by (simp add: d_def enterProbeBw_def)
  have f: "filledPipe (fullPipe b)" if "state b = bbrv3StateDrain" using assms that by (simp add: machine_ok_def)
  have md: "machine_ok d"
    using assms f machine_down [of "snd (inflight pl b (lit 1))"] machine_ok_mview [OF mview_inflight [of pl b "lit 1"]]
    by (simp add: d_def enterProbeBw_def)
  define e where "e = updateMaxBwFilter d"
  have e: "core e = core b" "machine_ok e" "state e = state d"
    using cd md machine_ok_mview [OF mview_simps(10)] mview_simps(10) [of d] by (simp_all add: e_def mview_def)
  have r: "endRound pl b p t c = (if monotime_Sub t (minRttStamp e) \<ge> 10 * Second \<and>
            monotime_Sub t (probeRttDoneStamp e) \<ge> 10 * Second
         then e\<lparr>state := bbrv3StateProbeRTT, pacingGain := lit 1, cwndGain := lit 1, minRtt := 10 * Second,
                probeRttDoneStamp := t\<rparr> else e)"
    unfolding endRound_def Let_def split_beta d_def [symmetric] e_def [symmetric] ..
  have "core (e\<lparr>state := bbrv3StateProbeRTT, pacingGain := lit 1, cwndGain := lit 1, minRtt := 10 * Second, probeRttDoneStamp := t\<rparr>) = core e"
    "machine_ok (e\<lparr>state := bbrv3StateProbeRTT, pacingGain := lit 1, cwndGain := lit 1, minRtt := 10 * Second, probeRttDoneStamp := t\<rparr>)"
    using e(2) by (simp_all add: core_def machine_ok_def)
  then show "core (endRound pl b p t c) = core b" "machine_ok (endRound pl b p t c)"
    using e unfolding r by simp_all
  show "state (endRound pl b p t c) = bbrv3StateProbeRTT" if "state b = bbrv3StateProbeRTT"
    using e(3) that unfolding r by (simp add: d_def)
qed

lemma on_round:
  assumes "bbr_ok S b" "machine_ok b" "S < 2 ^ 16"
  obtains b' where "onRound pl b p t c = Inr b'" "bbr_ok S b'" "machine_ok b'"
    "state b' \<noteq> bbrv3StateProbeRTT \<Longrightarrow> minCwnd (config b') \<le> cwnd b'"
proof -
  define b1 where "b1 = (if inRecoveryMode b then exitRecovery b else b)"
  have b1: "bbr_ok S b1" "\<not> packetConservation b1" "machine_ok b1"
    using assms ok_exit_recovery [OF assms(1)] machine_ok_mview [OF mview_simps(15)] by (auto simp: b1_def bbr_ok_def)
  obtain b2 where b2: "updateModelAndState pl b1 t (word_of_int p) (clk1 c) = Inr b2" "bbr_ok S b2" "machine_ok b2"
    "packetConservation b2 = packetConservation b1" by (rule model_and_state [OF b1(1,3)])
  define b3 where "b3 = updateControlParameters pl (updateGains b2)"
  have c3: "core b3 = core b2" "mview b3 = mview b2" by (simp_all add: b3_def)
  have b3: "bbr_ok S b3" "machine_ok b3" "\<not> packetConservation b3"
    using bbr_ok_coreD [OF c3(1) b2(2)] machine_ok_mview [OF c3(2)] b2 b1(2) c3(1) by (simp_all add: core_def)
  define b4 where "b4 = setCwnd pl b3 (word_of_int p)"
  note b4 = setCwnd_effect [OF b3(1,3) assms(3), of pl "word_of_int p", folded b4_def]
  have m4: "mview b4 = mview b3" by (simp add: b4_def)
  have m4': "machine_ok b4" using machine_ok_mview [OF m4] b3(2) by simp
  define b5 where "b5 = checkStartupDone pl b4"
  have b5: "core b5 = core b4" "machine_ok b5" using machine_startup_done [OF m4'] by (simp_all add: b5_def)
  have s5: "state b5 = bbrv3StateProbeRTT" if "state b4 = bbrv3StateProbeRTT"
    using that by (simp add: b5_def checkStartupDone_def checkStartupHighLoss_def checkStartupFullBandwidth_def Let_def)
  define b6 where "b6 = endRound pl b5 p t c"
  note e = end_round [OF b5(2), of pl p t c, folded b6_def]
  have "onRound pl b p t c = Inr b6"
    unfolding onRound_def Let_def b1_def [symmetric] b2(1) go_bind_simps b3_def [symmetric] b4_def [symmetric] b5_def [symmetric]
      b6_def endRound_def ..
  moreover have c6: "core b6 = core b4" using e(1) b5(1) by simp
  moreover have "bbr_ok S b6" using bbr_ok_coreD [OF c6 b4(1)] .
  moreover have "minCwnd (config b6) \<le> cwnd b6" if "state b6 \<noteq> bbrv3StateProbeRTT"
  proof -
    have "state b3 \<noteq> bbrv3StateProbeRTT" using that e(3) s5 m4 by (auto simp: mview_def)
    from b4(2) [OF this] show ?thesis using b4(3) c6 by (simp add: core_def)
  qed
  ultimately show thesis using e(2) by (intro that)
qed

definition stats_ok :: "BBRv3Sender \<Rightarrow> bool" where
  "stats_ok b \<longleftrightarrow> (case stats b of None \<Rightarrow> True | Some s \<Rightarrow> st_rttCount s \<noteq> - 1)"

lemma record_ack:
  assumes "bbr_ok S b" "machine_ok b" "stats_ok b"
  obtains b' where "recordAck b n st a t = Inr (maybeExitProbeRTT b' t)" "bbr_ok S b'" "machine_ok b'"
    "state b' = state b" "probeRttDoneStamp b' = probeRttDoneStamp b" "config b' = config b" "slow b' = slow b"
    "delivered b' = delivered b + word_of_int a" "round b' = round b" "ai_delivered (last (ackinfo b')) = delivered b'" "ackinfo b' \<noteq> []"
proof -
  define c where "c = b\<lparr>sentTimes := (sentTimes b)(n := None)\<rparr>"
  obtain s where s: "(case stats c of None \<Rightarrow> Inr c | Some s \<Rightarrow> go_bind (stats_UpdateRTT s (i64 (t - st))) (\<lambda>s. Inr (c\<lparr>stats := Some s\<rparr>)))
      = Inr (c\<lparr>stats := s\<rparr>)"
  proof (cases "stats b")
    case None
    then show thesis by (intro that [of None]) (simp add: c_def)
  next
    case (Some s)
    then obtain s' where "stats_UpdateRTT s (i64 (t - st)) = Inr s'" using assms(3) UpdateRTT_no_panic by (auto simp: stats_ok_def)
    then show thesis using Some by (intro that [of "Some s'"]) (simp add: c_def)
  qed
  define d where "d = c\<lparr>stats := s\<rparr>"
  define e where "e = (if i64 (t - st) > 0 \<and> (lastNewMinRTT d \<le> 0 \<or> i64 (t - st) < lastNewMinRTT d)
    then d\<lparr>lastNewMinRTT := i64 (t - st), lastNewMinRTTTime := t, minRtt := i64 (t - st), minRttStamp := t\<rparr> else d)"
  define g where "g = e\<lparr>delivered := delivered e + word_of_int a\<rparr>"
  let ?v = "\<lambda>b. (core b, mview b, probeRttDoneStamp b, slow b)"
  have "?v c = ?v b" "?v d = ?v c" "?v g = ?v e" by (simp_all add: c_def d_def g_def core_def mview_def slow_def)
  moreover have "?v e = ?v d" by (simp add: e_def core_def mview_def slow_def)
  ultimately have v: "core g = core b" "mview g = mview b" "probeRttDoneStamp g = probeRttDoneStamp b" "slow g = slow b" by simp_all
  define xs where "xs = ackinfo g @ [\<lparr>ai_ackedBytes = a, ai_recordTime = t, ai_delivered = delivered g\<rparr>]"
  define h where "h = g\<lparr>ackinfo := (if length xs > 16 then drop (length xs - 16) xs else xs)\<rparr>"
  have "recordAck b n st a t = Inr (maybeExitProbeRTT h t)"
    unfolding recordAck_def Let_def c_def [symmetric] s go_bind_simps d_def [symmetric] e_def [symmetric] g_def [symmetric]
      xs_def [symmetric] h_def [symmetric] ..
  moreover have "bbr_ok S h" using bbr_ok_coreD [OF v(1) assms(1)] by (simp add: h_def bbr_ok_def bounds_ok_def)
  moreover have "mview h = mview b" using v(2) by (simp add: h_def mview_def)
  moreover have "probeRttDoneStamp h = probeRttDoneStamp b" "config h = config b" "slow h = slow b"
    using v by (simp_all add: h_def core_def slow_def)
  moreover have "delivered e = delivered b" "round g = round b" by (simp_all add: g_def e_def d_def c_def)
  then have "delivered h = delivered b + word_of_int a" "round h = round b" by (simp_all add: h_def g_def)
  moreover have "ai_delivered (last (ackinfo h)) = delivered h" "ackinfo h \<noteq> []" by (simp_all add: h_def xs_def)
  ultimately show thesis using that machine_ok_mview [of h b] assms(2) by (simp add: mview_def)
qed

lemma ok_updateRound: "bbr_ok S b \<Longrightarrow> bbr_ok S (updateRound b)"
  by (auto simp: bbr_ok_def bounds_ok_def updateRound_def startRound_def Let_def)

lemma packet_acked:
  assumes "bbr_ok S b" "machine_ok b" "stats_ok b" "S < 2 ^ 16"
  obtains b' where "OnPacketAcked pl b n a p t c = Inr b'" "bbr_ok S b'" "machine_ok b'"
proof (cases "sentTimes b n")
  case None
  then show thesis using assms by (intro that [of b]) (simp_all add: OnPacketAcked_def)
next
  case (Some st)
  obtain b0 where r: "recordAck b n st a t = Inr (maybeExitProbeRTT b0 t)" "bbr_ok S b0" "machine_ok b0"
    by (rule record_ack [OF assms(1-3)])
  define b1 where "b1 = maybeExitProbeRTT b0 t"
  have b1: "bbr_ok S b1" "machine_ok b1"
    using bbr_ok_coreD [OF core_maybe_exit r(2)] machine_maybe_exit [OF r(3)] by (simp_all add: b1_def)
  let ?log = "\<lambda>b. updateAndLogStats b (clk_since c) (clk_log c)"
  have log: "bbr_ok S b \<Longrightarrow> bbr_ok S (?log b)" "machine_ok b \<Longrightarrow> machine_ok (?log b)" for b
    using bbr_ok_coreD [OF core_log] machine_ok_mview [OF mview_simps(11)] by blast+
  show thesis
  proof (cases "state b1 = bbrv3StateProbeRTT")
    case True
    then have "OnPacketAcked pl b n a p t c = Inr (?log b1)"
      using Some r(1) by (simp add: OnPacketAcked_def b1_def)
    then show thesis using log b1 by (intro that)
  next
    case False
    define b2 where "b2 = updateRound b1"
    define rate where "rate = calculateDeliveryRate pl b2 t"
    define b3 where "b3 = (if rate > maxBw b2 \<or> (bw b2 > 0 \<and> rate > 0)
      then b2\<lparr>maxBw := rate, maxBwFilter := (maxBwFilter b2)\<lparr>bw1 := rate\<rparr>\<rparr> else b2)"
    have c3: "core b3 = core b2" "mview b3 = mview b2" by (simp_all add: b3_def core_def mview_def)
    have b3: "bbr_ok S b3" "machine_ok b3"
      using bbr_ok_coreD [OF c3(1)] ok_updateRound [OF b1(1)] machine_ok_mview [OF c3(2)] machine_ok_mview [OF mview_simps(4)] b1(2)
      by (simp_all add: b2_def)
    obtain b4 where b4: "onRound pl b3 p t c = Inr b4" "bbr_ok S b4" "machine_ok b4" by (rule on_round [OF b3 assms(4)])
    define b5 where "b5 = (if monotime_Sub t (minRttStamp b3) \<ge> minRtt b3 \<or> isRoundStart (round b3) then b4 else b3)"
    have "OnPacketAcked pl b n a p t c = go_bind (if monotime_Sub t (minRttStamp b3) \<ge> minRtt b3 \<or> isRoundStart (round b3)
        then onRound pl b3 p t c else Inr b3) (\<lambda>b. Inr (?log b))"
      unfolding OnPacketAcked_def Some option.case r(1) b1_def [symmetric] go_bind_simps(2) Let_def b2_def [symmetric]
        rate_def [symmetric] b3_def [symmetric] using False by (simp only: if_False)
    then have "OnPacketAcked pl b n a p t c = Inr (?log b5)" by (simp add: b4(1) b5_def)
    moreover have "bbr_ok S b5" "machine_ok b5" using b3 b4 by (simp_all add: b5_def)
    ultimately show thesis using log by (intro that [of "?log b5"])
  qed
qed

lemma ok_congestion:
  assumes "bbr_ok S b" "machine_ok b" "S < 2 ^ 16"
  shows "bbr_ok S (OnCongestionEvent b n l p now)" "machine_ok (OnCongestionEvent b n l p now)"
proof -
  define c where "c = b\<lparr>totalBytesLost := totalBytesLost b + word_of_int l, retransmitCount := retransmitCount b + 1,
     stats := map_option (\<lambda>s. stats_IncrementRetransmit (stats_AddBytesLost s (word_of_int l))) (stats b)\<rparr>"
  have c: "core c = core b" "mview c = mview b" by (simp_all add: c_def core_def mview_def)
  have oc: "bbr_ok S c" "machine_ok c" using bbr_ok_coreD [OF c(1) assms(1)] machine_ok_mview [OF c(2)] assms(2) by simp_all
  define d where "d = enterRecovery (c\<lparr>inRecoveryMode := True, pacingGain := lit 1\<rparr>) now"
  have "bbr_ok S (c\<lparr>inRecoveryMode := True, pacingGain := lit 1\<rparr>)" using oc by (simp add: bbr_ok_def bounds_ok_def)
  from ok_save [OF this] ok_min_cwnd [OF ok_save [OF this] assms(3)]
  have od: "bbr_ok S d" by (simp add: d_def enterRecovery_def Let_def bbr_ok_def bounds_ok_def startRound_def)
  have "mview d = mview c" by (simp add: d_def enterRecovery_def Let_def mview_def startRound_def saveCwnd_def)
  then have md: "machine_ok d" using machine_ok_mview oc(2) by blast
  define e where "e = (if \<not> inRecoveryMode c \<and> state c \<noteq> bbrv3StateStartup \<and> state c \<noteq> bbrv3StateProbeRTT then d else c)"
  have e: "bbr_ok S e" "machine_ok e" using oc od md by (simp_all add: e_def)
  have r: "OnCongestionEvent b n l p now = (if cwnd e > word_of_int l then e\<lparr>cwnd := cwnd e - word_of_int l\<rparr> else e\<lparr>cwnd := minCwnd (config e)\<rparr>)"
    unfolding OnCongestionEvent_def Let_def c_def [symmetric] d_def [symmetric] e_def [symmetric] ..
  have "cwnd e - word_of_int l \<le> cwnd e" if "cwnd e > word_of_int l" using that by (simp add: word_sub_le)
  then show "bbr_ok S (OnCongestionEvent b n l p now)"
    unfolding r using ok_cwnd [OF e(1)] ok_min_cwnd [OF e(1) assms(3)] by simp
  show "machine_ok (OnCongestionEvent b n l p now)" unfolding r using e(2) by (simp add: machine_ok_def)
qed

section \<open>Rounds\<close>

text \<open>
  Apart from an acknowledgement, a method keeps the delivered bytes and the count of rounds, and it keeps the end of the
  round or sets it to the delivered bytes.
\<close>

definition adv :: "BBRv3Sender \<Rightarrow> BBRv3Sender \<Rightarrow> bool" where
  "adv b c \<longleftrightarrow> delivered c = delivered b \<and> roundCount (round c) = roundCount (round b) \<and> isRoundStart (round c) = isRoundStart (round b) \<and>
     (nextRoundDelivered (round c) = nextRoundDelivered (round b) \<or> nextRoundDelivered (round c) = delivered b)"

definition round_ok :: "BBRv3Sender \<Rightarrow> bool" where
  "round_ok b \<longleftrightarrow> nextRoundDelivered (round b) \<le> delivered b"

lemma adv_refl [simp]: "adv b b"
  by (simp add: adv_def)

lemma adv_round_ok: "adv b c \<Longrightarrow> round_ok b \<Longrightarrow> round_ok c"
  by (auto simp: adv_def round_ok_def)

lemma adv_same:
  "delivered d = delivered c \<Longrightarrow> round d = round c \<Longrightarrow> adv b d \<longleftrightarrow> adv b c"
  by (simp add: adv_def)

lemma adv_startRound [simp]: "adv b c \<Longrightarrow> adv b (startRound c)"
  by (simp add: adv_def startRound_def)

lemma adv_same_simps [simp]:
  "adv b (updateGains c) = adv b c" "adv b (resetLowerBounds c) = adv b c" "adv b (resetCongestionSignals c) = adv b c"
  "adv b (pickProbeWait c) = adv b c" "adv b (startProbeBwCruise c) = adv b c" "adv b (raiseInflightHiSlope c) = adv b c"
  "adv b (snd (bdp pl c w g)) = adv b c" "adv b (snd (quantizationBudget c x)) = adv b c"
  "adv b (checkStartupFullBandwidth pl c) = adv b c" "adv b (advanceMaxBwFilter c) = adv b c" "adv b (updateMinRtt c now) = adv b c"
  "adv b (saveCwnd c) = adv b c" "adv b (restoreCwnd c) = adv b c" "adv b (boundBwForModel c) = adv b c"
  "adv b (updateControlParameters pl c) = adv b c" "adv b (updateMaxBwFilter c) = adv b c" "adv b (updateAndLogStats c t u) = adv b c"
  "adv b (OnPacketSent pl c t f n s r) = adv b c" "adv b (modulateCwndForRecovery c x) = adv b c" "adv b (boundCwndForModel pl c) = adv b c"
  by (rule adv_same; simp add: updateGains_def resetLowerBounds_def resetCongestionSignals_def pickProbeWait_def startProbeBwCruise_def
      raiseInflightHiSlope_def bdp_def quantizationBudget_def checkStartupFullBandwidth_def advanceMaxBwFilter_def updateMinRtt_def
      saveCwnd_def restoreCwnd_def boundBwForModel_def updateControlParameters_def setSendQuantum_def setPacingRate_def
      setPacingRateWithGain_def updateMaxBwFilter_def updateAndLogStats_def OnPacketSent_def modulateCwndForRecovery_def
      boundCwndForModel_def Let_def split: bbrv3State.split option.split)+

lemma adv_fields [simp]:
  "adv b (c\<lparr>state := s\<rparr>) = adv b c" "adv b (c\<lparr>bwProbeUpCnt := x\<rparr>) = adv b c" "adv b (c\<lparr>cycleStamp := t\<rparr>) = adv b c"
  "adv b (c\<lparr>ackPhase := a\<rparr>) = adv b c" "adv b (c\<lparr>bwProbeUpRounds := x\<rparr>) = adv b c" "adv b (c\<lparr>bwProbeUpAcks := x\<rparr>) = adv b c"
  "adv b (c\<lparr>fullPipe := p\<rparr>) = adv b c" "adv b (c\<lparr>bwProbeSamples := q\<rparr>) = adv b c" "adv b (c\<lparr>inflightHi := x\<rparr>) = adv b c"
  "adv b (c\<lparr>probeRttRoundDone := q\<rparr>) = adv b c" "adv b (c\<lparr>probeRttDoneStamp := t\<rparr>) = adv b c" "adv b (c\<lparr>probeRttMinStamp := t\<rparr>) = adv b c"
  "adv b (c\<lparr>recoveryEpochStart := t\<rparr>) = adv b c" "adv b (c\<lparr>packetConservation := q\<rparr>) = adv b c" "adv b (c\<lparr>inRecoveryMode := q\<rparr>) = adv b c"
  "adv b (c\<lparr>cwnd := x\<rparr>) = adv b c" "adv b (c\<lparr>maxInflight := x\<rparr>) = adv b c" "adv b (c\<lparr>extraAckedFilter := m\<rparr>) = adv b c"
  "adv b (c\<lparr>pacingGain := g\<rparr>) = adv b c" "adv b (c\<lparr>cwndGain := g\<rparr>) = adv b c" "adv b (c\<lparr>minRtt := t\<rparr>) = adv b c"
  "adv b (c\<lparr>totalBytesLost := x\<rparr>) = adv b c" "adv b (c\<lparr>retransmitCount := x\<rparr>) = adv b c" "adv b (c\<lparr>stats := z\<rparr>) = adv b c"
  "adv b (c\<lparr>lossRoundStart := q\<rparr>) = adv b c" "adv b (c\<lparr>extraAcked := x\<rparr>) = adv b c"
  by (simp_all add: adv_def)

lemma adv_inflight [simp]: "adv b (snd (inflight pl c g)) = adv b c"
  by (simp add: inflight_def split_beta)

lemma adv_phases [simp]:
  assumes "adv b c"
  shows "adv b (startProbeBwDown c now)" "adv b (startProbeBwRefill c)" "adv b (startProbeBwUp c now)" "adv b (enterStartup c)"
    "adv b (enterDrain c)" "adv b (enterProbeRtt c)" "adv b (checkStartupDone pl c)" "adv b (exitRecovery c)" "adv b (exitProbeRtt c now)"
    "adv b (exitProbeRTTFromAbove c now)"
  using assms
  by (simp_all add: startProbeBwDown_def startProbeBwRefill_def startProbeBwUp_def enterStartup_def enterDrain_def enterProbeRtt_def
      checkStartupDone_def checkStartupHighLoss_def exitRecovery_def exitProbeRtt_def exitProbeRTTFromAbove_def Let_def)

lemma adv_more [simp]:
  assumes "adv b c"
  shows "adv b (checkDrain pl c f now)" "adv b (snd (checkTimeToProbeBw c now))" "adv b (snd (checkTimeToCruise pl c f))"
    "adv b (maybeExitProbeRTT c now)" "adv b (checkProbeRttDone c now)" "adv b (snd (probeRttCwnd pl c))"
    "adv b (updateMaxInflight pl c)" "adv b (boundCwndForProbeRtt pl c)" "adv b (enterRecovery c now)"
  using assms
  by (simp_all add: checkDrain_def enterProbeBw_def split_beta checkTimeToProbeBw_def checkTimeToCruise_def maybeExitProbeRTT_def
      checkProbeRttDone_def probeRttCwnd_def updateMaxInflight_def boundCwndForProbeRtt_def enterRecovery_def Let_def)

lemma adv_probe_rtt [simp]:
  assumes "adv b c"
  shows "adv b (handleProbeRtt pl c now f)" "adv b (setCwnd pl c f)" "adv b (endRound pl c p t k)"
  using assms
  by (simp_all add: handleProbeRtt_def setCwnd_def endRound_def enterProbeBw_def Let_def split_beta)

lemma adv_check_probe_rtt [simp]: "adv b c \<Longrightarrow> adv b (checkProbeRtt pl c now f)"
  by (simp add: checkProbeRtt_def Let_def)

lemma adv_hi_upward: "adv b c \<Longrightarrow> probeInflightHiUpward c q = Inr d \<Longrightarrow> adv b d"
  by (auto simp: probeInflightHiUpward_def Let_def split: if_splits)

lemma adv_adapt:
  assumes "adv b c" "adaptUpperBounds c = Inr d"
  shows "adv b d"
proof -
  define c1 where "c1 = (if ackPhase c = ackProbePhaseStarting \<and> isRoundStart (round c)
    then c\<lparr>ackPhase := ackProbePhaseFeedback\<rparr> else c)"
  define c2 where "c2 = c1\<lparr>bwProbeSamples := False, ackPhase := ackProbePhaseInit\<rparr>"
  define c3 where "c3 = (if ackPhase c1 = ackProbePhaseStopping \<and> isRoundStart (round c1)
    then (if isInProbeBwState c2 \<and> maxBw c2 > 0 then advanceMaxBwFilter c2 else c2) else c1)"
  have "adv b c1" using assms(1) by (simp add: c1_def)
  then have "adv b c2" by (simp add: c2_def)
  then have c3: "adv b c3" using \<open>adv b c1\<close> by (simp add: c3_def)
  have "adaptUpperBounds c = (if inflightHi c3 = no_bound then Inr c3
      else if state c3 = bbrv3StateProbeBwUp then probeInflightHiUpward c3 True else Inr c3)"
    unfolding adaptUpperBounds_def Let_def checkInflightTooHigh_def c3_def c2_def c1_def by (simp only: simp_thms)
  then show ?thesis using assms(2) c3 adv_hi_upward by (auto split: if_splits)
qed

lemma adv_cycle:
  assumes "adv b c" "updateProbeBwCyclePhase pl c now f = Inr d"
  shows "adv b d"
proof (cases "isFilledPipe c")
  case False
  then show ?thesis using assms by (simp add: updateProbeBwCyclePhase_def)
next
  case True
  then obtain e where e: "adaptUpperBounds c = Inr e" using assms(2) by (auto simp: updateProbeBwCyclePhase_def)
  have "adv b e" by (rule adv_adapt [OF assms(1) e])
  then show ?thesis using assms(2) True e
    by (cases "state e") (auto simp: updateProbeBwCyclePhase_def split_beta split: if_splits)
qed

lemma adv_model:
  assumes "adv b c" "updateModelAndState pl c now f k = Inr d"
  shows "adv b d"
proof -
  define e where "e = checkDrain pl (checkStartupDone pl
    (updateAckAggregation (updateCongestionSignals (updateLatestDeliverySignals c)) now)) f k"
  have e: "adv b e"
    using assms(1) by (simp add: e_def updateAckAggregation_def updateCongestionSignals_def updateLatestDeliverySignals_def updateMaxBw_def)
  from assms(2) obtain g where g: "updateProbeBwCyclePhase pl e now f = Inr g"
    and d: "d = boundBwForModel (advanceLatestDeliverySignals (checkProbeRtt pl (updateMinRtt g now) now f))"
    unfolding updateModelAndState_def Let_def e_def [symmetric] by auto
  have "adv b g" by (rule adv_cycle [OF e g])
  then show ?thesis by (simp add: d advanceLatestDeliverySignals_def)
qed

lemma adv_on_round:
  assumes "adv b c" "onRound pl c p t k = Inr d"
  shows "adv b d"
proof -
  define e where "e = (if inRecoveryMode c then exitRecovery c else c)"
  have e: "adv b e" using assms(1) by (simp add: e_def)
  from assms(2) obtain g where g: "updateModelAndState pl e t (word_of_int p) (clk1 k) = Inr g"
    and d: "d = endRound pl (checkStartupDone pl (setCwnd pl (updateControlParameters pl (updateGains g)) (word_of_int p))) p t k"
    unfolding onRound_def Let_def e_def [symmetric] endRound_def by auto
  have "adv b g" by (rule adv_model [OF e g])
  then show ?thesis by (simp add: d)
qed

lemma foldl_max_ge:
  fixes f :: "'a \<Rightarrow> u64"
  shows "xs \<noteq> [] \<Longrightarrow> f (last xs) \<le> foldl (\<lambda>acc x. if f x > acc then f x else acc) a xs"
  by (induction xs arbitrary: a rule: rev_induct) auto

lemma round_starts:
  assumes "ackinfo b \<noteq> []" "nextRoundDelivered (round b) \<le> ai_delivered (last (ackinfo b))"
  shows "isRoundStart (round (updateRound b))" "roundCount (round (updateRound b)) = roundCount (round b) + 1"
    "nextRoundDelivered (round (updateRound b)) = delivered b" "delivered (updateRound b) = delivered b"
  using order_trans [OF assms(2) foldl_max_ge [OF assms(1), of ai_delivered 0]]
  by (simp_all add: updateRound_def startRound_def Let_def)

text \<open>An acknowledgement of a known packet outside ProbeRTT starts a round.\<close>

lemma acked_parts:
  assumes "bbr_ok S b" "machine_ok b" "stats_ok b" "S < 2 ^ 16" "round_ok b"
    and "sentTimes b n = Some st" "state b \<noteq> bbrv3StateProbeRTT" "0 \<le> a" "uint (delivered b) + a < 2 ^ 64"
  obtains b2 b' where "OnPacketAcked pl b n a p t c = Inr (updateAndLogStats b' (clk_since c) (clk_log c))" "onRound pl b2 p t c = Inr b'"
    "bbr_ok S b2" "machine_ok b2" "slow b2 = slow b" "config b2 = config b" "state b2 = state b" "round_ok b2"
    "roundCount (round b2) = roundCount (round b) + 1" "isRoundStart (round b2)" "adv b2 b'"
proof -
  obtain b0 where r: "recordAck b n st a t = Inr (maybeExitProbeRTT b0 t)" "bbr_ok S b0" "machine_ok b0" "state b0 = state b"
    "config b0 = config b" "slow b0 = slow b" "delivered b0 = delivered b + word_of_int a" "round b0 = round b"
    "ai_delivered (last (ackinfo b0)) = delivered b0" "ackinfo b0 \<noteq> []"
    by (rule record_ack [OF assms(1-3)])
  have m: "maybeExitProbeRTT b0 t = b0" using assms(7) r(4) by (simp add: maybeExitProbeRTT_def)
  have "uint (delivered b + word_of_int a) = uint (delivered b) + a"
    using assms(8,9) by (simp add: uint_word_ariths uint_word_of_int mod_simps)
  then have "delivered b \<le> delivered b0" using r(7) assms(8) by (simp add: word_le_def)
  then have "nextRoundDelivered (round b0) \<le> ai_delivered (last (ackinfo b0))"
    using assms(5) r(8,9) by (simp add: round_ok_def)
  note u = round_starts [OF r(10) this]
  define b1 where "b1 = updateRound b0"
  define rate where "rate = calculateDeliveryRate pl b1 t"
  define b2 where "b2 = (if rate > maxBw b1 \<or> (bw b1 > 0 \<and> rate > 0)
    then b1\<lparr>maxBw := rate, maxBwFilter := (maxBwFilter b1)\<lparr>bw1 := rate\<rparr>\<rparr> else b1)"
  have c2: "core b2 = core b1" "mview b2 = mview b1" "slow b2 = slow b1" "round b2 = round b1" "delivered b2 = delivered b1"
    by (simp_all add: b2_def core_def mview_def slow_def)
  have b1: "bbr_ok S b1" "machine_ok b1" "state b1 = state b0" "config b1 = config b0" "slow b1 = slow b0"
    using ok_updateRound [OF r(2)] machine_ok_mview [OF mview_simps(4)] r(3) mview_simps(4) [of b0]
    by (simp_all add: b1_def mview_def) (simp add: updateRound_def startRound_def Let_def)
  have b2: "bbr_ok S b2" "machine_ok b2" "state b2 = state b" "config b2 = config b"
    using bbr_ok_coreD [OF c2(1) b1(1)] machine_ok_mview [OF c2(2)] b1 c2 r(4,5) by (simp_all add: core_def mview_def)
  obtain b' where b': "onRound pl b2 p t c = Inr b'" by (rule on_round [OF b2(1,2) assms(4)])
  have "OnPacketAcked pl b n a p t c = go_bind (if monotime_Sub t (minRttStamp b2) \<ge> minRtt b2 \<or> isRoundStart (round b2)
      then onRound pl b2 p t c else Inr b2) (\<lambda>b. Inr (updateAndLogStats b (clk_since c) (clk_log c)))"
    unfolding OnPacketAcked_def assms(6) option.case r(1) m go_bind_simps(2) Let_def b1_def [symmetric]
      rate_def [symmetric] b2_def [symmetric] using assms(7) r(4) by (simp only: if_False)
  moreover have i: "isRoundStart (round b2)" using u(1) c2(4) by (simp add: b1_def)
  ultimately have o: "OnPacketAcked pl b n a p t c = Inr (updateAndLogStats b' (clk_since c) (clk_log c))" using b' by simp
  have "round_ok b2" using u(3,4) c2(4,5) by (simp add: round_ok_def b1_def)
  moreover have "roundCount (round b2) = roundCount (round b) + 1" using u(2) c2(4) r(8) by (simp add: b1_def)
  moreover have "slow b2 = slow b" using c2(3) b1(5) r(6) by simp
  ultimately show thesis using that [OF o b'] b2 i adv_on_round [OF adv_refl b'] by simp
qed

lemma no_wrap_le:
  fixes d :: u64
  assumes "0 \<le> a" "uint d + a < 2 ^ 64"
  shows "d \<le> d + word_of_int a"
proof -
  have "uint (d + word_of_int a) = uint d + a" using assms by (simp add: uint_word_ariths uint_word_of_int mod_simps)
  then show ?thesis using assms(1) by (simp add: word_le_def)
qed

lemma round_ok_updateRound: "round_ok b \<Longrightarrow> round_ok (updateRound b)"
  by (simp add: round_ok_def updateRound_def startRound_def Let_def)

lemma acked_round_ok:
  assumes "bbr_ok S b" "machine_ok b" "S < 2 ^ 16" "round_ok b"
    and "stats_ok b" "0 \<le> a" "uint (delivered b) + a < 2 ^ 64" "OnPacketAcked pl b n a p t c = Inr b'"
  shows "round_ok b'"
proof (cases "sentTimes b n")
  case None
  then show ?thesis using assms by (simp add: OnPacketAcked_def)
next
  case (Some st)
  obtain b0 where r: "recordAck b n st a t = Inr (maybeExitProbeRTT b0 t)" "delivered b0 = delivered b + word_of_int a" "round b0 = round b"
    by (rule record_ack [OF assms(1,2,5)])
  have "round_ok b0" using no_wrap_le [OF assms(6,7)] assms(4) r(2,3) by (simp add: round_ok_def)
  then have b1: "round_ok (maybeExitProbeRTT b0 t)" by (rule adv_round_ok [rotated]) simp
  define b1 where "b1 = maybeExitProbeRTT b0 t"
  define b2 where "b2 = updateRound b1"
  define rate where "rate = calculateDeliveryRate pl b2 t"
  define b3 where "b3 = (if rate > maxBw b2 \<or> (bw b2 > 0 \<and> rate > 0)
      then b2\<lparr>maxBw := rate, maxBwFilter := (maxBwFilter b2)\<lparr>bw1 := rate\<rparr>\<rparr> else b2)"
  have b3: "round_ok b3" using round_ok_updateRound [OF b1] by (simp add: b3_def b2_def b1_def round_ok_def)
  let ?log = "\<lambda>b. updateAndLogStats b (clk_since c) (clk_log c)"
  have e: "OnPacketAcked pl b n a p t c = (if state b1 = bbrv3StateProbeRTT then Inr (?log b1)
      else go_bind (if monotime_Sub t (minRttStamp b3) \<ge> minRtt b3 \<or> isRoundStart (round b3)
        then onRound pl b3 p t c else Inr b3) (\<lambda>b. Inr (?log b)))"
    unfolding OnPacketAcked_def Some option.case r(1) b1_def [symmetric] go_bind_simps(2) Let_def b2_def [symmetric]
      rate_def [symmetric] b3_def [symmetric] ..
  have log: "round_ok x \<Longrightarrow> round_ok (?log x)" for x by (rule adv_round_ok [of x]) simp
  show ?thesis
  proof (cases "state b1 = bbrv3StateProbeRTT")
    case True
    then show ?thesis using e assms(8) log b1 by (simp add: b1_def)
  next
    case False
    then have "go_bind (if monotime_Sub t (minRttStamp b3) \<ge> minRtt b3 \<or> isRoundStart (round b3)
        then onRound pl b3 p t c else Inr b3) (\<lambda>b. Inr (?log b)) = Inr b'" using e assms(8) by simp
    then obtain d where d: "b' = ?log d" "d = b3 \<or> onRound pl b3 p t c = Inr d"
      unfolding go_bind_eq_Inr by (auto split: if_splits)
    then have "round_ok d" using b3 adv_on_round [OF adv_refl] adv_round_ok by blast
    then show ?thesis using d(1) log by simp
  qed
qed

section \<open>Runs\<close>

text \<open>
  A step is a call of the sent packet handler or of the application; the clock readings, packet sizes and times are
  arbitrary, datagram sizes are at most \<open>S\<close>, and fewer than \<open>2\<^sup>6\<^sup>4\<close> bytes are delivered.  A retransmission timeout is
  a separate step of a run.
\<close>

inductive bbr_step :: "platform \<Rightarrow> nat \<Rightarrow> BBRv3Sender \<Rightarrow> BBRv3Sender \<Rightarrow> bool" for pl S where
  bs_sent: "bbr_step pl S b (OnPacketSent pl b t f n sz r)"
| bs_acked: "stats_ok b \<Longrightarrow> 0 \<le> a \<Longrightarrow> uint (delivered b) + a < 2 ^ 64 \<Longrightarrow> OnPacketAcked pl b n a p t c = Inr b' \<Longrightarrow>
    bbr_step pl S b b'"
| bs_lost: "bbr_step pl S b (OnCongestionEvent b n l p now)"
| bs_budget: "bbr_step pl S b (snd (HasPacingBudget b now))"
| bs_slow_start: "bbr_step pl S b (MaybeExitSlowStart b)"
| bs_size: "0 < sz \<Longrightarrow> sz \<le> int S \<Longrightarrow> bbr_step pl S b (SetMaxDatagramSize b sz)"
| bs_enable: "bbr_step pl S b (EnableStats b cfg now)"
| bs_disable: "bbr_step pl S b (DisableStats b)"

inductive bbr_reach :: "platform \<Rightarrow> nat \<Rightarrow> BBRv3Sender \<Rightarrow> bool" for pl S where
  br_new: "0 < sz \<Longrightarrow> sz \<le> int S \<Longrightarrow> bbr_reach pl S (NewBBRv3Sender pl sz now now2)"
| br_step: "bbr_reach pl S b \<Longrightarrow> bbr_step pl S b b' \<Longrightarrow> bbr_reach pl S b'"
| br_timeout: "bbr_reach pl S b \<Longrightarrow> bbr_reach pl S (OnRetransmissionTimeout pl b r now now2)"

inductive_cases bbr_stepE: "bbr_step pl S b b'"

lemma word_of_size:
  assumes "0 < sz" "sz \<le> int S" "S < 2 ^ 16"
  shows "(word_of_int sz :: u64) \<noteq> 0" "unat (word_of_int sz :: u64) = nat sz" "nat sz \<le> S"
proof -
  have "uint (word_of_int sz :: u64) = sz" using assms by (simp add: uint_word_of_int)
  then show "(word_of_int sz :: u64) \<noteq> 0" "unat (word_of_int sz :: u64) = nat sz" using assms by (auto simp: unat_eq_nat_uint)
  show "nat sz \<le> S" using assms by simp
qed

lemma new_sender:
  assumes "0 < sz" "sz \<le> int S" "S < 2 ^ 16"
  shows "bbr_ok S (NewBBRv3Sender pl sz now now2)" "machine_ok (NewBBRv3Sender pl sz now now2)"
    "round_ok (NewBBRv3Sender pl sz now now2)"
proof -
  note w = word_of_size [OF assms]
  have "unat (10 * word_of_int sz :: u64) = 10 * nat sz"
    using w assms(3) by (simp add: unat_word_ariths)
  then have t: "unat (10 * word_of_int sz :: u64) \<le> 10 * S" using w by simp
  note d = NewBBRv3Sender_def init_def enterStartup_def updateGains_def initPacingRate_def initFullPipe_def initRoundCounting_def
    resetLowerBounds_def resetCongestionSignals_def newConfig_def newMinMaxFilter_def Let_def defaultInitialCwnd_def minPipeCwndInSmss_def
  show "bbr_ok S (NewBBRv3Sender pl sz now now2)" using w t assms
    by (simp add: bbr_ok_def bounds_ok_def d fixed_cfg_def probeRttDurationConst_def probeRttIntervalConst_def)
  show "machine_ok (NewBBRv3Sender pl sz now now2)" "round_ok (NewBBRv3Sender pl sz now now2)"
    by (simp_all add: machine_ok_def round_ok_def d)
qed

lemma ok_timeout:
  assumes "bbr_ok S b" "machine_ok b" "round_ok b" "S < 2 ^ 16"
  shows "bbr_ok S (OnRetransmissionTimeout pl b r now now2)" "machine_ok (OnRetransmissionTimeout pl b r now now2)"
    "round_ok (OnRetransmissionTimeout pl b r now now2)"
proof -
  define n where "n = NewBBRv3Sender pl (maxDatagramSize b) now now2"
  have sz: "0 < maxDatagramSize b" "maxDatagramSize b \<le> int S" using assms(1) by (simp_all add: bbr_ok_def)
  note n = new_sender [OF sz assms(4), of pl now now2, folded n_def]
  have "bbr_ok S (n\<lparr>config := config b, maxDatagramSize := maxDatagramSize b\<rparr>)"
    using n(1) assms(1) by (simp add: bbr_ok_def bounds_ok_def)
  moreover have "machine_ok (n\<lparr>config := config b, maxDatagramSize := maxDatagramSize b\<rparr>)"
    using n(2) by (simp add: machine_ok_def)
  moreover have "round_ok (n\<lparr>config := config b, maxDatagramSize := maxDatagramSize b\<rparr>)"
    using n(3) by (simp add: round_ok_def)
  ultimately show "bbr_ok S (OnRetransmissionTimeout pl b r now now2)" "machine_ok (OnRetransmissionTimeout pl b r now now2)"
    "round_ok (OnRetransmissionTimeout pl b r now now2)"
    using assms by (simp_all add: OnRetransmissionTimeout_def n_def)
qed

lemma ok_step:
  assumes "bbr_step pl S b b'" "bbr_ok S b" "machine_ok b" "S < 2 ^ 16"
  shows "bbr_ok S b' \<and> machine_ok b'"
  using assms(1)
proof (cases rule: bbr_step.cases)
  case (bs_sent t f n sz r)
  show ?thesis unfolding bs_sent
    using bbr_ok_coreD [OF core_sent assms(2)] machine_ok_mview [OF mview_simps(14)] assms(3) by blast
next
  case (bs_acked a n p t c)
  obtain b'' where "OnPacketAcked pl b n a p t c = Inr b''" "bbr_ok S b''" "machine_ok b''"
    by (rule packet_acked [OF assms(2,3) bs_acked(1) assms(4)])
  then show ?thesis using bs_acked(4) by simp
next
  case (bs_lost n l p now)
  show ?thesis unfolding bs_lost using ok_congestion [OF assms(2-4)] by blast
next
  case (bs_budget now)
  show ?thesis unfolding bs_budget HasPacingBudget_def snd_conv
    using bbr_ok_coreD [OF core_maybe_exit assms(2)] machine_maybe_exit [OF assms(3)] by blast
next
  case bs_slow_start
  then show ?thesis using assms by (simp add: MaybeExitSlowStart_def)
next
  case (bs_size sz)
  note w = word_of_size [OF bs_size(2,3) assms(4)]
  then have "unat (word_of_int sz :: u64) \<le> S" by simp
  then show ?thesis using bs_size assms(2,3)
    by (simp add: SetMaxDatagramSize_def bbr_ok_def bounds_ok_def machine_ok_def minPipeCwndInSmss_def fixed_cfg_def)
next
  case (bs_enable cfg now)
  have "core b' = core b" "mview b' = mview b" by (simp_all add: bs_enable EnableStats_def core_def mview_def)
  then show ?thesis using bbr_ok_coreD assms(2) machine_ok_mview assms(3) by blast
next
  case bs_disable
  have "core b' = core b" "mview b' = mview b" by (simp_all add: bs_disable DisableStats_def core_def mview_def)
  then show ?thesis using bbr_ok_coreD assms(2) machine_ok_mview assms(3) by blast
qed

lemma round_step:
  assumes "bbr_step pl S b b'" "bbr_ok S b" "machine_ok b" "S < 2 ^ 16" "round_ok b"
  shows "round_ok b'"
  using assms(1)
proof (cases rule: bbr_step.cases)
  case (bs_sent t f n sz r)
  show ?thesis unfolding bs_sent by (rule adv_round_ok [of b]) (simp_all add: assms(5))
next
  case (bs_acked a n p t c)
  show ?thesis by (rule acked_round_ok [OF assms(2-5) bs_acked])
next
  case (bs_lost n l p now)
  show ?thesis unfolding bs_lost by (rule adv_round_ok [of b]) (simp_all add: OnCongestionEvent_def Let_def assms(5))
next
  case (bs_budget now)
  show ?thesis unfolding bs_budget by (rule adv_round_ok [of b]) (simp_all add: HasPacingBudget_def assms(5))
next
  case bs_slow_start
  then show ?thesis using assms by (simp add: MaybeExitSlowStart_def)
next
  case (bs_size sz)
  then show ?thesis using assms(5) by (simp add: SetMaxDatagramSize_def round_ok_def)
next
  case (bs_enable cfg now)
  then show ?thesis using assms(5) by (simp add: EnableStats_def round_ok_def)
next
  case bs_disable
  then show ?thesis using assms(5) by (simp add: DisableStats_def round_ok_def)
qed

lemma bbr_reach_ok:
  assumes "bbr_reach pl S b" "S < 2 ^ 16"
  shows "bbr_ok S b" "machine_ok b" "round_ok b"
proof -
  have "bbr_ok S b \<and> machine_ok b \<and> round_ok b" using assms(1)
  proof (induction rule: bbr_reach.induct)
    case (br_new sz now now2)
    show ?case using new_sender [OF br_new assms(2)] by blast
  next
    case (br_step b b')
    show ?case using ok_step [OF br_step.hyps(2)] round_step [OF br_step.hyps(2)] br_step.IH assms(2) by blast
  next
    case (br_timeout b r now now2)
    show ?case using ok_timeout [of S b] br_timeout.IH assms(2) by blast
  qed
  then show "bbr_ok S b" "machine_ok b" "round_ok b" by blast+
qed

section \<open>ProbeRTT\<close>

text \<open>Without a time at which it is done, ProbeRTT is not left.\<close>

lemma stuck_step:
  assumes "bbr_step pl S b b'" "bbr_ok S b" "machine_ok b" "state b = bbrv3StateProbeRTT" "probeRttDoneStamp b \<le> 0"
  shows "state b' = bbrv3StateProbeRTT \<and> probeRttDoneStamp b' = probeRttDoneStamp b"
  using assms(1)
proof (cases rule: bbr_step.cases)
  case (bs_sent t f n sz r)
  then show ?thesis using assms(4) by (simp add: OnPacketSent_def Let_def)
next
  case (bs_acked a n p t c)
  show ?thesis
  proof (cases "sentTimes b n")
    case None
    then show ?thesis using bs_acked(4) assms(4) by (simp add: OnPacketAcked_def)
  next
    case (Some st)
    obtain b0 where r: "recordAck b n st a t = Inr (maybeExitProbeRTT b0 t)" "state b0 = state b" "probeRttDoneStamp b0 = probeRttDoneStamp b"
      by (rule record_ack [OF assms(2,3) bs_acked(1)])
    have "maybeExitProbeRTT b0 t = b0" using r(3) assms(5) by (simp add: maybeExitProbeRTT_def)
    then have "b' = updateAndLogStats b0 (clk_since c) (clk_log c)"
      using bs_acked(4) Some r(1,2) assms(4) by (simp add: OnPacketAcked_def)
    then show ?thesis using r(2,3) assms(4) by (simp add: updateAndLogStats_def Let_def split: option.split)
  qed
next
  case (bs_lost n l p now)
  then show ?thesis using assms(4) by (simp add: OnCongestionEvent_def Let_def)
next
  case (bs_budget now)
  then show ?thesis using assms(4,5) by (simp add: HasPacingBudget_def maybeExitProbeRTT_def)
next
  case bs_slow_start
  then show ?thesis using assms(4) by (simp add: MaybeExitSlowStart_def)
next
  case (bs_size sz)
  then show ?thesis using assms(4) by (simp add: SetMaxDatagramSize_def)
next
  case (bs_enable cfg now)
  then show ?thesis using assms(4) by (simp add: EnableStats_def)
next
  case bs_disable
  then show ?thesis using assms(4) by (simp add: DisableStats_def)
qed

text \<open>How many bytes may be in flight for ProbeRTT to note a time at which it is done, when it is entered.\<close>

definition probe_rtt_limit :: "platform \<Rightarrow> BBRv3Sender \<Rightarrow> u64" where
  "probe_rtt_limit pl b = u64_of pl (fm (lit (1 / 2)) (fm (fl (bw b)) (Seconds (initialRtt (config b)))))"

lemma enter_probe_rtt:
  assumes "bbr_ok S b" "state b \<noteq> bbrv3StateProbeRTT" "initialRtt (config b) \<noteq> 0"
    and "monotime_Sub now (probeRttMinStamp b) > probeRttInterval (config b)" "f > probe_rtt_limit pl b"
  defines "b' \<equiv> checkProbeRtt pl (updateMinRtt b now) now f"
  shows "state b' = bbrv3StateProbeRTT" "probeRttDoneStamp b' = 0" "minRttStamp b' = now"
proof -
  define c where "c = b\<lparr>probeRttExpired := True, minRtt := initialRtt (config b), minRttStamp := now\<rparr>"
  have c: "updateMinRtt b now = c" using assms(4) by (simp add: updateMinRtt_def Let_def c_def)
  have idle: "\<not> idleRestart c" "state c \<noteq> bbrv3StateProbeRTT" "probeRttExpired c" "bw c = bw b" "config c = config b"
    using assms(1,2) by (simp_all add: c_def bbr_ok_def bounds_ok_def)
  define d where "d = startRound ((saveCwnd (enterProbeRtt c))\<lparr>probeRttDoneStamp := 0, ackPhase := ackProbePhaseStopping\<rparr>)"
  have d: "state d = bbrv3StateProbeRTT" "probeRttDoneStamp d = 0" "bw d = bw b" "cwndGain d = lit (1 / 2)"
    "minRtt d = initialRtt (config b)" "minRttStamp d = now"
    by (simp_all add: d_def startRound_def saveCwnd_def enterProbeRtt_def updateGains_def c_def)
  have p: "fst (probeRttCwnd pl d) = probe_rtt_limit pl b"
    using assms(3) d by (simp add: probeRttCwnd_def bdp_def Let_def probe_rtt_limit_def)
  have "b' = snd (probeRttCwnd pl d)"
    unfolding b'_def c checkProbeRtt_def Let_def handleProbeRtt_def split_beta
    using idle d p assms(5) unfolding d_def [symmetric] by (auto simp: d_def [symmetric])
  then show "state b' = bbrv3StateProbeRTT" "probeRttDoneStamp b' = 0" "minRttStamp b' = now"
    using d by (simp_all add: probeRttCwnd_def bdp_def Let_def)
qed

lemma not_probe_rtt_simps:
  assumes "state b \<noteq> bbrv3StateProbeRTT"
  shows "state (checkStartupDone pl b) \<noteq> bbrv3StateProbeRTT" "state (checkDrain pl b f now) \<noteq> bbrv3StateProbeRTT"
proof -
  have "state (checkStartupFullBandwidth pl b) = state b" by (simp add: checkStartupFullBandwidth_def Let_def)
  then show "state (checkStartupDone pl b) \<noteq> bbrv3StateProbeRTT"
    using assms by (simp add: checkStartupDone_def checkStartupHighLoss_def Let_def enterDrain_def updateGains_def)
  show "state (checkDrain pl b f now) \<noteq> bbrv3StateProbeRTT"
    using assms by (simp add: checkDrain_def enterProbeBw_def split_beta startProbeBwDown_def Let_def)
qed

lemma model_enters:
  assumes "bbr_ok S b" "machine_ok b" "state b \<noteq> bbrv3StateProbeRTT" "initialRtt (config b) \<noteq> 0"
    and "monotime_Sub now (probeRttMinStamp b) > probeRttInterval (config b)" "f > probe_rtt_limit pl b"
    and "updateModelAndState pl b now f k = Inr b'"
  shows "state b' = bbrv3StateProbeRTT" "probeRttDoneStamp b' = 0" "minRttStamp b' = now"
proof -
  define b0 where "b0 = updateAckAggregation (updateCongestionSignals (updateLatestDeliverySignals b)) now"
  define c where "c = checkDrain pl (checkStartupDone pl b0) f k"
  have s0: "slow b0 = slow b" "state b0 = state b"
    by (simp_all add: b0_def updateAckAggregation_def updateCongestionSignals_def updateLatestDeliverySignals_def updateMaxBw_def slow_def)
  have cc: "core c = core b" "slow c = slow b" using s0 by (simp_all add: c_def b0_def)
  have mc: "machine_ok c"
    using machine_drain [OF machine_startup_done] machine_ok_mview [OF core_signals(2)] assms(2) by (simp add: c_def b0_def)
  have sc: "state c \<noteq> bbrv3StateProbeRTT" unfolding c_def using s0 assms(3) by (intro not_probe_rtt_simps) simp
  have oc: "bbr_ok S c" by (rule bbr_ok_coreD [OF cc(1) assms(1)])
  obtain d where d: "updateProbeBwCyclePhase pl c now f = Inr d" "core d = core c" "slow d = slow c" "state d \<noteq> bbrv3StateProbeRTT"
    using cycle_phase [OF bbr_ok_bounds [OF oc] mc, of pl now f] sc by metis
  have cd: "config d = config b" "bw d = bw b" "probeRttMinStamp d = probeRttMinStamp b"
    using d(2,3) cc by (simp_all add: core_def slow_def)
  have od: "bbr_ok S d" by (rule bbr_ok_coreD [OF d(2) oc])
  have "b' = boundBwForModel (checkProbeRtt pl (updateMinRtt d now) now f)"
    using assms(7) unfolding updateModelAndState_def Let_def b0_def [symmetric] c_def [symmetric] d(1) advanceLatestDeliverySignals_def
    by simp
  moreover have "probe_rtt_limit pl d = probe_rtt_limit pl b" using cd by (simp add: probe_rtt_limit_def)
  ultimately show "state b' = bbrv3StateProbeRTT" "probeRttDoneStamp b' = 0" "minRttStamp b' = now"
    using enter_probe_rtt [OF od d(4), where now = now and f = f and pl = pl] assms(4-6) cd by (simp_all add: boundBwForModel_def Let_def)
qed

definition marks :: "BBRv3Sender \<Rightarrow> mtime \<times> mtime" where
  "marks b = (probeRttDoneStamp b, minRttStamp b)"

lemma marks_simps [simp]:
  "marks (updateGains b) = marks b" "marks (updateControlParameters pl b) = marks b" "marks (updateMaxInflight pl b) = marks b"
  "marks (modulateCwndForRecovery b f) = marks b" "marks (boundCwndForModel pl b) = marks b" "marks (boundCwndForProbeRtt pl b) = marks b"
  "marks (checkStartupFullBandwidth pl b) = marks b" "marks (updateMaxBwFilter b) = marks b" "marks (b\<lparr>cwnd := x\<rparr>) = marks b"
  by (simp_all add: marks_def updateGains_def updateControlParameters_def setSendQuantum_def setPacingRate_def setPacingRateWithGain_def
      updateMaxInflight_def bdp_def quantizationBudget_def modulateCwndForRecovery_def boundCwndForModel_def boundCwndForProbeRtt_def
      probeRttCwnd_def checkStartupFullBandwidth_def updateMaxBwFilter_def Let_def split_beta split: bbrv3State.split)

lemma marks_setCwnd [simp]: "marks (setCwnd pl b f) = marks b"
  by (simp add: setCwnd_def Let_def)

lemma round_enters:
  assumes "bbr_ok S b" "machine_ok b" "S < 2 ^ 16" "state b \<noteq> bbrv3StateProbeRTT" "initialRtt (config b) \<noteq> 0"
    and "monotime_Sub t (probeRttMinStamp b) > probeRttInterval (config b)" "word_of_int p > probe_rtt_limit pl b"
    and "onRound pl b p t k = Inr b'"
  shows "state b' = bbrv3StateProbeRTT \<and> probeRttDoneStamp b' = 0"
proof -
  define b1 where "b1 = (if inRecoveryMode b then exitRecovery b else b)"
  have er: "state (exitRecovery b) = state b" "config (exitRecovery b) = config b" by (simp_all add: exitRecovery_def restoreCwnd_def)
  have b1: "bbr_ok S b1" "machine_ok b1" "state b1 \<noteq> bbrv3StateProbeRTT" "config b1 = config b" "slow b1 = slow b"
    using assms(1,2,4) ok_exit_recovery [OF assms(1)] machine_ok_mview [OF mview_simps(15)] er by (simp_all add: b1_def)
  then have l: "probe_rtt_limit pl b1 = probe_rtt_limit pl b" "probeRttMinStamp b1 = probeRttMinStamp b"
    by (simp_all add: probe_rtt_limit_def slow_def)
  obtain b2 where b2: "updateModelAndState pl b1 t (word_of_int p) (clk1 k) = Inr b2" by (rule model_and_state [OF b1(1,2)])
  note m = model_enters [OF b1(1,2,3) _ _ _ b2, unfolded l b1(4), OF assms(5,6,7)]
  define b3 where "b3 = setCwnd pl (updateControlParameters pl (updateGains b2)) (word_of_int p)"
  have "mview b3 = mview b2" "marks b3 = marks b2" by (simp_all add: b3_def)
  then have b3: "state b3 = bbrv3StateProbeRTT" "marks b3 = (0, t)" using m by (simp_all add: mview_def marks_def)
  define b4 where "b4 = checkStartupDone pl b3"
  have "state (checkStartupFullBandwidth pl b3) = state b3" by (simp add: checkStartupFullBandwidth_def Let_def)
  then have b4: "state b4 = bbrv3StateProbeRTT" "marks b4 = (0, t)"
    using b3 by (simp_all add: b4_def checkStartupDone_def checkStartupHighLoss_def Let_def)
  have "b' = endRound pl b4 p t k"
    using assms(8) unfolding onRound_def Let_def b1_def [symmetric] b2 go_bind_simps b3_def [symmetric] b4_def [symmetric] endRound_def
    by simp
  moreover have "endRound pl b4 p t k = updateMaxBwFilter b4"
    using b4 marks_simps(8) [of b4]
    by (simp add: endRound_def Let_def marks_def monotime_Sub_def i64_id is_i64_def Second_def)
  moreover have "state (updateMaxBwFilter b4) = state b4" by (simp add: updateMaxBwFilter_def Let_def)
  ultimately show ?thesis using b4 marks_simps(8) [of b4] by (simp add: marks_def)
qed

section \<open>Properties\<close>

text \<open>
  Property C7.  On every run of the sender: outside Startup and ProbeRTT the pipe has been found full; packet
  conservation is only on during recovery; at most 16 acknowledgements are kept; the divisor of the probing step is
  not zero; and the upper and lower bounds of the model are never set, whatever is lost.
\<close>

theorem bbr_state_machine:
  assumes "bbr_reach pl S b" "S < 2 ^ 16"
  shows "(state b = bbrv3StateStartup \<or> state b = bbrv3StateProbeRTT \<or> isFilledPipe b) \<and>
    (packetConservation b \<longrightarrow> inRecoveryMode b) \<and> length (ackinfo b) \<le> 16 \<and> bwProbeUpCnt b \<noteq> 0 \<and>
    inflightHi b = - 1 \<and> inflightLo b = - 1 \<and> bwHi b = - 1 \<and> bwLo b = - 1"
  using bbr_reach_ok [OF assms] by (simp add: bbr_ok_def bounds_ok_def machine_ok_def isFilledPipe_def)

definition pl0 :: platform where
  "pl0 = \<lparr>conv_i64 = (\<lambda>_. 0), conv_u64 = (\<lambda>_. 0)\<rparr>"

definition bbr_example :: BBRv3Sender where
  "bbr_example = OnPacketSent pl0 (NewBBRv3Sender pl0 1200 1 1) 1 0 0 1200 True"

lemma bbr_example_reach: "bbr_reach pl0 1200 bbr_example"
  unfolding bbr_example_def by (rule br_step [OF br_new bs_sent]) simp_all

lemma bbr_example_fields:
  "stats_ok bbr_example" "sentTimes bbr_example 0 = Some 1" "state bbr_example = bbrv3StateStartup" "delivered bbr_example = 0"
  "roundCount (round bbr_example) = 0" "probeRttMinStamp bbr_example = 1" "initialRtt (config bbr_example) = 100000000"
  "bw bbr_example = u64_of pl0 (fm startupPacingGain (fdiv binary64 (fl 12000) (Seconds 100000000)))"
  by (simp_all add: bbr_example_def OnPacketSent_def NewBBRv3Sender_def init_def enterStartup_def updateGains_def initPacingRate_def
      initFullPipe_def initRoundCounting_def resetLowerBounds_def resetCongestionSignals_def newConfig_def Let_def stats_ok_def
      defaultInitialCwnd_def Millisecond_def)

definition clk0 :: clocks where
  "clk0 = \<lparr>clk1 = 0, clk2 = 0, clk_since = 0, clk_log = 0\<rparr>"

lemma bbr_example_acked: "\<exists>b'. OnPacketAcked pl0 bbr_example 0 1200 p t clk0 = Inr b'"
  by (rule packet_acked [OF bbr_reach_ok(1,2) [OF bbr_example_reach] bbr_example_fields(1)]) auto

theorem bbr_state_machine_witness: "length (ackinfo bbr_example) \<le> 16 \<and> inflightHi bbr_example = - 1"
  using bbr_state_machine [OF bbr_example_reach] by simp

text \<open>
  Property C8.  Whatever is acknowledged, the congestion window never exceeds ten datagrams of the largest size used:
  the sender does not grow its window beyond the initial one.
\<close>

theorem bbr_cwnd_bounded:
  assumes "bbr_reach pl S b" "S < 2 ^ 16"
  shows "unat (cwnd b) \<le> 10 * S"
  using bbr_reach_ok [OF assms] by (simp add: bbr_ok_def)

theorem bbr_cwnd_bounded_witness: "unat (cwnd bbr_example) \<le> 12000"
  using bbr_cwnd_bounded [OF bbr_example_reach] by simp

text \<open>
  Property C20.  On every run, processing an acknowledgement returns: neither the probing step nor the statistics
  divide by zero (with fewer than \<open>2\<^sup>6\<^sup>4 - 1\<close> RTT samples).
\<close>

theorem bbr_ack_returns:
  assumes "bbr_reach pl S b" "S < 2 ^ 16" "stats_ok b"
  shows "\<exists>b'. OnPacketAcked pl b n a p t c = Inr b'"
  by (rule packet_acked [OF bbr_reach_ok(1,2) [OF assms(1,2)] assms(3,2)]) blast

theorem bbr_ack_returns_witness: "\<exists>b'. OnPacketAcked pl0 bbr_example 0 1200 1200 5 clk0 = Inr b'"
  by (rule bbr_ack_returns [OF bbr_example_reach _ bbr_example_fields(1)]) simp

text \<open>
  Property C27.  Every acknowledgement of a known packet outside ProbeRTT counts as a round trip: the round counter goes
  up by one per acknowledged packet, not per round-trip time.
\<close>

theorem bbr_round_per_ack:
  assumes "bbr_reach pl S b" "S < 2 ^ 16" "stats_ok b" "sentTimes b n = Some st" "state b \<noteq> bbrv3StateProbeRTT"
    and "0 \<le> a" "uint (delivered b) + a < 2 ^ 64" "OnPacketAcked pl b n a p t c = Inr b'"
  shows "roundCount (round b') = roundCount (round b) + 1 \<and> isRoundStart (round b')"
proof -
  obtain b2 b3 where *: "OnPacketAcked pl b n a p t c = Inr (updateAndLogStats b3 (clk_since c) (clk_log c))"
    "roundCount (round b2) = roundCount (round b) + 1" "isRoundStart (round b2)" "adv b2 b3"
    by (rule acked_parts [OF bbr_reach_ok(1,2) [OF assms(1,2)] assms(3,2) bbr_reach_ok(3) [OF assms(1,2)] assms(4,5,6,7)])
  have "b' = updateAndLogStats b3 (clk_since c) (clk_log c)" using *(1) assms(8) by simp
  then have "adv b2 b'" using *(4) by simp
  then show ?thesis using *(2,3) by (simp add: adv_def)
qed

theorem bbr_round_per_ack_witness: "\<exists>b'. OnPacketAcked pl0 bbr_example 0 1200 1200 5 clk0 = Inr b' \<and> roundCount (round b') = 1"
proof -
  obtain b' where b': "OnPacketAcked pl0 bbr_example 0 1200 1200 5 clk0 = Inr b'" using bbr_example_acked by blast
  have "roundCount (round b') = roundCount (round bbr_example) + 1 \<and> isRoundStart (round b')"
    by (rule bbr_round_per_ack [OF bbr_example_reach _ bbr_example_fields(1,2) _ _ _ b']) (simp_all add: bbr_example_fields)
  then show ?thesis using b' by (simp add: bbr_example_fields)
qed

text \<open>
  Property C19.  An acknowledgement more than five seconds after the start of the ProbeRTT interval, with more bytes in
  flight than half the estimated bandwidth-delay product, puts the sender into ProbeRTT for good: no sequence of further
  packets, acknowledgements and losses leads out of it, only a retransmission timeout.
\<close>

theorem bbr_probe_rtt_stuck:
  assumes "bbr_reach pl S b" "S < 2 ^ 16" "stats_ok b" "sentTimes b n = Some st" "state b \<noteq> bbrv3StateProbeRTT"
    and "0 \<le> a" "uint (delivered b) + a < 2 ^ 64"
    and "monotime_Sub t (probeRttMinStamp b) > 5 * Second" "word_of_int p > probe_rtt_limit pl b"
    and "OnPacketAcked pl b n a p t c = Inr b'" "(bbr_step pl S)\<^sup>*\<^sup>* b' b''"
  shows "state b'' = bbrv3StateProbeRTT \<and> probeRttDoneStamp b'' = 0"
proof -
  note ok = bbr_reach_ok [OF assms(1,2)]
  have cfg: "initialRtt (config b) \<noteq> 0" "probeRttInterval (config b) = 5 * Second"
    using ok(1) by (simp_all add: bbr_ok_def fixed_cfg_def Millisecond_def)
  obtain b2 b3 where *: "OnPacketAcked pl b n a p t c = Inr (updateAndLogStats b3 (clk_since c) (clk_log c))" "onRound pl b2 p t c = Inr b3"
    "bbr_ok S b2" "machine_ok b2" "slow b2 = slow b" "config b2 = config b" "state b2 = state b"
    by (rule acked_parts [OF ok(1,2) assms(3,2) ok(3) assms(4,5,6,7)])
  have "state b3 = bbrv3StateProbeRTT \<and> probeRttDoneStamp b3 = 0"
    using *(5-7) assms(5,8,9) cfg
    by (intro round_enters [OF *(3,4) assms(2) _ _ _ _ *(2)]) (simp_all add: slow_def probe_rtt_limit_def)
  moreover have b': "b' = updateAndLogStats b3 (clk_since c) (clk_log c)" using *(1) assms(10) by simp
  ultimately have s: "state b' = bbrv3StateProbeRTT" "probeRttDoneStamp b' = 0"
    by (simp_all add: updateAndLogStats_def Let_def split: option.split)
  have r: "bbr_reach pl S b'" by (rule br_step [OF assms(1) bs_acked [OF assms(3,6,7,10)]])
  have "bbr_reach pl S b'' \<and> state b'' = bbrv3StateProbeRTT \<and> probeRttDoneStamp b'' = 0"
    using assms(11)
  proof (induction rule: rtranclp_induct)
    case base
    then show ?case using r s by blast
  next
    case (step x y)
    have x: "bbr_reach pl S x" "state x = bbrv3StateProbeRTT" "probeRttDoneStamp x = 0" using step.IH by blast+
    have "state y = bbrv3StateProbeRTT \<and> probeRttDoneStamp y = probeRttDoneStamp x"
      by (rule stuck_step [OF step.hyps(2) bbr_reach_ok(1,2) [OF x(1) assms(2)] x(2)]) (simp add: x(3))
    then show ?case using br_step [OF x(1) step.hyps(2)] x(3) by simp
  qed
  then show ?thesis by blast
qed

lemma seconds_100ms: obtains x where "Seconds 100000000 = Fin x" "1 / 16 \<le> x" "x \<le> 1 / 8"
proof -
  have r: "representable binary64 (1 / 16)" "representable binary64 (1 / 8)"
    using representable64_int [of 1 4] representable64_int [of 1 3] by simp_all
  have f: "float64 0 = Fin 0" "float64 100000000 = Fin 100000000" using float64_exact [of 0] float64_exact [of 100000000] by simp_all
  have t: "1 / 16 \<le> (1 / 10 :: rat)" "1 / 10 \<le> (1 / 8 :: rat)" by simp_all
  obtain y where y: "fround binary64 (1 / 10) = Fin y" "1 / 16 \<le> y" "y \<le> 1 / 8" by (rule fround64_range [OF r t]) simp_all
  obtain x where x: "fround binary64 y = Fin x" "1 / 16 \<le> x" "x \<le> 1 / 8" by (rule fround64_range [OF r y(2,3)]) simp_all
  have "go_div 100000000 Second = 0" "go_mod 100000000 Second = 100000000" by (simp_all add: go_div_nonneg go_mod_nonneg Second_def)
  then have "Seconds 100000000 = Fin x" using x(1) y(1) f by (simp add: Seconds_def)
  then show thesis using that x by blast
qed

lemma gain_range: obtains g where "startupPacingGain = Fin g" "0 \<le> g" "g \<le> 3"
  using fround64_between [of "277 / 100" 3] by (auto simp: startupPacingGain_def lit_def)

lemma bbr_example_limit: "uint (probe_rtt_limit pl0 bbr_example) \<le> 36000"
proof -
  obtain x where s: "Seconds 100000000 = Fin x" "1 / 16 \<le> x" "x \<le> 1 / 8" by (rule seconds_100ms)
  obtain g where g: "startupPacingGain = Fin g" "0 \<le> g" "g \<le> 3" by (rule gain_range)
  have f: "fl 12000 = Fin 12000" using float64_exact [of 12000] by simp
  have h: "lit (1 / 2) = Fin (1 / 2)" using fround_exact [OF representable64_int [of 1 1]] pow2_mono [of 0 1024] by (simp add: lit_def)
  have "0 \<le> 12000 / x" "12000 / x \<le> of_int 192000" using s by (simp_all add: divide_le_eq)
  then obtain y where y: "fround binary64 (12000 / x) = Fin y" "0 \<le> y" "y \<le> of_int 192000" by (rule fround64_between) simp
  have "g * y \<le> 3 * 192000" using g y by (intro mult_mono) simp_all
  then have "0 \<le> g * y" "g * y \<le> of_int 576000" using g y by simp_all
  then obtain v where v: "fround binary64 (g * y) = Fin v" "0 \<le> v" "v \<le> of_int 576000" by (rule fround64_between) simp
  define w where "w = bw bbr_example"
  have "w = u64_of pl0 (Fin v)" using v(1) y(1) s(2) unfolding w_def bbr_example_fields(8) s(1) f g(1) by simp
  then have w: "uint w \<le> 576000" using to_uint64_between [OF v(2,3)] by simp
  obtain k where k: "uint w = k" "0 \<le> k" "k \<le> 576000" using w by (intro that [OF refl]) simp_all
  have fw: "fl w = Fin (of_int k)" using k float64_exact [of k] by simp
  have "(of_int k :: rat) \<le> of_int 576000" using k(3) unfolding of_int_le_iff .
  then have "of_int k * x \<le> 576000 * (1 / 8)" using s k(2) by (intro mult_mono) simp_all
  then have "0 \<le> of_int k * x" "of_int k * x \<le> of_int 72000" using s k(2) by simp_all
  then obtain u where u: "fround binary64 (of_int k * x) = Fin u" "0 \<le> u" "u \<le> of_int 72000" by (rule fround64_between) simp
  have "0 \<le> 1 / 2 * u" "1 / 2 * u \<le> of_int 36000" using u by simp_all
  then obtain r where r: "fround binary64 (1 / 2 * u) = Fin r" "0 \<le> r" "r \<le> of_int 36000" by (rule fround64_between) simp
  have "probe_rtt_limit pl0 bbr_example = u64_of pl0 (Fin r)"
    unfolding probe_rtt_limit_def bbr_example_fields(7) w_def [symmetric] s(1) h fw fmul.simps u(1) r(1) ..
  then show ?thesis using to_uint64_between [OF r(2,3)] by simp
qed

theorem bbr_probe_rtt_stuck_witness:
  "\<exists>b'. OnPacketAcked pl0 bbr_example 0 1200 40000 6000000000 clk0 = Inr b' \<and> state b' = bbrv3StateProbeRTT \<and> probeRttDoneStamp b' = 0"
proof -
  obtain b' where b': "OnPacketAcked pl0 bbr_example 0 1200 40000 6000000000 clk0 = Inr b'" using bbr_example_acked by blast
  have "state b' = bbrv3StateProbeRTT \<and> probeRttDoneStamp b' = 0"
    by (rule bbr_probe_rtt_stuck [OF bbr_example_reach _ bbr_example_fields(1,2) _ _ _ _ _ b' rtranclp.rtrancl_refl])
      (use bbr_example_limit in \<open>simp_all add: bbr_example_fields monotime_Sub_def i64_id is_i64_def Second_def word_less_def\<close>)
  then show ?thesis using b' by blast
qed

end
