(* ===== verification/LinkedList.thy ===== *)
theory LinkedList
  imports Prelude
begin

text \<open>
  Doubly linked lists, \<^verbatim>\<open>internal/utils/linkedlist/linkedlist.go\<close>.

  A client sees a list as the sequence of its elements, each with its identity (the pointer) and its value.  The
  operations on such sequences are in the first section; \<open>nil\<close> is \<open>None\<close>.
\<close>

section \<open>Sequences of elements\<close>

type_synonym 'v elems = "(nat \<times> 'v) list"

definition elem_Front :: "'v elems \<Rightarrow> nat option" where
  "elem_Front es = (case es of [] \<Rightarrow> None | (a, _) # _ \<Rightarrow> Some a)"

fun elem_Next :: "'v elems \<Rightarrow> nat \<Rightarrow> nat option" where
  "elem_Next [] a = None"
| "elem_Next ((b, v) # es) a = (if a = b then elem_Front es else elem_Next es a)"

fun elem_Prev_from :: "nat option \<Rightarrow> 'v elems \<Rightarrow> nat \<Rightarrow> nat option" where
  "elem_Prev_from p [] a = None"
| "elem_Prev_from p ((b, v) # es) a = (if a = b then p else elem_Prev_from (Some b) es a)"

definition elem_Prev :: "'v elems \<Rightarrow> nat \<Rightarrow> nat option" where
  "elem_Prev es a = elem_Prev_from None es a"

definition elem_Remove :: "'v elems \<Rightarrow> nat \<Rightarrow> 'v elems" where
  "elem_Remove es a = filter (\<lambda>(b, _). b \<noteq> a) es"

text \<open>The element taken from the pool is one that is not in the list.\<close>

definition elem_fresh :: "'v elems \<Rightarrow> nat" where
  "elem_fresh es = Suc (foldr (\<lambda>(a, _). max a) es 0)"

fun elem_insert_after :: "'v elems \<Rightarrow> nat \<Rightarrow> 'v \<Rightarrow> nat \<Rightarrow> 'v elems" where
  "elem_insert_after [] n v a = []"
| "elem_insert_after ((b, w) # es) n v a = (if a = b then (b, w) # (n, v) # es else (b, w) # elem_insert_after es n v a)"

definition elem_InsertAfter :: "'v elems \<Rightarrow> 'v \<Rightarrow> nat \<Rightarrow> 'v elems" where
  "elem_InsertAfter es v a = elem_insert_after es (elem_fresh es) v a"

definition elem_PushFront :: "'v elems \<Rightarrow> 'v \<Rightarrow> 'v elems" where
  "elem_PushFront es v = (elem_fresh es, v) # es"

text \<open>
  Reading \<^verbatim>\<open>e.Value\<close>: dereferencing \<open>nil\<close> panics.  Reading an element that was given back to the pool, which Go
  would let pass, is a failure of the model as well.
\<close>

definition elem_Value :: "'v elems \<Rightarrow> nat option \<Rightarrow> 'v go" where
  "elem_Value es p = (case p of None \<Rightarrow> Inl ''nil pointer dereference''
     | Some a \<Rightarrow> (case map_of es a of None \<Rightarrow> Inl ''use of a removed element'' | Some v \<Rightarrow> Inr v))"

definition elem_set_Value :: "'v elems \<Rightarrow> nat \<Rightarrow> 'v \<Rightarrow> 'v elems" where
  "elem_set_Value es a v = map (\<lambda>(b, w). (b, if b = a then v else w)) es"

section \<open>Elements in the middle of a sequence\<close>

lemma elem_Front_simps [simp]: "elem_Front [] = None" "elem_Front ((a, v) # es) = Some a"
  by (simp_all add: elem_Front_def)

lemma map_of_mid: "distinct (map fst (A @ (a, v) # B)) \<Longrightarrow> map_of (A @ (a, v) # B) a = Some v"
  by (induction A) auto

lemma elem_Value_mid: "distinct (map fst (A @ (a, v) # B)) \<Longrightarrow> elem_Value (A @ (a, v) # B) (Some a) = Inr v"
  using map_of_mid [of A a v B] by (simp add: elem_Value_def)

lemma elem_Next_mid: "distinct (map fst (A @ (a, v) # B)) \<Longrightarrow> elem_Next (A @ (a, v) # B) a = elem_Front B"
  by (induction A) auto

lemma elem_Remove_mid: "distinct (map fst (A @ (a, v) # B)) \<Longrightarrow> elem_Remove (A @ (a, v) # B) a = A @ B"
proof -
  assume "distinct (map fst (A @ (a, v) # B))"
  then have "filter (\<lambda>(b, _). b \<noteq> a) A = A" "filter (\<lambda>(b, _). b \<noteq> a) B = B"
    by (force simp: filter_id_conv)+
  then show ?thesis by (simp add: elem_Remove_def)
qed

lemma elem_set_Value_mid:
  "distinct (map fst (A @ (a, v) # B)) \<Longrightarrow> elem_set_Value (A @ (a, v) # B) a w = A @ (a, w) # B"
  by (auto simp: elem_set_Value_def image_iff intro!: map_idI)

lemma elem_fresh_less: "(a, v) \<in> set es \<Longrightarrow> a < elem_fresh es"
  unfolding elem_fresh_def by (induction es) (auto simp: le_max_iff_disj less_Suc_eq_le)

lemma elem_fresh_notin: "elem_fresh es \<notin> fst ` set es"
  using elem_fresh_less by fastforce

lemma elem_InsertAfter_mid:
  assumes "distinct (map fst (A @ (a, v) # B))"
  shows "elem_InsertAfter (A @ (a, v) # B) w a = A @ (a, v) # (elem_fresh (A @ (a, v) # B), w) # B"
proof -
  have "elem_insert_after (A @ (a, v) # B) n w a = A @ (a, v) # (n, w) # B" for n
    using assms by (induction A) auto
  then show ?thesis by (simp add: elem_InsertAfter_def)
qed

lemma length_elem_Remove:
  assumes "(a, v) \<in> set es"
  shows "length (elem_Remove es a) < length es"
  unfolding elem_Remove_def by (rule length_filter_less [OF assms]) simp

end
