(* ===== verification/FrameSorter.thy ===== *)
theory FrameSorter
  imports LinkedList "HOL-Library.AList" "HOL-Library.Multiset"
begin

text \<open>
  Reassembly of received stream data, \<^verbatim>\<open>frame_sorter.go\<close>: frames arrive in any order, overlapping and repeated, and
  are handed out in order.  The sorter keeps the received frames in a map from offsets to entries and the missing
  intervals in a linked list of gaps.

  The map \<^verbatim>\<open>queue\<close> is an association list.  A callback \<^verbatim>\<open>DoneCb\<close> gives the buffer of a frame back to its pool; it is
  an identifier, and the operations return the identifiers of the callbacks they call, in order.
\<close>

section \<open>Types\<close>

record byteInterval =
  Start :: byte_count
  End :: byte_count

record frameSorterEntry =
  Data :: bytes
  DoneCb :: "nat option"

type_synonym sorter_queue = "(byte_count \<times> frameSorterEntry) list"

record frameSorter =
  queue :: sorter_queue
  readPos :: byte_count
  gaps :: "byteInterval elems"

datatype sorter_error = errDuplicateStreamData | errTooManyGaps

datatype peek_error = errTooLittleData

definition MaxStreamFrameSorterGaps :: nat where
  [go_defs]: "MaxStreamFrameSorterGaps = 10000"

definition MinStreamFrameBufferSize :: nat where
  [go_defs]: "MinStreamFrameBufferSize = 128"

definition newFrameSorter :: frameSorter where
  "newFrameSorter =
     \<lparr>queue = [], readPos = 0, gaps = elem_PushFront [] \<lparr>Start = 0, End = MaxByteCount\<rparr>\<rparr>"

section \<open>Operations\<close>

text \<open>\<^verbatim>\<open>if cb != nil { cb() }\<close>: the callbacks called.\<close>

definition call :: "nat option \<Rightarrow> nat list" where
  "call cb = (case cb of None \<Rightarrow> [] | Some c \<Rightarrow> [c])"

text \<open>
  Slicing \<^verbatim>\<open>data[n:]\<close> and \<^verbatim>\<open>data[:n]\<close>.  Slicing beyond the length, which Go allows up to the capacity, counts as a
  failure as well.
\<close>

definition slice_from :: "'a list \<Rightarrow> int \<Rightarrow> 'a list go" where
  "slice_from xs n = (if 0 \<le> n \<and> n \<le> int (length xs) then Inr (drop (nat n) xs) else Inl ''slice bounds out of range'')"

definition slice_to :: "'a list \<Rightarrow> int \<Rightarrow> 'a list go" where
  "slice_to xs n = (if 0 \<le> n \<and> n \<le> int (length xs) then Inr (take (nat n) xs) else Inl ''slice bounds out of range'')"

fun findStartGap :: "byteInterval elems \<Rightarrow> byte_count \<Rightarrow> (nat \<times> bool) go" where
  "findStartGap [] offset = Inl ''no gap found''"
| "findStartGap ((gap, v) # es) offset =
     (if offset \<ge> Start v \<and> offset \<le> End v then Inr (gap, True)
      else if offset < Start v then Inr (gap, False)
      else findStartGap es offset)"

text \<open>The loop of \<^verbatim>\<open>findEndGap\<close> at an element, given with those behind it and the one before it.\<close>

fun findEndGap_loop :: "nat option \<Rightarrow> byteInterval elems \<Rightarrow> byte_count \<Rightarrow> (nat option \<times> bool) go" where
  "findEndGap_loop prev [] offset = Inl ''no gap found''"
| "findEndGap_loop prev ((gap, v) # es) offset =
     (if offset \<ge> Start v \<and> offset < End v then Inr (Some gap, True)
      else if offset < Start v then Inr (prev, False)
      else findEndGap_loop (Some gap) es offset)"

definition findEndGap :: "byteInterval elems \<Rightarrow> nat \<Rightarrow> byte_count \<Rightarrow> (nat option \<times> bool) go" where
  "findEndGap es startGap offset =
     findEndGap_loop (elem_Prev es startGap) (dropWhile (\<lambda>(a, _). a \<noteq> startGap) es) offset"

lemma delete_shorter: "map_of q pos = Some e \<Longrightarrow> length (AList.delete pos q) < length q"
  unfolding AList.delete_eq by (rule length_filter_less [OF map_of_SomeD]) simp_all

function deleteConsecutive :: "sorter_queue \<Rightarrow> byte_count \<Rightarrow> nat list \<Rightarrow> sorter_queue \<times> nat list" where
  "deleteConsecutive q pos called = (case map_of q pos of
       None \<Rightarrow> (q, called)
     | Some oldEntry \<Rightarrow> deleteConsecutive (AList.delete pos q) (pos + int (length (Data oldEntry)))
         (called @ call (DoneCb oldEntry)))"
  by pat_completeness auto
termination by (relation "measure (\<lambda>(q, _). length q)") (auto simp: delete_shorter)

text \<open>
  The loop of \<^verbatim>\<open>push\<close> that replaces entries covered by the new frame: \<open>None\<close> if the frame turns out to be a
  duplicate, otherwise the queue, \<^verbatim>\<open>pos\<close>, \<^verbatim>\<open>hasReplacedAtLeastOne\<close>, whether the frame is to be cut at \<^verbatim>\<open>pos\<close>, and the
  callbacks called.
\<close>

function push_replace ::
  "sorter_queue \<Rightarrow> byte_count \<Rightarrow> byte_count \<Rightarrow> bool \<Rightarrow> nat list \<Rightarrow>
     (sorter_queue \<times> byte_count \<times> bool \<times> bool \<times> nat list) option" where
  "push_replace q pos fin hasReplacedAtLeastOne called = (case map_of q pos of
       None \<Rightarrow> Some (q, pos, hasReplacedAtLeastOne, False, called)
     | Some oldEntry \<Rightarrow>
         let oldEntryLen = int (length (Data oldEntry)) in
         if fin - pos > oldEntryLen \<or> (hasReplacedAtLeastOne \<and> fin - pos = oldEntryLen) then
           push_replace (AList.delete pos q) (pos + oldEntryLen) fin True (called @ call (DoneCb oldEntry))
         else if \<not> hasReplacedAtLeastOne then None
         else Some (q, pos, hasReplacedAtLeastOne, True, called))"
  by pat_completeness auto
termination by (relation "measure (\<lambda>(q, _). length q)") (auto simp: delete_shorter)

text \<open>The loop of \<^verbatim>\<open>push\<close> that removes the gaps between the first and the last one, with the data behind each.\<close>

function push_remove_gaps ::
  "byteInterval elems \<Rightarrow> sorter_queue \<Rightarrow> nat option \<Rightarrow> byte_count \<Rightarrow> nat list \<Rightarrow>
     (byteInterval elems \<times> sorter_queue \<times> nat list) go" where
  "push_remove_gaps es q gap endGapStart called = (case gap of
       None \<Rightarrow> Inl ''nil pointer dereference''
     | Some a \<Rightarrow> (case map_of es a of
         None \<Rightarrow> Inl ''use of a removed element''
       | Some v \<Rightarrow>
           if End v < endGapStart then
             let nextGap = elem_Next es a; (q, called) = deleteConsecutive q (End v) called in
             push_remove_gaps (elem_Remove es a) q nextGap endGapStart called
           else Inr (es, q, called)))"
  by pat_completeness auto
termination by (relation "measure (\<lambda>(es, _). length es)") (auto dest: map_of_SomeD intro: length_elem_Remove)

text \<open>
  The end of \<^verbatim>\<open>push\<close>: the data is copied if little of it is left, and stored.
\<close>

definition push_store ::
  "frameSorter \<Rightarrow> bytes \<Rightarrow> byte_count \<Rightarrow> nat option \<Rightarrow> bool \<Rightarrow> nat list \<Rightarrow> sorter_error option \<times> frameSorter \<times> nat list" where
  "push_store s data start doneCb wasCut called =
     (let copy = (wasCut \<and> length data < MinStreamFrameBufferSize);
          called = (if copy then called @ call doneCb else called);
          doneCb = (if copy then None else doneCb)
      in if length (gaps s) > MaxStreamFrameSorterGaps then (Some errTooManyGaps, s, called)
         else (None, s\<lparr>queue := AList.update start \<lparr>Data = data, DoneCb = doneCb\<rparr> (queue s)\<rparr>, called))"

text \<open>
  The part of \<^verbatim>\<open>push\<close> after the loop that replaces entries: \<open>sg\<close> and \<open>eg\<close> are the values of \<^verbatim>\<open>startGap\<close> and
  \<^verbatim>\<open>endGap\<close> before they are modified.
\<close>

definition push_update ::
  "frameSorter \<Rightarrow> bytes \<Rightarrow> byte_count \<Rightarrow> byte_count \<Rightarrow> nat option \<Rightarrow> nat \<Rightarrow> bool \<Rightarrow> nat \<Rightarrow> bool \<Rightarrow> byteInterval \<Rightarrow> byteInterval \<Rightarrow>
     bool \<Rightarrow> bool \<Rightarrow> nat list \<Rightarrow> (sorter_error option \<times> frameSorter \<times> nat list) go" where
  "push_update s data start fin doneCb startGap startsInGap endGap endsInGap sg eg hasReplacedAtLeastOne wasCut called =
     (let eq = (startGap = endGap);
          startGapNext = elem_Next (gaps s) startGap
      in
      go_bind (if \<not> startsInGap \<and> \<not> hasReplacedAtLeastOne
               then go_bind (slice_from data (Start sg - start)) (\<lambda>data. Inr (data, Start sg, True))
               else Inr (data, start, wasCut)) (\<lambda>(data, start, wasCut).
      let (es, adjustedStartGapEnd) =
            (if start \<le> Start sg then
               if fin \<ge> End sg then (elem_Remove (gaps s) startGap, False)
               else (elem_set_Value (gaps s) startGap (sg\<lparr>Start := fin\<rparr>), False)
             else if \<not> hasReplacedAtLeastOne then (elem_set_Value (gaps s) startGap (sg\<lparr>End := start\<rparr>), True)
             else (gaps s, False))
      in
      go_bind (if \<not> eq
               then let (q, called) = deleteConsecutive (queue s) (End sg) called in
                 push_remove_gaps es q startGapNext (Start eg) called
               else Inr (es, queue s, called)) (\<lambda>(es, q, called).
      go_bind (if \<not> endsInGap \<and> start \<noteq> End eg \<and> fin > End eg
               then go_bind (slice_to data (End eg - start)) (\<lambda>data. Inr (data, End eg, True))
               else Inr (data, fin, wasCut)) (\<lambda>(data, fin, wasCut).
      go_bind (if fin = End eg then Inr (if \<not> eq then elem_Remove es endGap else es)
               else if eq \<and> adjustedStartGapEnd
                 then Inr (elem_InsertAfter es \<lparr>Start = fin, End = End sg\<rparr> startGap)
               else if \<not> eq
                 then go_bind (elem_Value es (Some endGap)) (\<lambda>v. Inr (elem_set_Value es endGap (v\<lparr>Start := fin\<rparr>)))
               else Inr es) (\<lambda>es.
      Inr (push_store (s\<lparr>gaps := es, queue := q\<rparr>) data start doneCb wasCut called))))))"

definition push ::
  "frameSorter \<Rightarrow> bytes \<Rightarrow> byte_count \<Rightarrow> nat option \<Rightarrow> (sorter_error option \<times> frameSorter \<times> nat list) go" where
  "push s data offset doneCb =
     (if length data = 0 then Inr (Some errDuplicateStreamData, s, [])
      else
        let start = offset; fin = i64 (offset + int (length data)) in
        go_bind (elem_Value (gaps s) (elem_Front (gaps s))) (\<lambda>front.
        if fin \<le> Start front then Inr (Some errDuplicateStreamData, s, [])
        else
          go_bind (findStartGap (gaps s) start) (\<lambda>(startGap, startsInGap).
          go_bind (findEndGap (gaps s) startGap fin) (\<lambda>(endGap, endsInGap).
          go_bind (elem_Value (gaps s) (Some startGap)) (\<lambda>sg.
          go_bind (elem_Value (gaps s) endGap) (\<lambda>eg.
          if (Some startGap = endGap \<and> fin \<le> Start sg) \<or>
             (Some startGap \<noteq> endGap \<and> End sg \<ge> Start eg \<and> fin \<le> Start sg)
          then Inr (Some errDuplicateStreamData, s, [])
          else case push_replace (queue s) start fin False [] of
            None \<Rightarrow> Inr (Some errDuplicateStreamData, s, [])
          | Some (q, pos, hasReplacedAtLeastOne, wasCut, called) \<Rightarrow>
              go_bind (if wasCut then go_bind (slice_to data (pos - start)) (\<lambda>data. Inr (data, pos)) else Inr (data, fin))
                (\<lambda>(data, fin). push_update (s\<lparr>queue := q\<rparr>) data start fin doneCb startGap startsInGap (the endGap) endsInGap
                   sg eg hasReplacedAtLeastOne wasCut called)))))))"

definition Push :: "frameSorter \<Rightarrow> bytes \<Rightarrow> byte_count \<Rightarrow> nat option \<Rightarrow> (sorter_error option \<times> frameSorter \<times> nat list) go" where
  "Push s data offset doneCb = go_bind (push s data offset doneCb) (\<lambda>(err, s, called).
     if err = Some errDuplicateStreamData then Inr (None, s, called @ call doneCb) else Inr (err, s, called))"

text \<open>\<^verbatim>\<open>Pop\<close> returns the offset, the data or \<open>nil\<close>, and the callback.\<close>

definition Pop :: "frameSorter \<Rightarrow> ((byte_count \<times> bytes option \<times> nat option) \<times> frameSorter) go" where
  "Pop s = (case map_of (queue s) (readPos s) of
       None \<Rightarrow> Inr ((readPos s, None, None), s)
     | Some entry \<Rightarrow>
         let s' = s\<lparr>queue := AList.delete (readPos s) (queue s), readPos := readPos s + int (length (Data entry))\<rparr> in
         go_bind (elem_Value (gaps s') (elem_Front (gaps s'))) (\<lambda>front.
         if End front \<le> readPos s' then Inl ''frame sorter BUG: read position higher than a gap''
         else Inr ((readPos s, Some (Data entry), DoneCb entry), s')))"

definition HasMoreData :: "frameSorter \<Rightarrow> bool" where
  "HasMoreData s \<longleftrightarrow> length (queue s) > 0"

text \<open>
  The two loops of \<^verbatim>\<open>Peek\<close>.  Nothing in the code bounds them: on an empty entry they would run forever, so they are
  partial functions, and \<open>None\<close> means that the call does not return.
\<close>

partial_function (option) Peek_check :: "sorter_queue \<Rightarrow> byte_count \<Rightarrow> int \<Rightarrow> peek_error option option" where
  "Peek_check q pos remaining =
     (if remaining > 0 then
        (case map_of q pos of
          None \<Rightarrow> Some (Some errTooLittleData)
        | Some entry \<Rightarrow>
            let entryLen = int (length (Data entry)) in
            if remaining \<le> entryLen then Some None
            else Peek_check q (pos + entryLen) (remaining - entryLen))
      else Some None)"

partial_function (option) Peek_copy :: "sorter_queue \<Rightarrow> byte_count \<Rightarrow> nat \<Rightarrow> bytes \<Rightarrow> bytes option" where
  "Peek_copy q pos n copied =
     (if length copied < n then
        let data = (case map_of q pos of None \<Rightarrow> [] | Some entry \<Rightarrow> Data entry) in
        Peek_copy q (pos + int (length data)) n (copied @ take (n - length copied) data)
      else Some copied)"

text \<open>\<^verbatim>\<open>Peek(offset, p)\<close> with \<open>n = len(p)\<close> returns the error or the new contents of \<^verbatim>\<open>p\<close>.\<close>

definition Peek :: "frameSorter \<Rightarrow> byte_count \<Rightarrow> nat \<Rightarrow> (peek_error + bytes) option" where
  "Peek s offset n =
     (if n = 0 then Some (Inr [])
      else case Peek_check (queue s) offset (int n) of
        None \<Rightarrow> None
      | Some (Some err) \<Rightarrow> Some (Inl err)
      | Some None \<Rightarrow> map_option Inr (Peek_copy (queue s) offset n []))"

declare Peek_check.simps [code] Peek_copy.simps [code]

end
