(* ===== verification/FrameSorterProofs.thy ===== *)
theory FrameSorterProofs
  imports FrameSorter
begin

text \<open>
  Correctness of the frame sorter.  The queue is seen as a partial map from offsets to entries and the gaps as a set
  of offsets; the invariant \<open>sorter_ok\<close> says that from the read position on, the entries tile exactly what is not in
  a gap.  The proof of \<^verbatim>\<open>push\<close> shows that each of its loops cuts an interval out of the map, that the intervals add
  up to the one the stored frame covers, and that the same interval is removed from the gaps.
\<close>

declare deleteConsecutive.simps [simp del] push_replace.simps [simp del] push_remove_gaps.simps [simp del]

section \<open>The queue as a map\<close>

type_synonym entries = "byte_count \<Rightarrow> frameSorterEntry option"

abbreviation elen :: "frameSorterEntry \<Rightarrow> int" where
  "elen e \<equiv> int (length (Data e))"

definition covers :: "entries \<Rightarrow> byte_count \<Rightarrow> bool" where
  "covers m x \<longleftrightarrow> (\<exists>k e. m k = Some e \<and> k \<le> x \<and> x < k + elen e)"

definition queue_ok :: "entries \<Rightarrow> bool" where
  "queue_ok m \<longleftrightarrow> (\<forall>k e. m k = Some e \<longrightarrow> Data e \<noteq> []) \<and>
     (\<forall>k e k' e'. m k = Some e \<and> m k' = Some e' \<and> k < k' \<longrightarrow> k + elen e \<le> k')"

text \<open>No entry straddles the offset.\<close>

definition boundary :: "entries \<Rightarrow> byte_count \<Rightarrow> bool" where
  "boundary m x \<longleftrightarrow> (\<forall>k e. m k = Some e \<and> k < x \<longrightarrow> k + elen e \<le> x)"

definition cut_out :: "entries \<Rightarrow> byte_count \<Rightarrow> byte_count \<Rightarrow> entries" where
  "cut_out m a b = (\<lambda>k. if a \<le> k \<and> k < b then None else m k)"

lemma queue_ok_nonempty: "queue_ok m \<Longrightarrow> m k = Some e \<Longrightarrow> 0 < elen e"
  by (simp add: queue_ok_def)

lemma queue_ok_disjoint: "queue_ok m \<Longrightarrow> m k = Some e \<Longrightarrow> m k' = Some e' \<Longrightarrow> k < k' \<Longrightarrow> k + elen e \<le> k'"
  unfolding queue_ok_def by blast

lemma covers_key: "queue_ok m \<Longrightarrow> m k = Some e \<Longrightarrow> covers m k"
  using queue_ok_nonempty unfolding covers_def by fastforce

lemma covers_entry: "m k = Some e \<Longrightarrow> k \<le> x \<Longrightarrow> x < k + elen e \<Longrightarrow> covers m x"
  unfolding covers_def by blast

lemma boundary_key: "queue_ok m \<Longrightarrow> m x = Some e \<Longrightarrow> boundary m x"
  unfolding boundary_def using queue_ok_disjoint by blast

lemma boundary_next:
  assumes "queue_ok m" "m x = Some e"
  shows "boundary m (x + elen e)"
  unfolding boundary_def
proof (intro allI impI, elim conjE)
  fix k f assume k: "m k = Some f" "k < x + elen e"
  show "k + elen f \<le> x + elen e"
  proof (cases k x rule: linorder_cases)
    case less
    then show ?thesis using queue_ok_disjoint [OF assms(1) k(1) assms(2)] by simp
  next
    case equal
    then show ?thesis using k assms by simp
  next
    case greater
    then show ?thesis using queue_ok_disjoint [OF assms k(1)] k(2) by simp
  qed
qed

lemma boundary_uncovered: "\<not> covers m x \<Longrightarrow> boundary m x"
  unfolding covers_def boundary_def by (meson less_le_not_le linorder_le_less_linear)

lemma boundary_after_uncovered: "\<not> covers m (x - 1) \<Longrightarrow> boundary m x"
  unfolding covers_def boundary_def by (smt (verit))

lemma boundary_covers: "boundary m x \<Longrightarrow> covers m x \<Longrightarrow> \<exists>e. m x = Some e"
  unfolding covers_def boundary_def by (metis less_le_not_le order_le_less)

lemma covers_cut_out:
  assumes "boundary m a" "boundary m b"
  shows "covers (cut_out m a b) x \<longleftrightarrow> covers m x \<and> \<not> (a \<le> x \<and> x < b)"
proof
  assume "covers (cut_out m a b) x"
  then obtain k e where k: "m k = Some e" "k \<le> x" "x < k + elen e" "\<not> (a \<le> k \<and> k < b)"
    unfolding covers_def cut_out_def by (auto split: if_splits)
  have "k < a \<Longrightarrow> k + elen e \<le> a" using assms(1) k(1) unfolding boundary_def by blast
  then show "covers m x \<and> \<not> (a \<le> x \<and> x < b)" using k covers_entry [of m k e x] by fastforce
next
  assume a: "covers m x \<and> \<not> (a \<le> x \<and> x < b)"
  then obtain k e where k: "m k = Some e" "k \<le> x" "x < k + elen e" unfolding covers_def by blast
  have "k < b \<Longrightarrow> k + elen e \<le> b" using assms(2) k(1) unfolding boundary_def by blast
  then have "\<not> (a \<le> k \<and> k < b)" using a k by auto
  then have "cut_out m a b k = Some e" using k(1) by (auto simp: cut_out_def)
  then show "covers (cut_out m a b) x" using covers_entry k(2,3) by blast
qed

lemma cut_out_Some: "cut_out m a b k = Some e \<Longrightarrow> m k = Some e"
  by (simp add: cut_out_def split: if_splits)

lemma queue_ok_cut_out: "queue_ok m \<Longrightarrow> queue_ok (cut_out m a b)"
  unfolding queue_ok_def using cut_out_Some by metis

lemma boundary_cut_out: "boundary m x \<Longrightarrow> boundary (cut_out m a b) x"
  unfolding boundary_def using cut_out_Some by metis

lemma cut_out_empty [simp]: "cut_out m a a = m"
  by (auto simp: cut_out_def fun_eq_iff)

lemma cut_out_append: "a \<le> b \<Longrightarrow> b \<le> c \<Longrightarrow> cut_out (cut_out m a b) b c = cut_out m a c"
  by (auto simp: cut_out_def fun_eq_iff)

lemma cut_out_first: "map_of q a = Some e \<Longrightarrow> queue_ok (map_of q) \<Longrightarrow>
    map_of (AList.delete a q) = cut_out (map_of q) a (a + elen e)"
  unfolding fun_eq_iff AList.delete_conv' cut_out_def
  using queue_ok_disjoint [of "map_of q" a e] queue_ok_nonempty [of "map_of q" a e] by fastforce

section \<open>The loops over the queue\<close>

lemma deleteConsecutive_chain:
  assumes "queue_ok (map_of q)" "boundary (map_of q) pos" "deleteConsecutive q pos called = (q', called')"
  shows "\<exists>z. pos \<le> z \<and> map_of q' = cut_out (map_of q) pos z \<and> (\<forall>x. pos \<le> x \<and> x < z \<longrightarrow> covers (map_of q) x) \<and>
     \<not> covers (map_of q) z"
  using assms
proof (induction q pos called rule: deleteConsecutive.induct)
  case (1 q pos called)
  show ?case
  proof (cases "map_of q pos")
    case None
    then have "q' = q" using 1(4) deleteConsecutive.simps [of q pos called] by simp
    moreover have "\<not> covers (map_of q) pos" using boundary_covers 1(3) None by fastforce
    ultimately show ?thesis by (intro exI [of _ pos]) auto
  next
    case (Some e)
    let ?b = "pos + elen e"
    have m: "map_of (AList.delete pos q) = cut_out (map_of q) pos ?b" using cut_out_first [OF Some 1(2)] .
    have bd: "boundary (map_of q) ?b" "boundary (map_of q) pos" using boundary_next [OF 1(2) Some] 1(3) by simp_all
    obtain z where z: "?b \<le> z" "map_of q' = cut_out (cut_out (map_of q) pos ?b) ?b z"
        "\<forall>x. ?b \<le> x \<and> x < z \<longrightarrow> covers (cut_out (map_of q) pos ?b) x" "\<not> covers (cut_out (map_of q) pos ?b) z"
      using 1(1) [OF Some] 1(4) [unfolded deleteConsecutive.simps [of q pos called]] Some queue_ok_cut_out [OF 1(2)] boundary_cut_out [OF bd(1)] by (auto simp: m)
    have "map_of q' = cut_out (map_of q) pos z" unfolding z(2) using z(1) by (simp add: cut_out_append)
    moreover have "covers (map_of q) x" if "pos \<le> x" "x < z" for x
      using that z(3) covers_entry [of "map_of q" pos e x] Some covers_cut_out [OF bd(2,1)] by (cases "x < ?b") auto
    moreover have "\<not> covers (map_of q) z" using z(1,4) covers_cut_out [OF bd(2,1)] by auto
    ultimately show ?thesis using z(1) by (intro exI [of _ z]) simp
  qed
qed

lemma deleteConsecutive_upto:
  assumes "queue_ok (map_of q)" "boundary (map_of q) pos" "deleteConsecutive q pos called = (q', called')"
    and "pos \<le> z" "\<And>x. pos \<le> x \<Longrightarrow> x < z \<Longrightarrow> covers (map_of q) x" "\<not> covers (map_of q) z"
  shows "map_of q' = cut_out (map_of q) pos z"
proof -
  obtain w where w: "pos \<le> w" "map_of q' = cut_out (map_of q) pos w"
      "\<forall>x. pos \<le> x \<and> x < w \<longrightarrow> covers (map_of q) x" "\<not> covers (map_of q) w"
    using deleteConsecutive_chain [OF assms(1-3)] by blast
  have "w = z" using w assms(4-6) by (meson linorder_neqE_linordered_idom)
  then show ?thesis using w(2) by simp
qed

lemma push_replace_chain:
  assumes "queue_ok (map_of q)" "boundary (map_of q) pos" "pos \<le> fin"
    and "push_replace q pos fin rep called = Some (q', pos', rep', wasCut, called')"
  shows "pos \<le> pos' \<and> pos' \<le> fin \<and> map_of q' = cut_out (map_of q) pos pos' \<and>
     (\<forall>x. pos \<le> x \<and> x < pos' \<longrightarrow> covers (map_of q) x) \<and> boundary (map_of q) pos' \<and>
     (rep' \<longleftrightarrow> rep \<or> pos < pos') \<and> (rep \<or> wasCut \<longrightarrow> rep') \<and>
     (if wasCut then \<exists>e. map_of q pos' = Some e \<and> fin - pos' < elen e else \<not> covers (map_of q) pos')"
  using assms
proof (induction q pos fin rep called rule: push_replace.induct)
  case (1 q pos fin rep called)
  note run = 1(5) [unfolded push_replace.simps [of q pos fin rep called]]
  show ?case
  proof (cases "map_of q pos")
    case None
    then have "\<not> covers (map_of q) pos" using boundary_covers 1(3) by fastforce
    then show ?thesis using 1(3,4) run None by auto
  next
    case (Some e)
    let ?b = "pos + elen e"
    have pos: "0 < elen e" using queue_ok_nonempty [OF 1(2) Some] .
    show ?thesis
    proof (cases "fin - pos > elen e \<or> (rep \<and> fin - pos = elen e)")
      case True
      have m: "map_of (AList.delete pos q) = cut_out (map_of q) pos ?b" using cut_out_first [OF Some 1(2)] .
      have bd: "boundary (map_of q) pos" "boundary (map_of q) ?b" using boundary_next [OF 1(2) Some] 1(3) by simp_all
      note cov = covers_cut_out [OF bd]
      have le: "?b \<le> fin" using True by auto
      have "push_replace (AList.delete pos q) ?b fin True (called @ call (DoneCb e)) = Some (q', pos', rep', wasCut, called')"
        using run Some True by (simp add: Let_def)
      then have IH: "?b \<le> pos'" "pos' \<le> fin" "map_of q' = cut_out (cut_out (map_of q) pos ?b) ?b pos'"
          "\<forall>x. ?b \<le> x \<and> x < pos' \<longrightarrow> covers (cut_out (map_of q) pos ?b) x" "boundary (cut_out (map_of q) pos ?b) pos'"
          "rep'" "if wasCut then \<exists>f. cut_out (map_of q) pos ?b pos' = Some f \<and> fin - pos' < elen f
            else \<not> covers (cut_out (map_of q) pos ?b) pos'"
        using 1(1) [OF Some refl True, unfolded m, OF queue_ok_cut_out [OF 1(2)] boundary_cut_out [OF bd(2)] le]
        by (simp_all add: Let_def)
      have q': "map_of q' = cut_out (map_of q) pos pos'" unfolding IH(3) using pos IH(1) by (simp add: cut_out_append)
      have cv: "covers (map_of q) x" if "pos \<le> x" "x < pos'" for x
        using that IH(4) covers_entry [of "map_of q" pos e x] Some cov by (cases "x < ?b") auto
      have b': "boundary (map_of q) pos'"
        using IH(1,5) bd(2) Some pos unfolding boundary_def cut_out_def
        by (smt (verit) option.distinct(1))
      have "if wasCut then \<exists>f. map_of q pos' = Some f \<and> fin - pos' < elen f else \<not> covers (map_of q) pos'"
        using IH(1,7) cov by (auto dest: cut_out_Some split: if_splits)
      moreover have "pos < pos'" using pos IH(1) by linarith
      ultimately show ?thesis using q' cv b' IH(2,6) by auto
    next
      case False
      then have "rep" "q' = q" "pos' = pos" "rep'" "wasCut" using run Some by (auto simp: Let_def split: if_splits)
      then show ?thesis using False Some 1(3,4) by auto
    qed
  qed
qed

lemma push_replace_None:
  assumes "push_replace q pos fin rep called = None"
  shows "\<not> rep \<and> (\<exists>e. map_of q pos = Some e \<and> fin - pos \<le> elen e)"
proof -
  have t: "push_replace q pos fin True called \<noteq> None" for q pos called
  proof (induction "length q" arbitrary: q pos called rule: less_induct)
    case less
    show ?case unfolding push_replace.simps [of q pos fin True called]
      using less delete_shorter [of q pos]
      by (cases "map_of q pos") (auto simp: Let_def simp del: not_None_eq)
  qed
  show ?thesis using assms unfolding push_replace.simps [of q pos fin rep called]
    by (auto simp: Let_def t split: option.splits if_splits)
qed

lemma cut_out_gap:
  assumes "queue_ok m" "a \<le> b" "b \<le> c" "c \<le> d" "\<And>x. b \<le> x \<Longrightarrow> x < c \<Longrightarrow> \<not> covers m x"
  shows "cut_out (cut_out m a b) c d = cut_out m a d"
proof -
  have "m x = None" if "b \<le> x" "x < c" for x
    using covers_key [OF assms(1), of x] assms(5) [OF that] by (cases "m x") auto
  then show ?thesis using assms(2-4) by (auto simp: cut_out_def fun_eq_iff)
qed

section \<open>Callbacks\<close>

text \<open>The callbacks held by the entries; dropping entries moves their callbacks to those that have been called.\<close>

definition cbs :: "sorter_queue \<Rightarrow> nat multiset" where
  "cbs q = mset (concat (map (\<lambda>(_, e). call (DoneCb e)) q))"

definition drops :: "sorter_queue \<Rightarrow> nat list \<Rightarrow> sorter_queue \<Rightarrow> nat list \<Rightarrow> bool" where
  "drops q called q' called' \<longleftrightarrow> distinct (map fst q') \<and> mset called' + cbs q' = mset called + cbs q"

lemma cbs_delete:
  assumes "distinct (map fst q)" "map_of q k = Some e"
  shows "cbs q = mset (call (DoneCb e)) + cbs (AList.delete k q)"
  using assms
proof (induction q)
  case (Cons p q)
  obtain k' e' where p: "p = (k', e')" by (cases p)
  show ?case
  proof (cases "k' = k")
    case True
    then have "AList.delete k q = q" using Cons.prems(1) p by (simp add: delete_id)
    then show ?thesis using Cons.prems(2) True p by (simp add: cbs_def)
  next
    case False
    then show ?thesis using Cons p by (simp add: cbs_def)
  qed
qed simp

lemma drops_refl: "distinct (map fst q) \<Longrightarrow> drops q called q called"
  by (simp add: drops_def)

lemma drops_trans: "drops q c q1 c1 \<Longrightarrow> drops q1 c1 q2 c2 \<Longrightarrow> drops q c q2 c2"
  by (simp add: drops_def)

lemma drops_delete:
  "distinct (map fst q) \<Longrightarrow> map_of q k = Some e \<Longrightarrow> drops q c (AList.delete k q) (c @ call (DoneCb e))"
  using cbs_delete [of q k e] by (simp add: drops_def distinct_delete)

lemma deleteConsecutive_drops:
  "distinct (map fst q) \<Longrightarrow> deleteConsecutive q pos c = (q', c') \<Longrightarrow> drops q c q' c'"
proof (induction q pos c rule: deleteConsecutive.induct)
  case (1 q pos c)
  show ?case
  proof (cases "map_of q pos")
    case None
    then show ?thesis using 1(2,3) drops_refl by (simp add: deleteConsecutive.simps [of q])
  next
    case (Some e)
    note d = drops_delete [OF 1(2) Some, of c]
    show ?thesis using drops_trans [OF d 1(1) [OF Some]] 1(2,3) Some
      by (simp add: deleteConsecutive.simps [of q] distinct_delete)
  qed
qed

lemma push_replace_drops:
  "distinct (map fst q) \<Longrightarrow> push_replace q pos fin rep c = Some (q', pos', rep', wasCut, c') \<Longrightarrow> drops q c q' c'"
proof (induction q pos fin rep c rule: push_replace.induct)
  case (1 q pos fin rep c)
  note run = 1(3) [unfolded push_replace.simps [of q pos fin rep c]]
  show ?case
  proof (cases "map_of q pos")
    case None
    then show ?thesis using run 1(2) drops_refl by simp
  next
    case (Some e)
    note d = drops_delete [OF 1(2) Some, of c]
    show ?thesis
    proof (cases "fin - pos > elen e \<or> (rep \<and> fin - pos = elen e)")
      case True
      then show ?thesis using drops_trans [OF d 1(1) [OF Some refl True]] run 1(2) Some
        by (simp add: Let_def distinct_delete)
    next
      case False
      then show ?thesis using run Some 1(2) drops_refl by (auto simp: Let_def split: if_splits)
    qed
  qed
qed

lemma push_remove_gaps_drops:
  "distinct (map fst q) \<Longrightarrow> push_remove_gaps es q gap z c = Inr (es', q', c') \<Longrightarrow> drops q c q' c'"
proof (induction es q gap z c rule: push_remove_gaps.induct)
  case (1 es q gap z c)
  note run = 1(3) [unfolded push_remove_gaps.simps [of es q gap z c]]
  obtain a v where a: "gap = Some a" "map_of es a = Some v" using run by (auto split: option.splits)
  show ?case
  proof (cases "End v < z")
    case True
    obtain q1 c1 where d: "deleteConsecutive q (End v) c = (q1, c1)" by fastforce
    note dr = deleteConsecutive_drops [OF 1(2) d]
    have "drops q1 c1 q' c'"
      using 1(1) [OF a True refl d [symmetric] refl] run a True d dr by (simp add: drops_def)
    then show ?thesis using drops_trans [OF dr] by blast
  next
    case False
    then show ?thesis using run a 1(2) drops_refl by simp
  qed
qed

section \<open>The gaps as a set of offsets\<close>

definition in_gap :: "byteInterval elems \<Rightarrow> byte_count \<Rightarrow> bool" where
  "in_gap es x \<longleftrightarrow> (\<exists>p \<in> set es. Start (snd p) \<le> x \<and> x < End (snd p))"

definition gaps_sep :: "byteInterval elems \<Rightarrow> bool" where
  "gaps_sep es \<longleftrightarrow> distinct (map fst es) \<and> sorted_wrt (\<lambda>p q. End (snd p) < Start (snd q)) es \<and>
     (\<forall>p \<in> set es. 0 \<le> Start (snd p) \<and> Start (snd p) < End (snd p))"

definition gaps_ok :: "byteInterval elems \<Rightarrow> bool" where
  "gaps_ok es \<longleftrightarrow> gaps_sep es \<and> es \<noteq> [] \<and> End (snd (last es)) = MaxByteCount"

lemma in_gap_simps [simp]:
  "in_gap [] x \<longleftrightarrow> False" "in_gap (p # es) x \<longleftrightarrow> (Start (snd p) \<le> x \<and> x < End (snd p)) \<or> in_gap es x"
  "in_gap (es @ fs) x \<longleftrightarrow> in_gap es x \<or> in_gap fs x"
  by (auto simp: in_gap_def)

lemma findStartGap_split:
  assumes "es \<noteq> []" "start \<le> End (snd (last es))" "\<forall>p \<in> set es. Start (snd p) < End (snd p)"
  shows "\<exists>A a g B. es = A @ (a, g) # B \<and> findStartGap es start = Inr (a, Start g \<le> start) \<and> start \<le> End g \<and>
    (\<forall>p \<in> set A. End (snd p) < start)"
  using assms
proof (induction es)
  case (Cons p es)
  obtain b h where p: "p = (b, h)" by (cases p)
  show ?case
  proof (cases "start \<le> End h")
    case True
    then have "p # es = [] @ (b, h) # es \<and> findStartGap (p # es) start = Inr (b, Start h \<le> start) \<and> start \<le> End h"
      using Cons(4) p by auto
    then show ?thesis by (metis empty_iff list.set(1))
  next
    case False
    then have "es \<noteq> []" using Cons(3) p by auto
    then obtain A a g B where IH: "es = A @ (a, g) # B" "findStartGap es start = Inr (a, Start g \<le> start)" "start \<le> End g"
        "\<forall>p \<in> set A. End (snd p) < start"
      using Cons by auto
    have "findStartGap (p # es) start = findStartGap es start" using False Cons(4) p by auto
    then show ?thesis using IH False p by (intro exI [of _ "p # A"] exI [of _ a] exI [of _ g] exI [of _ B]) simp
  qed
qed simp

lemma findEndGap_loop_split:
  assumes "es \<noteq> []" "fin < End (snd (last es))" "Start (snd (hd es)) \<le> fin" "gaps_sep es"
  shows "\<exists>M b h R. es = M @ (b, h) # R \<and> findEndGap_loop prev es fin = Inr (Some b, fin < End h) \<and> Start h \<le> fin \<and>
    (\<forall>p \<in> set R. fin < Start (snd p))"
  using assms
proof (induction es arbitrary: prev)
  case (Cons p es)
  obtain c k where p: "p = (c, k)" by (cases p)
  have here: ?case if "findEndGap_loop prev (p # es) fin = Inr (Some c, fin < End k)" "\<forall>p \<in> set es. fin < Start (snd p)"
    using that Cons(4) p by (intro exI [of _ "[]"] exI [of _ c] exI [of _ k] exI [of _ es]) simp
  show ?case
  proof (cases "fin < End k")
    case True
    then show ?thesis using Cons(4,5) p by (intro here) (auto simp: gaps_sep_def)
  next
    case False
    then have ne: "es \<noteq> []" using Cons(3) p by auto
    then obtain d l es' where es: "es = (d, l) # es'" by (cases es) auto
    have next_gap: "findEndGap_loop prev (p # es) fin = findEndGap_loop (Some c) es fin" using False Cons(4) p by auto
    show ?thesis
    proof (cases "fin < Start l")
      case True
      then have "\<forall>p \<in> set es. fin < Start (snd p)" using Cons(5) es p by (fastforce simp: gaps_sep_def)
      then show ?thesis using next_gap False True es by (intro here) simp_all
    next
      case f: False
      have pre: "fin < End (snd (last es))" "Start (snd (hd es)) \<le> fin" "gaps_sep es"
        using Cons(3,5) ne f es by (simp_all add: gaps_sep_def)
      obtain M b h R where "es = M @ (b, h) # R" "findEndGap_loop (Some c) es fin = Inr (Some b, fin < End h)"
          "Start h \<le> fin" "\<forall>p \<in> set R. fin < Start (snd p)"
        using Cons(1) [OF ne pre] by blast
      then show ?thesis using next_gap by (intro exI [of _ "p # M"] exI [of _ b] exI [of _ h] exI [of _ R]) simp
    qed
  qed
qed simp

lemma dropWhile_mid: "distinct (map fst (A @ (a, v) # B)) \<Longrightarrow> dropWhile (\<lambda>(b, _). b \<noteq> a) (A @ (a, v) # B) = (a, v) # B"
  by (induction A) auto

lemma elem_Prev_mid: "distinct (map fst (A @ (c, w) # (a, v) # B)) \<Longrightarrow> elem_Prev (A @ (c, w) # (a, v) # B) a = Some c"
proof -
  have "elem_Prev_from p (A @ (c, w) # (a, v) # B) a = Some c" if "distinct (map fst (A @ (c, w) # (a, v) # B))" for p
    using that by (induction A arbitrary: p) auto
  then show "distinct (map fst (A @ (c, w) # (a, v) # B)) \<Longrightarrow> ?thesis" unfolding elem_Prev_def by blast
qed

text \<open>Where the deletion of entries behind the gaps \<open>M\<close> starts, and the first gap of a list.\<close>

definition first_end :: "byteInterval elems \<Rightarrow> byteInterval \<Rightarrow> byte_count" where
  "first_end M h = (case M of [] \<Rightarrow> Start h | (_, k) # _ \<Rightarrow> End k)"

definition first_start :: "byteInterval elems \<Rightarrow> byteInterval \<Rightarrow> byte_count" where
  "first_start M h = (case M of [] \<Rightarrow> Start h | (_, k) # _ \<Rightarrow> Start k)"

lemma push_remove_gaps_between:
  assumes "gaps_sep (M @ (b, h) # R)" "distinct (map fst (P @ M @ (b, h) # R))" "queue_ok (map_of q)"
    and "\<And>x. first_start M h \<le> x \<Longrightarrow> x \<le> Start h \<Longrightarrow> covers (map_of q) x \<longleftrightarrow> \<not> in_gap (M @ [(b, h)]) x"
  shows "\<exists>q' called'. push_remove_gaps (P @ M @ (b, h) # R) q (elem_Front (M @ (b, h) # R)) (Start h) called =
      Inr (P @ (b, h) # R, q', called') \<and> map_of q' = cut_out (map_of q) (first_end M h) (Start h)"
  using assms
proof (induction M arbitrary: q called)
  case Nil
  have "map_of (P @ (b, h) # R) b = Some h" using Nil(2) by (intro map_of_mid) simp
  moreover have "\<not> End h < Start h" using Nil(1) by (simp add: gaps_sep_def)
  ultimately show ?case unfolding push_remove_gaps.simps [of "P @ [] @ (b, h) # R"]
    by (simp add: first_end_def del: map_of_append)
next
  case (Cons p M)
  obtain c k where p: "p = (c, k)" by (cases p)
  let ?n = "first_start M h"
  have ord: "Start k < End k" "End k < ?n" "?n \<le> first_end M h" "first_end M h \<le> Start h" "End k < Start h" "Start h < End h"
    using Cons(2) p by (auto simp: gaps_sep_def first_start_def first_end_def split: list.split)
  have all: "?n \<le> Start (snd y)" if "y \<in> set M" for y
  proof (cases M)
    case (Cons z M')
    have "Start (snd z) < End (snd z)" "\<forall>y \<in> set M'. End (snd z) < Start (snd y)"
      using Cons.prems(1) Cons by (simp_all add: gaps_sep_def)
    then show ?thesis using that Cons by (cases z) (force simp: first_start_def)
  qed (use that in simp)
  have ngap: "\<not> in_gap (M @ [(b, h)]) x" if "x < ?n" for x
    using that all ord(3,4) by (force simp: in_gap_def)
  have ingap: "in_gap (M @ [(b, h)]) x" if "?n \<le> x" "x < first_end M h \<or> x = ?n" for x
    using that Cons(2) by (auto simp: gaps_sep_def first_start_def first_end_def split: list.splits)
  have cov: "covers (map_of q) x \<longleftrightarrow> \<not> in_gap (p # M @ [(b, h)]) x" if "Start k \<le> x" "x \<le> Start h" for x
    using Cons(5) [of x] that p by (simp add: first_start_def)
  obtain q1 c1 where d: "deleteConsecutive q (End k) called = (q1, c1)" by fastforce
  have "\<not> covers (map_of q) (End k - 1)" using cov [of "End k - 1"] ord p by simp
  moreover have nc: "\<not> covers (map_of q) x" if "?n \<le> x" "x < first_end M h \<or> x = ?n" for x
    using cov [of x] ingap [OF that] that ord by auto
  ultimately have bd: "boundary (map_of q) (End k)" "boundary (map_of q) ?n"
    by (auto intro: boundary_after_uncovered boundary_uncovered)
  have q1: "map_of q1 = cut_out (map_of q) (End k) ?n"
    using cov ngap ingap [of ?n] ord p by (intro deleteConsecutive_upto [OF Cons(4) bd(1) d]) auto
  have cov1: "covers (map_of q1) x \<longleftrightarrow> covers (map_of q) x" if "?n \<le> x" for x
    unfolding q1 covers_cut_out [OF bd] using that ord by auto
  have IH: "\<exists>q' called'. push_remove_gaps (P @ M @ (b, h) # R) q1 (elem_Front (M @ (b, h) # R)) (Start h) c1 =
      Inr (P @ (b, h) # R, q', called') \<and> map_of q' = cut_out (map_of q1) (first_end M h) (Start h)"
  proof (rule Cons(1))
    show "gaps_sep (M @ (b, h) # R)" using Cons(2) by (simp add: gaps_sep_def)
    show "distinct (map fst (P @ M @ (b, h) # R))" using Cons(3) by auto
    show "queue_ok (map_of q1)" unfolding q1 using queue_ok_cut_out [OF Cons(4)] .
    show "covers (map_of q1) x \<longleftrightarrow> \<not> in_gap (M @ [(b, h)]) x" if "?n \<le> x" "x \<le> Start h" for x
      using cov1 [OF that(1)] cov [of x] that ord p by auto
  qed
  have dist: "distinct (map fst (P @ (c, k) # (M @ (b, h) # R)))" using Cons(3) p by simp
  have step: "push_remove_gaps (P @ p # M @ (b, h) # R) q (elem_Front ((p # M) @ (b, h) # R)) (Start h) called =
      push_remove_gaps (P @ M @ (b, h) # R) q1 (elem_Front (M @ (b, h) # R)) (Start h) c1"
    using ord(5) d elem_Next_mid [OF dist] elem_Remove_mid [OF dist] map_of_mid [OF dist]
    unfolding p push_remove_gaps.simps [of "P @ (c, k) # M @ (b, h) # R"]
    by (simp del: map_of_append)
  have "cut_out (map_of q1) (first_end M h) (Start h) = cut_out (map_of q) (End k) (Start h)"
    unfolding q1 using nc ord by (intro cut_out_gap [OF Cons(4)]) auto
  then show ?case using IH step p by (simp add: first_end_def)
qed

lemma gaps_ok_replace:
  assumes "gaps_ok (A @ Y @ B)" "Y \<noteq> []" "gaps_sep X" "fst ` set X \<inter> fst ` (set A \<union> set B) = {}"
    and "\<And>p. p \<in> set X \<Longrightarrow> Start (snd (hd Y)) \<le> Start (snd p) \<and> End (snd p) \<le> End (snd (last Y))"
    and "B = [] \<Longrightarrow> X \<noteq> [] \<and> End (snd (last X)) = End (snd (last Y))"
  shows "gaps_ok (A @ X @ B)"
proof -
  have Y: "hd Y \<in> set Y" "last Y \<in> set Y" using assms(2) by simp_all
  have srt: "\<forall>p \<in> set A. \<forall>q \<in> set Y. End (snd p) < Start (snd q)" "\<forall>p \<in> set A. \<forall>q \<in> set B. End (snd p) < Start (snd q)"
      "\<forall>p \<in> set Y. \<forall>q \<in> set B. End (snd p) < Start (snd q)"
    and sep: "gaps_sep A" "gaps_sep B" "fst ` set A \<inter> fst ` set B = {}"
    using assms(1) by (auto simp: gaps_ok_def gaps_sep_def sorted_wrt_append)
  have AX: "End (snd p) < Start (snd q)" if "p \<in> set A" "q \<in> set X" for p q
    using srt(1) that(1) Y(1) assms(5) [OF that(2)] by (meson order.strict_trans2)
  have XB: "End (snd p) < Start (snd q)" if "p \<in> set X" "q \<in> set B" for p q
    using srt(3) that(2) Y(2) assms(5) [OF that(1)] by (meson order.strict_trans1)
  have "distinct (map fst (A @ X @ B))" using assms(3,4) sep by (auto simp: gaps_sep_def)
  moreover have "sorted_wrt (\<lambda>p q. End (snd p) < Start (snd q)) (A @ X @ B)"
    using AX XB srt(2) sep(1,2) assms(3) by (auto simp: gaps_sep_def sorted_wrt_append)
  moreover have "\<forall>p \<in> set (A @ X @ B). 0 \<le> Start (snd p) \<and> Start (snd p) < End (snd p)"
    using sep(1,2) assms(3) by (auto simp: gaps_sep_def)
  moreover have "A @ X @ B \<noteq> [] \<and> End (snd (last (A @ X @ B))) = MaxByteCount"
    using assms(1,2,6) by (cases "B = []") (auto simp: gaps_ok_def)
  ultimately show ?thesis by (simp only: gaps_ok_def gaps_sep_def simp_thms)
qed

section \<open>What is left of the gaps\<close>

definition left_gap :: "nat \<Rightarrow> byteInterval \<Rightarrow> byte_count \<Rightarrow> byteInterval elems" where
  "left_gap a g u = (if u \<le> Start g then [] else [(a, g\<lparr>End := u\<rparr>)])"

definition right_gap :: "nat \<Rightarrow> byteInterval \<Rightarrow> byte_count \<Rightarrow> byteInterval elems" where
  "right_gap b h v = (if End h \<le> v then [] else [(b, h\<lparr>Start := v\<rparr>)])"

lemma slice_from_ok: "0 \<le> n \<Longrightarrow> n \<le> int (length xs) \<Longrightarrow> slice_from xs n = Inr (drop (nat n) xs)"
  by (simp add: slice_from_def)

lemma slice_to_ok: "0 \<le> n \<Longrightarrow> n \<le> int (length xs) \<Longrightarrow> slice_to xs n = Inr (take (nat n) xs)"
  by (simp add: slice_to_def)

lemma byteInterval_upds [simp]:
  "\<lparr>Start = u, End = End g\<rparr> = g\<lparr>Start := u\<rparr>" "Start (g\<lparr>Start := u\<rparr>) = u"
  by (cases g, simp)+

text \<open>The frame and the offset it starts at, after the entries it replaces are gone.\<close>

definition new_start :: "byteInterval \<Rightarrow> byte_count \<Rightarrow> bool \<Rightarrow> byte_count" where
  "new_start g start rep = (if rep then start else max start (Start g))"

definition part :: "bytes \<Rightarrow> byte_count \<Rightarrow> byte_count \<Rightarrow> byte_count \<Rightarrow> bytes" where
  "part data start u v = take (nat (v - u)) (drop (nat (u - start)) data)"

lemma part_all: "length data = nat (v - start) \<Longrightarrow> part data start start v = data"
  by (simp add: part_def)

lemma slice_part:
  assumes "int (length data) = fin - start" "start \<le> u" "u \<le> v" "v \<le> fin"
  shows "slice_to (part data start u fin) (v - u) = Inr (part data start u v)"
  using assms by (subst slice_to_ok) (auto simp: part_def min_def nat_diff_distrib)

lemma new_start_ge: "start \<le> new_start g start rep"
  by (simp add: new_start_def)

lemma push_update_single:
  assumes es: "gaps s = A @ (a, g) # B" "distinct (map fst (gaps s))"
    and len: "int (length data) = fin - start" "start < fin" "Start g < fin" "Start g < End g"
    and u: "u = new_start g start rep" "u < End g" "rep \<Longrightarrow> start < Start g"
  shows "\<exists>w b. push_update s data start fin cb a (Start g \<le> start) a (fin < End g) g g rep False called =
    Inr (push_store (s\<lparr>gaps := A @ (left_gap a g u @ right_gap b g fin) @ B\<rparr>) (part data start u (min fin (End g))) u cb w called) \<and>
    b \<notin> fst ` (set A \<union> set B) \<and> (Start g < u \<longrightarrow> b \<noteq> a)"
proof -
  have d: "distinct (map fst (A @ (a, g) # B))" using es by simp
  note mid = elem_Remove_mid [OF d] elem_set_Value_mid [OF d] 
  have d': "distinct (map fst (A @ (a, g\<lparr>End := u\<rparr>) # B))" using d by simp
  let ?n = "elem_fresh (A @ (a, g\<lparr>End := u\<rparr>) # B)"
  have n: "?n \<notin> fst ` (set A \<union> set B)" "?n \<noteq> a"
    using elem_fresh_notin [of "A @ (a, g\<lparr>End := u\<rparr>) # B"] by (auto simp: image_Un)
  have a: "a \<notin> fst ` (set A \<union> set B)" using d by (auto simp: image_Un)
  have front: "(if \<not> Start g \<le> start \<and> \<not> rep then go_bind (slice_from data (Start g - start)) (\<lambda>data. Inr (data, Start g, True))
      else Inr (data, start, False)) = Inr (part data start u fin, u, \<not> Start g \<le> start \<and> \<not> rep)"
    using len u by (auto simp: slice_from_ok new_start_def part_def)
  have tail: "slice_to (part data start u fin) (End g - u) = Inr (part data start u (End g))" if "End g < fin"
    using len u that new_start_ge by (intro slice_part) auto
  show ?thesis
  proof (cases "u \<le> Start g")
    case True
    then show ?thesis unfolding push_update_def Let_def front
      using es(1) mid a len u tail
      by (intro exI [of _ "(\<not> Start g \<le> start \<and> \<not> rep) \<or> End g < fin"] exI [of _ a])
        (auto simp: left_gap_def right_gap_def min_def)
  next
    case False
    then have "\<not> rep" using u by (auto simp: new_start_def)
    then show ?thesis unfolding push_update_def Let_def front
      using es(1) mid n len u tail False elem_InsertAfter_mid [OF d']
      by (intro exI [of _ "(\<not> Start g \<le> start \<and> \<not> rep) \<or> End g < fin"] exI [of _ ?n])
        (auto simp: left_gap_def right_gap_def min_def)
  qed
qed

lemma push_update_multi:
  assumes es: "gaps s = A @ (a, g) # M @ (b, h) # R" "distinct (map fst (gaps s))"
    and len: "int (length data) = fin - start" "start < fin" "Start g < End g" "End g < Start h" "Start h \<le> fin" "Start h < End h"
    and u: "u = new_start g start rep" "u < End g \<or> rep \<and> u = End g" "rep \<Longrightarrow> start < Start g \<or> start = End g"
    and del: "deleteConsecutive (queue s) (End g) called = (q2, called2)"
      "push_remove_gaps (A @ left_gap a g u @ M @ (b, h) # R) q2 (elem_Front (M @ (b, h) # R)) (Start h) called2 =
         Inr (A @ left_gap a g u @ (b, h) # R, q3, called3)"
  shows "\<exists>w. push_update s data start fin cb a (Start g \<le> start) b (fin < End h) g h rep False called =
    Inr (push_store (s\<lparr>gaps := A @ (left_gap a g u @ right_gap b h fin) @ R, queue := q3\<rparr>)
      (part data start u (min fin (End h))) u cb w called3)"
proof -
  have d: "distinct (map fst (A @ (a, g) # (M @ (b, h) # R)))" using es by simp
  have d2: "distinct (map fst ((A @ left_gap a g u) @ (b, h) # R))" using d by (auto simp: left_gap_def)
  have ab: "a \<noteq> b" using d by auto
  have nxt: "elem_Next (gaps s) a = elem_Front (M @ (b, h) # R)" unfolding es(1) by (rule elem_Next_mid [OF d])
  have front: "(if \<not> Start g \<le> start \<and> \<not> rep then go_bind (slice_from data (Start g - start)) (\<lambda>data. Inr (data, Start g, True))
      else Inr (data, start, False)) = Inr (part data start u fin, u, \<not> Start g \<le> start \<and> \<not> rep)"
    using len u by (auto simp: slice_from_ok new_start_def part_def)
  have first: "(if u \<le> Start g then if fin \<ge> End g then (elem_Remove (gaps s) a, False)
               else (elem_set_Value (gaps s) a (g\<lparr>Start := fin\<rparr>), False)
             else if \<not> rep then (elem_set_Value (gaps s) a (g\<lparr>End := u\<rparr>), True) else (gaps s, False)) =
      (A @ left_gap a g u @ M @ (b, h) # R, Start g < u \<and> \<not> rep)"
    using elem_Remove_mid [OF d] elem_set_Value_mid [OF d] es(1) len u by (auto simp: left_gap_def new_start_def)
  have tail: "slice_to (part data start u fin) (End h - u) = Inr (part data start u (End h))" if "End h < fin"
    using len u that new_start_ge by (intro slice_part) auto
  have last: "(if \<not> fin < End h \<and> u \<noteq> End h \<and> fin > End h
         then go_bind (slice_to (part data start u fin) (End h - u)) (\<lambda>data. Inr (data, End h, True))
         else Inr (part data start u fin, fin, w)) = Inr (part data start u (min fin (End h)), min fin (End h), End h < fin \<or> w)" for w
    using tail len u by (auto simp: min_def)
  show ?thesis unfolding push_update_def Let_def front go_bind_simps prod.case nxt first
    using ab del last elem_Remove_mid [OF d2] elem_set_Value_mid [OF d2] elem_Value_mid [OF d2]
    by (intro exI [of _ "End h < fin \<or> \<not> Start g \<le> start \<and> \<not> rep"]) (auto simp: right_gap_def min_def)
qed

lemma push_update_cut:
  assumes "gaps s = A @ (a, g) # B" "start = End g" "Start g < End g" "start < fin"
  shows "push_update s data start fin cb a True a False g g True wasCut called =
    Inr (push_store s data start cb wasCut called)"
  using assms by (cases s) (simp add: push_update_def)

section \<open>The invariant\<close>

definition sorter_ok :: "frameSorter \<Rightarrow> bool" where
  "sorter_ok s \<longleftrightarrow> gaps_ok (gaps s) \<and> queue_ok (map_of (queue s)) \<and> distinct (map fst (queue s)) \<and> 0 \<le> readPos s \<and>
     (\<forall>x. covers (map_of (queue s)) x \<longleftrightarrow> readPos s \<le> x \<and> x < MaxByteCount \<and> \<not> in_gap (gaps s) x) \<and>
     (\<forall>x. in_gap (gaps s) x \<longrightarrow> readPos s \<le> x)"

lemma gap_uncovered: "sorter_ok s \<Longrightarrow> in_gap (gaps s) x \<Longrightarrow> \<not> covers (map_of (queue s)) x"
  by (simp add: sorter_ok_def)

lemma readPos_le_gap: "sorter_ok s \<Longrightarrow> in_gap (gaps s) x \<Longrightarrow> readPos s \<le> x"
  by (simp add: sorter_ok_def)

lemma gap_no_key: "sorter_ok s \<Longrightarrow> in_gap (gaps s) x \<Longrightarrow> map_of (queue s) x = None"
  using covers_key [of "map_of (queue s)" x] gap_uncovered [of s x]
  by (cases "map_of (queue s) x") (auto simp: sorter_ok_def)

lemma covered_from:
  assumes "sorter_ok s" "in_gap (gaps s) y \<or> covers (map_of (queue s)) y" "y \<le> x" "x < MaxByteCount" "\<not> in_gap (gaps s) x"
  shows "covers (map_of (queue s)) x"
  using assms unfolding sorter_ok_def by fastforce

lemma gap_order:
  assumes "gaps_ok (A @ (a, g) # B)"
  shows "\<forall>p \<in> set A. End (snd p) < Start g" "\<forall>p \<in> set B. End g < Start (snd p)" "Start g < End g" "0 \<le> Start g"
    "\<forall>p \<in> set A. \<forall>q \<in> set B. End (snd p) < Start (snd q)"
    "distinct (map fst (A @ (a, g) # B))"
  using assms by (auto simp: gaps_ok_def gaps_sep_def sorted_wrt_append)

lemma not_in_gap_before:
  assumes "gaps_ok (A @ (a, g) # B)" "\<forall>p \<in> set A. End (snd p) < start" "start \<le> x" "x < Start g"
  shows "\<not> in_gap (A @ (a, g) # B) x"
proof -
  have "\<forall>p \<in> set A. End (snd p) < x" using assms(2,3) by auto
  moreover have "\<forall>p \<in> set B. x < Start (snd p)" using gap_order(2,3) [OF assms(1)] assms(4) by fastforce
  ultimately show ?thesis using assms(4) by (force simp: in_gap_def)
qed

lemma not_in_gap_after:
  assumes "gaps_ok (A @ (a, g) # B)" "End g \<le> x" "\<forall>p \<in> set B. x < Start (snd p)"
  shows "\<not> in_gap (A @ (a, g) # B) x"
proof -
  have "\<forall>p \<in> set A. End (snd p) < x" using gap_order(1,3) [OF assms(1)] assms(2) by fastforce
  then show ?thesis using assms(2,3) by (force simp: in_gap_def)
qed

lemma in_gap_here: "Start g \<le> x \<Longrightarrow> x < End g \<Longrightarrow> in_gap (A @ (a, g) # B) x"
  by simp

lemma gap_boundaries:
  assumes "sorter_ok s" "gaps s = A @ (a, g) # B" "Start g \<le> x" "x \<le> End g"
  shows "boundary (map_of (queue s)) x"
proof (cases "x < End g")
  case True
  then show ?thesis using assms gap_uncovered [of s x] by (intro boundary_uncovered) simp
next
  case False
  moreover have "Start g < End g" using gap_order(3) [of A a g B] assms(1,2) by (simp add: sorter_ok_def)
  ultimately show ?thesis using assms gap_uncovered [of s "x - 1"] by (intro boundary_after_uncovered) simp
qed

lemma End_le_Max:
  assumes "gaps_ok (A @ (a, g) # B)"
  shows "End g \<le> MaxByteCount"
proof (cases B rule: rev_cases)
  case (snoc B' p)
  then have "End g < Start (snd p)" "Start (snd p) < End (snd p)" "End (snd p) = MaxByteCount"
    using assms gap_order(2) [OF assms] by (auto simp: gaps_ok_def gaps_sep_def)
  then show ?thesis by simp
qed (use assms in \<open>simp add: gaps_ok_def\<close>)

lemma key_at_gap_end:
  assumes "sorter_ok s" "gaps s = A @ (a, g) # B" "End g < MaxByteCount"
  shows "\<exists>e. map_of (queue s) (End g) = Some e"
proof -
  have ok: "gaps_ok (A @ (a, g) # B)" using assms by (simp add: sorter_ok_def)
  note o = gap_order [OF ok]
  have "covers (map_of (queue s)) (End g)"
    using covered_from [OF assms(1), of "Start g" "End g"] not_in_gap_after [OF ok, of "End g"] o(2,3) assms(2,3) by simp
  moreover have "boundary (map_of (queue s)) (End g)" using gap_boundaries [OF assms(1,2)] o(3) by simp
  ultimately show ?thesis using boundary_covers by blast
qed

text \<open>Replacing entries up to an uncovered offset that the new frame reaches.\<close>

lemma push_replace_upto:
  assumes "queue_ok (map_of q)" "map_of q start = Some e" "start < z" "z \<le> fin"
    and "\<And>x. start \<le> x \<Longrightarrow> x < z \<Longrightarrow> covers (map_of q) x" "\<not> covers (map_of q) z"
    and "push_replace q start fin False [] = Some (q', pos, rep, wasCut, called)"
  shows "pos = z \<and> rep \<and> \<not> wasCut \<and> map_of q' = cut_out (map_of q) start z"
proof -
  have "start \<le> fin" using assms(3,4) by simp
  note c = push_replace_chain [OF assms(1) boundary_key [OF assms(1,2)] this assms(7)]
  have p: "pos \<le> z" using c assms(3,6) by (meson not_le_imp_less order.strict_implies_order)
  have nc: "\<not> wasCut"
  proof
    assume w: wasCut
    then obtain f where "map_of q pos = Some f" "fin - pos < elen f" using c by auto
    then have "covers (map_of q) z" using p assms(4) covers_entry [of "map_of q" pos f z] by simp
    then show False using assms(6) by simp
  qed
  then have "\<not> covers (map_of q) pos" "start \<le> pos" using c by simp_all
  then have "pos = z" using assms(5) p by (meson linorder_neqE_linordered_idom not_le)
  then show ?thesis using c nc assms(3) by simp
qed

section \<open>A frame is inserted\<close>

text \<open>The bytes from \<open>u\<close> to \<open>v\<close> are taken out of the gaps and of the entries.\<close>

definition opens :: "frameSorter \<Rightarrow> byte_count \<Rightarrow> byte_count \<Rightarrow> byteInterval elems \<Rightarrow> sorter_queue \<Rightarrow> bool" where
  "opens s u v es q \<longleftrightarrow> readPos s \<le> u \<and> u < v \<and> v \<le> MaxByteCount \<and> gaps_ok es \<and>
     (\<forall>x. in_gap es x \<longleftrightarrow> in_gap (gaps s) x \<and> \<not> (u \<le> x \<and> x < v)) \<and>
     map_of q = cut_out (map_of (queue s)) u v \<and> boundary (map_of (queue s)) u \<and> boundary (map_of (queue s)) v"

lemma gaps_sep_parts:
  assumes "Start g < u \<Longrightarrow> v < End h \<Longrightarrow> a \<noteq> b" "0 \<le> Start g" "u < v" "0 \<le> v"
  shows "gaps_sep (left_gap a g u @ right_gap b h v)"
  using assms by (auto simp: gaps_sep_def left_gap_def right_gap_def)

lemma opens_gaps:
  assumes ok: "gaps_ok (A @ Y @ B)" and Y: "Y \<noteq> []" "fst (hd Y) = a" "snd (hd Y) = g" "snd (last Y) = h"
    and mid: "\<And>x. in_gap Y x \<Longrightarrow> Start g \<le> x \<and> x < End h \<and> (x < u \<longrightarrow> x < End g) \<and> (min fin (End h) \<le> x \<longrightarrow> Start h \<le> x)"
    and sub: "\<And>x. Start g \<le> x \<Longrightarrow> x < End g \<Longrightarrow> in_gap Y x" "\<And>x. Start h \<le> x \<Longrightarrow> x < End h \<Longrightarrow> in_gap Y x"
    and uv: "u \<le> End g" "Start h \<le> fin" "u < min fin (End h)" "Start g \<le> Start h" "End g \<le> End h" "0 \<le> Start g" "0 \<le> fin"
    and AB: "\<And>p. p \<in> set A \<Longrightarrow> End (snd p) < u" "\<And>p. p \<in> set B \<Longrightarrow> fin < Start (snd p)"
    and ids: "Start g < u \<Longrightarrow> a \<noteq> b" "a \<notin> fst ` (set A \<union> set B)" "b \<notin> fst ` (set A \<union> set B)"
    and max: "B = [] \<Longrightarrow> fin < End h"
  shows "gaps_ok (A @ (left_gap a g u @ right_gap b h fin) @ B)"
    "in_gap (A @ (left_gap a g u @ right_gap b h fin) @ B) x \<longleftrightarrow>
       in_gap (A @ Y @ B) x \<and> \<not> (u \<le> x \<and> x < min fin (End h))"
proof -
  let ?X = "left_gap a g u @ right_gap b h fin"
  have "gaps_sep ?X" using ids(1) uv by (auto intro!: gaps_sep_parts)
  then show "gaps_ok (A @ ?X @ B)"
    using Y ids uv max by (intro gaps_ok_replace [OF ok Y(1)]) (auto simp: left_gap_def right_gap_def split: if_splits)
  have L: "in_gap (left_gap a g u) x \<longleftrightarrow> Start g \<le> x \<and> x < u" and R: "in_gap (right_gap b h fin) x \<longleftrightarrow> fin \<le> x \<and> x < End h"
    by (auto simp: left_gap_def right_gap_def)
  have X: "in_gap ?X x \<longleftrightarrow> in_gap Y x \<and> \<not> (u \<le> x \<and> x < min fin (End h))"
  proof (cases "in_gap Y x")
    case True
    then show ?thesis using mid [OF True] L R uv(3) by auto
  next
    case False
    then have "\<not> (Start g \<le> x \<and> x < u)" "\<not> (fin \<le> x \<and> x < End h)" using sub [of x] uv(1,2) by auto
    then show ?thesis using False L R by simp
  qed
  moreover have "u \<le> x \<and> x < min fin (End h) \<Longrightarrow> \<not> in_gap A x \<and> \<not> in_gap B x"
    using AB by (force simp: in_gap_def)
  ultimately show "in_gap (A @ ?X @ B) x \<longleftrightarrow> in_gap (A @ Y @ B) x \<and> \<not> (u \<le> x \<and> x < min fin (End h))"
    by auto
qed

text \<open>What a call of \<^verbatim>\<open>push\<close> achieves: the frame is a duplicate, or a part of it that fills all the gaps it meets is stored.\<close>

definition pushed ::
  "frameSorter \<Rightarrow> bytes \<Rightarrow> byte_count \<Rightarrow> byte_count \<Rightarrow> nat option \<Rightarrow> (sorter_error option \<times> frameSorter \<times> nat list) go \<Rightarrow> bool" where
  "pushed s data start fin cb r \<longleftrightarrow>
     r = Inr (Some errDuplicateStreamData, s, []) \<and> (\<forall>x. start \<le> x \<and> x < fin \<longrightarrow> \<not> in_gap (gaps s) x) \<or>
     (\<exists>u v es q w called. r = Inr (push_store (s\<lparr>queue := q, gaps := es\<rparr>) (part data start u v) u cb w called) \<and>
        start \<le> u \<and> v \<le> fin \<and> opens s u v es q \<and> drops (queue s) [] q called \<and> (\<forall>x. start \<le> x \<and> x < fin \<and> in_gap (gaps s) x \<longrightarrow> u \<le> x \<and> x < v))"

lemma pushed_dupI: "(\<And>x. start \<le> x \<Longrightarrow> x < fin \<Longrightarrow> \<not> in_gap (gaps s) x) \<Longrightarrow>
    pushed s data start fin cb (Inr (Some errDuplicateStreamData, s, []))"
  unfolding pushed_def by blast

lemma pushedI:
  assumes "r = Inr (push_store (s\<lparr>queue := q, gaps := es\<rparr>) (part data start u v) u cb w called)" "start \<le> u" "v \<le> fin" "opens s u v es q" "drops (queue s) [] q called"
    and "\<And>x. start \<le> x \<Longrightarrow> x < fin \<Longrightarrow> in_gap (gaps s) x \<Longrightarrow> u \<le> x \<and> x < v"
  shows "pushed s data start fin cb r"
  using assms unfolding pushed_def by blast

definition push_rest where
  "push_rest s data start fin doneCb startGap startsInGap endGap endsInGap sg eg =
     (case push_replace (queue s) start fin False [] of
        None \<Rightarrow> Inr (Some errDuplicateStreamData, s, [])
      | Some (q, pos, hasReplacedAtLeastOne, wasCut, called) \<Rightarrow>
          go_bind (if wasCut then go_bind (slice_to data (pos - start)) (\<lambda>data. Inr (data, pos)) else Inr (data, fin))
            (\<lambda>(data, fin). push_update (s\<lparr>queue := q\<rparr>) data start fin doneCb startGap startsInGap endGap endsInGap
               sg eg hasReplacedAtLeastOne wasCut called))"

lemma single_inserted:
  assumes ok: "sorter_ok s" and es: "gaps s = A @ (a, g) # B"
    and AB: "\<forall>p \<in> set A. End (snd p) < start" "\<forall>p \<in> set B. fin < Start (snd p)"
    and len: "int (length data) = fin - start" "start < fin" "Start g < fin" "fin < MaxByteCount"
    and u: "u = new_start g start rep" "u < End g" "rep \<Longrightarrow> start < Start g" "readPos s \<le> u" "boundary (map_of (queue s)) u"
    and q: "map_of q = cut_out (map_of (queue s)) u (max u (Start g))" and drops: "drops (queue s) [] q called"
  shows "pushed s data start fin cb
    (push_update (s\<lparr>queue := q\<rparr>) data start fin cb a (Start g \<le> start) a (fin < End g) g g rep False called)"
proof -
  have gok: "gaps_ok (A @ [(a, g)] @ B)" using ok es by (simp add: sorter_ok_def)
  note o = gap_order [of A a g B] and mx = End_le_Max [of A a g B]
  have g: "Start g < End g" "0 \<le> Start g" "distinct (map fst (gaps s))" "End g \<le> MaxByteCount"
    using o gok es mx by simp_all
  let ?v = "min fin (End g)"
  have su: "start \<le> u" using u(1) new_start_ge by simp
  have e1: "gaps (s\<lparr>queue := q\<rparr>) = A @ (a, g) # B" "distinct (map fst (gaps (s\<lparr>queue := q\<rparr>)))" using es g(3) by simp_all
  obtain w b where run: "push_update (s\<lparr>queue := q\<rparr>) data start fin cb a (Start g \<le> start) a (fin < End g) g g rep False called =
      Inr (push_store (s\<lparr>queue := q, gaps := A @ (left_gap a g u @ right_gap b g fin) @ B\<rparr>) (part data start u ?v) u cb w called)"
      and b: "b \<notin> fst ` (set A \<union> set B)" "Start g < u \<Longrightarrow> b \<noteq> a"
    using push_update_single [OF e1 len(1-3) g(1) u(1-3), of cb called] by blast
  have a: "a \<notin> fst ` (set A \<union> set B)" using g(3) es by auto
  have uv: "u < ?v" using u len by (auto simp: new_start_def)
  have lst: "fin < End g" if "B = []" using that gok len by (simp add: gaps_ok_def)
  have AB': "\<And>p. p \<in> set A \<Longrightarrow> End (snd p) < u" "\<And>p. p \<in> set B \<Longrightarrow> fin < Start (snd p)" using AB su by auto
  have ab: "Start g < u \<Longrightarrow> a \<noteq> b" and pre: "Start g \<le> fin" "u < fin \<and> u < End g" using b(2) len uv by auto
  note og = opens_gaps [OF gok, of a g g u fin b, simplified, OF pre g(2) AB' ab a b(1) lst]
  have gaps: "gaps_ok (A @ (left_gap a g u @ right_gap b g fin) @ B)"
      "in_gap (A @ (left_gap a g u @ right_gap b g fin) @ B) x \<longleftrightarrow> in_gap (gaps s) x \<and> \<not> (u \<le> x \<and> x < ?v)" for x
    using og es by simp_all
  have nokey: "map_of (queue s) x = None" if "Start g \<le> x" "x < End g" for x
    using gap_no_key [OF ok] that es by simp
  have "map_of q = cut_out (map_of (queue s)) u ?v"
  proof
    fix k
    have "max u (Start g) \<le> ?v" using uv len g(1) by simp
    then show "map_of q k = cut_out (map_of (queue s)) u ?v k"
      unfolding q(1) using nokey [of k] by (auto simp: cut_out_def)
  qed
  moreover have "boundary (map_of (queue s)) ?v" using gap_boundaries [OF ok es] len g by simp
  ultimately have "opens s u ?v (A @ (left_gap a g u @ right_gap b g fin) @ B) q"
    unfolding opens_def using u(4,5) uv gaps g(4) by auto
  moreover have "u \<le> x \<and> x < ?v" if "start \<le> x" "x < fin" "in_gap (gaps s) x" for x
  proof -
    have "Start g \<le> x" "x < End g" using that AB es by (force simp: in_gap_def)+
    then show ?thesis using that u by (auto simp: new_start_def)
  qed
  ultimately show ?thesis using su drops by (intro pushedI [OF run]) simp_all
qed

text \<open>Where a frame may start, relative to the gap found for it.\<close>

lemma start_cases:
  assumes ok: "sorter_ok s" and es: "gaps s = A @ (a, g) # B" and st: "start \<le> End g" "start < MaxByteCount"
  obtains (fresh) "map_of (queue s) start = None" "start < End g"
    | (before) e where "map_of (queue s) start = Some e" "start < Start g"
    | (after) e where "map_of (queue s) start = Some e" "start = End g"
proof (cases "map_of (queue s) start")
  case None
  then show thesis using fresh key_at_gap_end [OF ok es] st by (cases "start = End g") auto
next
  case (Some e)
  then have "\<not> in_gap (gaps s) start" using gap_no_key [OF ok, of start] by auto
  then show thesis using Some before after st(1) es by (cases "start < Start g") auto
qed

lemma start_fresh:
  assumes "sorter_ok s" "gaps s = A @ (a, g) # B" "start < End g"
  shows "new_start g start False < End g" "readPos s \<le> new_start g start False" "boundary (map_of (queue s)) (new_start g start False)"
    "max (new_start g start False) (Start g) = new_start g start False"
proof -
  let ?u = "new_start g start False"
  have g: "Start g < End g" using gap_order(3) [of A a g B] assms(1,2) by (simp add: sorter_ok_def)
  then show u: "?u < End g" "max ?u (Start g) = ?u" using assms(3) by (simp_all add: new_start_def)
  then show "boundary (map_of (queue s)) ?u" using gap_boundaries [OF assms(1,2), of ?u] by (simp add: new_start_def)
  have "in_gap (gaps s) ?u" using u assms(2) by (simp add: new_start_def)
  then show "readPos s \<le> ?u" using assms(1) by (simp add: sorter_ok_def)
qed

lemma start_before:
  assumes "sorter_ok s" "gaps s = A @ (a, g) # B" "\<forall>p \<in> set A. End (snd p) < start" "map_of (queue s) start = Some e" "start < Start g"
    and "Start g < fin" "push_replace (queue s) start fin False [] = Some (q, pos, rep, wasCut, called)"
  shows "rep" "\<not> wasCut" "map_of q = cut_out (map_of (queue s)) start (Start g)"
proof -
  have ok: "gaps_ok (A @ (a, g) # B)" "queue_ok (map_of (queue s))" using assms(1,2) by (simp_all add: sorter_ok_def)
  have mx: "Start g < MaxByteCount" using End_le_Max [OF ok(1)] gap_order(3) [OF ok(1)] by simp
  have "covers (map_of (queue s)) x" if "start \<le> x" "x < Start g" for x
    using covered_from [OF assms(1), of start x] covers_key [OF ok(2) assms(4)] not_in_gap_before [OF ok(1) assms(3)] that mx assms(2)
    by simp
  moreover have "\<not> covers (map_of (queue s)) (Start g)"
    using gap_uncovered [OF assms(1), of "Start g"] gap_order(3) [OF ok(1)] assms(2) by simp
  ultimately have "pos = Start g \<and> rep \<and> \<not> wasCut \<and> map_of q = cut_out (map_of (queue s)) start (Start g)"
    using push_replace_upto [OF ok(2) assms(4,5) _ _ _ assms(7)] assms(6) by simp
  then show "rep" "\<not> wasCut" "map_of q = cut_out (map_of (queue s)) start (Start g)" by simp_all
qed

lemma start_before_replaces:
  assumes "sorter_ok s" "gaps s = A @ (a, g) # B" "map_of (queue s) start = Some e" "start < Start g" "Start g < fin"
  shows "\<exists>q pos rep wasCut called. push_replace (queue s) start fin False [] = Some (q, pos, rep, wasCut, called)"
proof (cases "push_replace (queue s) start fin False []")
  case None
  then have "fin - start \<le> elen e" using push_replace_None assms(3) by fastforce
  then have "covers (map_of (queue s)) (Start g)" using covers_entry [of "map_of (queue s)" start e "Start g"] assms by simp
  moreover have "Start g < End g" using gap_order(3) [of A a g B] assms(1,2) by (simp add: sorter_ok_def)
  ultimately show ?thesis using gap_uncovered [OF assms(1), of "Start g"] assms(2) by simp
next
  case (Some r)
  then show ?thesis by (cases r) auto
qed

lemma readPos_le_key: "sorter_ok s \<Longrightarrow> map_of (queue s) x = Some e \<Longrightarrow> readPos s \<le> x"
  using covers_key [of "map_of (queue s)" x e] by (simp add: sorter_ok_def)

lemma push_single:
  assumes ok: "sorter_ok s" and es: "gaps s = A @ (a, g) # B"
    and AB: "\<forall>p \<in> set A. End (snd p) < start" "\<forall>p \<in> set B. fin < Start (snd p)"
    and len: "int (length data) = fin - start" "start < fin" "Start g < fin" "fin < MaxByteCount" and st: "start \<le> End g"
  shows "pushed s data start fin cb (push_rest s data start fin cb a (Start g \<le> start) a (fin < End g) g g)"
proof -
  have qok: "queue_ok (map_of (queue s))" and gok: "gaps_ok (A @ (a, g) # B)" using ok es by (simp_all add: sorter_ok_def)
  have dist: "distinct (map fst (queue s))" using ok by (simp add: sorter_ok_def)
  note dq = drops_refl [OF dist]
  have "start < MaxByteCount" using len by simp
  from ok es st this show ?thesis
  proof (cases rule: start_cases)
    case fresh
    then have "push_replace (queue s) start fin False [] = Some (queue s, start, False, False, [])"
      by (simp add: push_replace.simps [of "queue s"])
    moreover note f = start_fresh [OF ok es fresh(2)]
    ultimately show ?thesis unfolding push_rest_def
      using single_inserted [OF ok es AB len refl f(1) _ f(2,3), of "queue s" "[]" cb] f(4) dq by simp
  next
    case (before e)
    obtain q pos rep wasCut called where r: "push_replace (queue s) start fin False [] = Some (q, pos, rep, wasCut, called)"
      using start_before_replaces [OF ok es before len(3)] by blast
    note b = start_before [OF ok es AB(1) before len(3) r]
    have g: "new_start g start True = start" "Start g < End g" using gap_order(3) [OF gok] by (simp_all add: new_start_def)
    show ?thesis unfolding push_rest_def r
      using single_inserted [OF ok es AB len refl, of True q called cb] b before(2) g push_replace_drops [OF dist r] readPos_le_key [OF ok before(1)] boundary_key [OF qok before(1)]
      by simp
  next
    case (after e)
    have out: "\<not> in_gap (gaps s) x" if "start \<le> x" "x \<le> fin" for x
      using not_in_gap_after [OF gok, of x] that after(2) AB(2) es by fastforce
    show ?thesis
    proof (cases "push_replace (queue s) start fin False []")
      case None
      then show ?thesis unfolding push_rest_def using out by (auto intro: pushed_dupI)
    next
      case (Some r)
      then obtain q pos rep wasCut called where r: "push_replace (queue s) start fin False [] = Some (q, pos, rep, wasCut, called)"
        by (cases r) auto
      have bk: "boundary (map_of (queue s)) start" using boundary_key [OF qok after(1)] .
      note c = push_replace_chain [OF qok bk _ r]
      have cov: "covers (map_of (queue s)) x" if "start \<le> x" "x \<le> fin" for x
        using covered_from [OF ok, of start x] covers_key [OF qok after(1)] out [OF that] that len by simp
      have w: wasCut rep using c cov len(2) by (auto split: if_splits)
      then have p: "start < pos" "pos \<le> fin" using c len(2) by auto
      have sl: "slice_to data (pos - start) = Inr (part data start start pos)" using p len by (simp add: slice_to_ok part_def)
      have upd: "s\<lparr>queue := q, gaps := gaps s\<rparr> = s\<lparr>queue := q\<rparr>" by (cases s) simp
      have run: "push_rest s data start fin cb a (Start g \<le> start) a (fin < End g) g g =
          Inr (push_store (s\<lparr>queue := q, gaps := gaps s\<rparr>) (part data start start pos) start cb True called)"
        unfolding push_rest_def r upd using w sl after(2) len(2) gap_order(3) [OF gok] es push_update_cut [of "s\<lparr>queue := q\<rparr>" A a g B start pos] p
        by simp
      have "opens s start pos (gaps s) q"
        unfolding opens_def using ok es bk c p len readPos_le_key [OF ok after(1)] out by (auto simp: sorter_ok_def)
      then show ?thesis using p out push_replace_drops [OF dist r] by (intro pushedI [OF run]) auto
    qed
  qed
qed

text \<open>Several gaps: the entries between the first gap and the last one are dropped.\<close>

lemma multi_gaps:
  assumes "gaps_ok (A @ (a, g) # M @ (b, h) # R)"
  shows "End g < first_start M h" "first_start M h \<le> first_end M h" "first_end M h \<le> Start h" "Start g < End g" "Start h < End h"
    "gaps_sep (M @ (b, h) # R)" "\<forall>p \<in> set (M @ (b, h) # R). first_start M h \<le> Start (snd p)"
    "in_gap (M @ (b, h) # R) (first_start M h)" "0 \<le> Start g" "End h \<le> MaxByteCount"
proof -
  show "gaps_sep (M @ (b, h) # R)" "Start g < End g" "Start h < End h" "0 \<le> Start g"
    using assms by (auto simp: gaps_ok_def gaps_sep_def sorted_wrt_append)
  show "End h \<le> MaxByteCount" using End_le_Max [of "A @ (a, g) # M" b h R] assms by simp
  have "M = [] \<or> (\<exists>c k M'. M = (c, k) # M')" by (cases M) auto
  then show "End g < first_start M h" "first_start M h \<le> first_end M h" "first_end M h \<le> Start h"
      "in_gap (M @ (b, h) # R) (first_start M h)"
    using assms by (auto simp: gaps_ok_def gaps_sep_def sorted_wrt_append first_start_def first_end_def)
  show "\<forall>p \<in> set (M @ (b, h) # R). first_start M h \<le> Start (snd p)"
  proof (cases M)
    case Nil
    then show ?thesis using assms by (fastforce simp: gaps_ok_def gaps_sep_def sorted_wrt_append first_start_def)
  next
    case (Cons p M')
    then have "Start (snd p) < End (snd p)" "\<forall>q \<in> set (M' @ (b, h) # R). End (snd p) < Start (snd q)"
      using assms by (auto simp: gaps_ok_def gaps_sep_def sorted_wrt_append)
    then show ?thesis using Cons by (cases p) (force simp: first_start_def)
  qed
qed

lemma multi_deletes:
  assumes ok: "sorter_ok s" and es: "gaps s = A @ (a, g) # M @ (b, h) # R" and q: "queue_ok (map_of q)"
    and same: "\<And>x. first_start M h \<le> x \<Longrightarrow> covers (map_of q) x \<longleftrightarrow> covers (map_of (queue s)) x"
    and behind: "boundary (map_of q) (End g) \<and> (\<forall>x. End g \<le> x \<and> x < first_start M h \<longrightarrow> covers (map_of q) x) \<or>
      (\<forall>x. End g \<le> x \<and> x < first_start M h \<longrightarrow> map_of q x = None)"
    and ids: "distinct (map fst (P @ M @ (b, h) # R))"
  obtains q2 called2 q3 called3 where "deleteConsecutive q (End g) called = (q2, called2)"
    "push_remove_gaps (P @ M @ (b, h) # R) q2 (elem_Front (M @ (b, h) # R)) (Start h) called2 = Inr (P @ (b, h) # R, q3, called3)"
    "map_of q3 = cut_out (map_of q) (End g) (Start h)"
proof -
  let ?n = "first_start M h"
  have gok: "gaps_ok (A @ (a, g) # M @ (b, h) # R)" using ok es by (simp add: sorter_ok_def)
  note m = multi_gaps [OF gok]
  obtain q2 c2 where d: "deleteConsecutive q (End g) called = (q2, c2)" by fastforce
  have nc: "\<not> covers (map_of q) x" if "?n \<le> x" "in_gap (M @ (b, h) # R) x" for x
    using same [OF that(1)] gap_uncovered [OF ok, of x] that(2) es by simp
  have q2: "map_of q2 = cut_out (map_of q) (End g) ?n \<and> (\<forall>x. ?n \<le> x \<longrightarrow> covers (map_of q2) x \<longleftrightarrow> covers (map_of q) x)"
    using behind
  proof
    assume b: "boundary (map_of q) (End g) \<and> (\<forall>x. End g \<le> x \<and> x < ?n \<longrightarrow> covers (map_of q) x)"
    then have "map_of q2 = cut_out (map_of q) (End g) ?n"
      using m(1) nc [OF _ m(8)] by (intro deleteConsecutive_upto [OF q _ d]) auto
    moreover have "boundary (map_of q) ?n" using nc [OF _ m(8)] by (intro boundary_uncovered) simp
    ultimately show ?thesis using covers_cut_out [of "map_of q" "End g" ?n] b by auto
  next
    assume none: "\<forall>x. End g \<le> x \<and> x < ?n \<longrightarrow> map_of q x = None"
    then have "q2 = q" using d m(1) by (simp add: deleteConsecutive.simps [of q])
    then show ?thesis using none by (auto simp: cut_out_def fun_eq_iff)
  qed
  have q2ok: "queue_ok (map_of q2)" using q2 queue_ok_cut_out [OF q] by simp
  have rp: "readPos s \<le> ?n" using m(8) es by (intro readPos_le_gap [OF ok]) auto
  have cov2: "covers (map_of q2) x \<longleftrightarrow> \<not> in_gap (M @ [(b, h)]) x" if x: "?n \<le> x" "x \<le> Start h" for x
  proof -
    have "covers (map_of q2) x \<longleftrightarrow> \<not> in_gap (gaps s) x" using q2 same [OF x(1)] x rp ok m(5,10) by (auto simp: sorter_ok_def)
    moreover have "\<not> in_gap (A @ [(a, g)]) x" "\<not> in_gap R x"
      using gap_order(1,3) [OF gok] gap_order(2) [of "A @ (a, g) # M" b h R] gok m(1,5) x by (force simp: in_gap_def)+
    ultimately show ?thesis using es by auto
  qed
  obtain q3 c3 where r: "push_remove_gaps (P @ M @ (b, h) # R) q2 (elem_Front (M @ (b, h) # R)) (Start h) c2 = Inr (P @ (b, h) # R, q3, c3)"
      "map_of q3 = cut_out (map_of q2) (first_end M h) (Start h)"
    using push_remove_gaps_between [OF m(6) ids q2ok cov2] by blast
  have "\<not> covers (map_of q) x" if "?n \<le> x" "x < first_end M h" for x
    using nc [OF that(1)] that by (auto simp: first_start_def first_end_def split: list.splits)
  then have "map_of q3 = cut_out (map_of q) (End g) (Start h)"
    using r(2) q2 m(1-3) by (simp add: cut_out_gap [OF q])
  then show thesis using that [OF d r(1)] by blast
qed

lemma multi_dropped:
  assumes ok: "sorter_ok s" and es: "gaps s = A @ (a, g) # M @ (b, h) # R"
    and u: "u \<le> End g" "boundary (map_of (queue s)) u" and v: "Start h \<le> v" "v \<le> End h"
    and q: "map_of q = cut_out (map_of (queue s)) u e1" "u \<le> e1" "Start g \<le> e1 \<and> e1 \<le> End g \<or> e1 = first_start M h \<and> u = End g"
  obtains q2 called2 q3 called3 where "deleteConsecutive q (End g) called = (q2, called2)"
    "push_remove_gaps (A @ left_gap a g u @ M @ (b, h) # R) q2 (elem_Front (M @ (b, h) # R)) (Start h) called2 =
       Inr (A @ left_gap a g u @ (b, h) # R, q3, called3)"
    "map_of q3 = cut_out (map_of (queue s)) u v"
proof -
  let ?m = "map_of (queue s)" and ?n = "first_start M h"
  have gok: "gaps_ok (A @ (a, g) # M @ (b, h) # R)" and qok: "queue_ok ?m" using ok es by (simp_all add: sorter_ok_def)
  note m = multi_gaps [OF gok]
  have ids: "distinct (map fst (gaps s))" using gap_order(6) [OF gok] es by simp
  have gn: "in_gap (gaps s) ?n" using m(8) es by auto
  have be: "boundary ?m e1" using q(3) gap_boundaries [OF ok es, of e1] boundary_uncovered [OF gap_uncovered [OF ok gn]] by auto
  note cov = covers_cut_out [OF u(2) be]
  have out: "\<not> in_gap (gaps s) x" if "End g \<le> x" "x < ?n" for x
    using not_in_gap_after [OF gok, of x] m(7) that es by fastforce
  have covg: "covers ?m x" if "End g \<le> x" "x < ?n" for x
    using covered_from [OF ok, of "Start g" x] out [OF that] that m es by simp
  have "e1 \<le> ?n" using q(3) m(1) by auto
  then have same: "\<And>x. ?n \<le> x \<Longrightarrow> covers (map_of q) x \<longleftrightarrow> covers ?m x" unfolding q(1) cov by auto
  have behind: "boundary (map_of q) (End g) \<and> (\<forall>x. End g \<le> x \<and> x < ?n \<longrightarrow> covers (map_of q) x) \<or>
      (\<forall>x. End g \<le> x \<and> x < ?n \<longrightarrow> map_of q x = None)"
    using q(3)
  proof
    assume e1: "Start g \<le> e1 \<and> e1 \<le> End g"
    then show ?thesis unfolding q(1) cov using covg boundary_cut_out [OF gap_boundaries [OF ok es]] m(4) by auto
  next
    assume "e1 = ?n \<and> u = End g"
    then show ?thesis unfolding q(1) by (simp add: cut_out_def)
  qed
  have dist: "distinct (map fst ((A @ left_gap a g u) @ M @ (b, h) # R))" using ids es by (auto simp: left_gap_def)
  obtain q2 c2 q3 c3 where del: "deleteConsecutive q (End g) called = (q2, c2)"
      "push_remove_gaps ((A @ left_gap a g u) @ M @ (b, h) # R) q2 (elem_Front (M @ (b, h) # R)) (Start h) c2 =
         Inr ((A @ left_gap a g u) @ (b, h) # R, q3, c3)"
      "map_of q3 = cut_out (map_of q) (End g) (Start h)"
    using multi_deletes [OF ok es _ same behind dist, of called] queue_ok_cut_out [OF qok] q(1) by metis
  have gk: "?m k = None" if "Start g \<le> k \<and> k < End g \<or> Start h \<le> k \<and> k < End h" for k
    using that es by (intro gap_no_key [OF ok]) auto
  have "map_of q3 k = cut_out ?m u v k" for k
    unfolding del(3) q(1) using gk [of k] q(2,3) u(1) v m(1-3) by (auto simp: cut_out_def)
  then have "map_of q3 = cut_out ?m u v" ..
  then show thesis using that del(1,2) by simp
qed

lemma multi_range:
  assumes "gaps_ok (A @ (a, g) # M @ (b, h) # R)" "in_gap ((a, g) # M @ [(b, h)]) x"
  shows "Start g \<le> x \<and> x < End h"
proof -
  note m = multi_gaps [OF assms(1)]
  have M: "\<forall>p \<in> set M. End g < Start (snd p)" "\<forall>p \<in> set M. End (snd p) < Start h"
    using gap_order(2) [OF assms(1)] gap_order(1) [of "A @ (a, g) # M" b h R] assms(1) by simp_all
  have "Start g \<le> x \<and> x < End g \<or> in_gap M x \<or> Start h \<le> x \<and> x < End h" using assms(2) by simp
  moreover have "Start g \<le> x \<and> x < End h" if inM: "in_gap M x"
  proof -
    obtain p where p: "p \<in> set M" "Start (snd p) \<le> x" "x < End (snd p)"
      using inM unfolding in_gap_def by blast
    then have "End g < Start (snd p)" "End (snd p) < Start h" using M by simp_all
    then show ?thesis using p m(4,5) by linarith
  qed
  ultimately show ?thesis using m(1-5) by linarith
qed

lemma multi_inserted:
  assumes ok: "sorter_ok s" and es: "gaps s = A @ (a, g) # M @ (b, h) # R"
    and AR: "\<forall>p \<in> set A. End (snd p) < start" "\<forall>p \<in> set R. fin < Start (snd p)"
    and len: "int (length data) = fin - start" "start < fin" "Start h \<le> fin" "fin < MaxByteCount"
    and u: "u = new_start g start rep" "u < End g \<or> rep \<and> u = End g" "rep \<Longrightarrow> start < Start g \<or> start = End g"
      "readPos s \<le> u" "boundary (map_of (queue s)) u"
    and q: "map_of q = cut_out (map_of (queue s)) u e1" "u \<le> e1" "Start g \<le> e1 \<and> e1 \<le> End g \<or> e1 = first_start M h \<and> u = End g"
    and drops: "drops (queue s) [] q called"
  shows "pushed s data start fin cb
    (push_update (s\<lparr>queue := q\<rparr>) data start fin cb a (Start g \<le> start) b (fin < End h) g h rep False called)"
proof -
  let ?v = "min fin (End h)" and ?Y = "(a, g) # M @ [(b, h)]"
  have gok: "gaps_ok (A @ (a, g) # M @ (b, h) # R)" using ok es by (simp add: sorter_ok_def)
  note m = multi_gaps [OF gok] and o = gap_order [OF gok]
  have gokY: "gaps_ok (A @ ?Y @ R)" using gok by simp
  have ue: "u \<le> End g" using u(2) by auto
  have v: "Start h \<le> ?v" "?v \<le> End h" "u < ?v" using len(3) m(1-5) ue by auto
  have su: "start \<le> u" using u(1) new_start_ge by simp
  obtain q2 c2 q3 c3 where del: "deleteConsecutive q (End g) called = (q2, c2)"
      "push_remove_gaps (A @ left_gap a g u @ M @ (b, h) # R) q2 (elem_Front (M @ (b, h) # R)) (Start h) c2 =
         Inr (A @ left_gap a g u @ (b, h) # R, q3, c3)" "map_of q3 = cut_out (map_of (queue s)) u ?v"
    using multi_dropped [OF ok es ue u(5) v(1,2) q, of called] by blast
  have e: "gaps (s\<lparr>queue := q\<rparr>) = A @ (a, g) # M @ (b, h) # R" "distinct (map fst (gaps (s\<lparr>queue := q\<rparr>)))"
      "deleteConsecutive (queue (s\<lparr>queue := q\<rparr>)) (End g) called = (q2, c2)" "End g < Start h"
    using es o(6) del(1) m(1-3) by simp_all
  obtain w where "push_update (s\<lparr>queue := q\<rparr>) data start fin cb a (Start g \<le> start) b (fin < End h) g h rep False called =
      Inr (push_store (s\<lparr>queue := q, gaps := A @ (left_gap a g u @ right_gap b h fin) @ R, queue := q3\<rparr>)
        (part data start u ?v) u cb w c3)"
    using push_update_multi [OF e(1,2) len(1,2) m(4) e(4) len(3) m(5) u(1-3) e(3) del(2), of cb] by blast
  moreover have "s\<lparr>queue := q, gaps := es', queue := q3\<rparr> = s\<lparr>queue := q3, gaps := es'\<rparr>" for es' by (cases s) simp
  ultimately have run: "push_update (s\<lparr>queue := q\<rparr>) data start fin cb a (Start g \<le> start) b (fin < End h) g h rep False called =
      Inr (push_store (s\<lparr>queue := q3, gaps := A @ (left_gap a g u @ right_gap b h fin) @ R\<rparr>) (part data start u ?v) u cb w c3)"
    by simp
  have inY: "Start g \<le> x \<and> x < End h" if "in_gap ?Y x" for x by (rule multi_range [OF gok that])
  have ab: "a \<noteq> b" "a \<notin> fst ` (set A \<union> set R)" "b \<notin> fst ` (set A \<union> set R)" using o(6) by auto
  have AR': "\<And>p. p \<in> set A \<Longrightarrow> End (snd p) < u" "\<And>p. p \<in> set R \<Longrightarrow> fin < Start (snd p)" using AR su by auto
  have lst: "fin < End h" if "R = []" using that gok len by (simp add: gaps_ok_def)
  have mid: "Start g \<le> x \<and> x < End h \<and> (x < u \<longrightarrow> x < End g) \<and> (?v \<le> x \<longrightarrow> Start h \<le> x)" if "in_gap ?Y x" for x
    using inY [OF that] ue v(1) by auto
  have sub: "\<And>x. Start g \<le> x \<Longrightarrow> x < End g \<Longrightarrow> in_gap ?Y x" "\<And>x. Start h \<le> x \<Longrightarrow> x < End h \<Longrightarrow> in_gap ?Y x"
    and hd: "?Y \<noteq> []" "fst (hd ?Y) = a" "snd (hd ?Y) = g" "snd (last ?Y) = h" by simp_all
  have le: "Start g \<le> Start h" "End g \<le> End h" "0 \<le> fin" using m len(3) by linarith+
  note og = opens_gaps [OF gokY hd mid sub ue len(3) v(3) le(1,2) m(9) le(3) AR' ab lst]
  have gaps: "gaps_ok (A @ (left_gap a g u @ right_gap b h fin) @ R)"
      "in_gap (A @ (left_gap a g u @ right_gap b h fin) @ R) x \<longleftrightarrow> in_gap (gaps s) x \<and> \<not> (u \<le> x \<and> x < ?v)" for x
    using og es by simp_all
  have bv: "boundary (map_of (queue s)) ?v" using gap_boundaries [OF ok, of "A @ (a, g) # M" b h R ?v] es v by simp
  have "opens s u ?v (A @ (left_gap a g u @ right_gap b h fin) @ R) q3"
    unfolding opens_def using u(4,5) v gaps m(10) del(3) bv by auto
  moreover have "u \<le> x \<and> x < ?v" if x: "start \<le> x" "x < fin" "in_gap (gaps s) x" for x
  proof -
    have "\<not> in_gap A x" "\<not> in_gap R x" using x AR by (force simp: in_gap_def)+
    then have "Start g \<le> x \<and> x < End h" using inY [of x] x(3) es by auto
    then show ?thesis using x u(1-3) m(4) by (auto simp: new_start_def)
  qed
  moreover have "drops (queue s) [] q3 c3"
    using deleteConsecutive_drops [OF _ del(1)] push_remove_gaps_drops [OF _ del(2)] drops by (auto simp: drops_def)
  ultimately show ?thesis using su by (intro pushedI [OF run]) simp_all
qed

lemma push_multi:
  assumes ok: "sorter_ok s" and es: "gaps s = A @ (a, g) # M @ (b, h) # R"
    and AR: "\<forall>p \<in> set A. End (snd p) < start" "\<forall>p \<in> set R. fin < Start (snd p)"
    and len: "int (length data) = fin - start" "start < fin" "Start h \<le> fin" "fin < MaxByteCount" and st: "start \<le> End g"
  shows "pushed s data start fin cb (push_rest s data start fin cb a (Start g \<le> start) b (fin < End h) g h)"
proof -
  have qok: "queue_ok (map_of (queue s))" and gok: "gaps_ok (A @ (a, g) # M @ (b, h) # R)"
    using ok es by (simp_all add: sorter_ok_def)
  note m = multi_gaps [OF gok]
  have sg: "Start g < fin" "start < MaxByteCount" using m len by linarith+
  have dist: "distinct (map fst (queue s))" using ok by (simp add: sorter_ok_def)
  note dq = drops_refl [OF dist]
  note ins = multi_inserted [OF ok es AR len refl]
  from ok es st sg(2) show ?thesis
  proof (cases rule: start_cases)
    case fresh
    then have "push_replace (queue s) start fin False [] = Some (queue s, start, False, False, [])"
      by (simp add: push_replace.simps [of "queue s"])
    moreover note f = start_fresh [OF ok es fresh(2)]
    ultimately show ?thesis unfolding push_rest_def
      using ins [of False "queue s" "new_start g start False" "[]" cb] f dq by (simp add: new_start_def)
  next
    case (before e)
    obtain q pos rep wasCut called where r: "push_replace (queue s) start fin False [] = Some (q, pos, rep, wasCut, called)"
      using start_before_replaces [OF ok es before sg(1)] by blast
    note b = start_before [OF ok es AR(1) before sg(1) r]
    show ?thesis unfolding push_rest_def r
      using ins [of True q "Start g" called cb] push_replace_drops [OF dist r] b before(2) m(4) readPos_le_key [OF ok before(1)] boundary_key [OF qok before(1)]
      by (simp add: new_start_def)
  next
    case (after e)
    let ?n = "first_start M h"
    have out: "\<not> in_gap (gaps s) x" if "End g \<le> x" "x < ?n" for x
      using not_in_gap_after [OF gok, of x] m(7) that es by fastforce
    have n: "in_gap (gaps s) ?n" "End g < ?n" "?n \<le> fin" using m es len(3) by auto
    have cov: "covers (map_of (queue s)) x" if "start \<le> x" "x < ?n" for x
      using covered_from [OF ok, of start x] covers_key [OF qok after(1)] out [of x] after(2) that n(3) len(4) by simp
    have nc: "\<not> covers (map_of (queue s)) ?n" using gap_uncovered [OF ok n(1)] .
    show ?thesis
    proof (cases "push_replace (queue s) start fin False []")
      case None
      then have "fin - start \<le> elen e" using push_replace_None after(1) by fastforce
      then have le: "\<not> ?n < start + elen e" using covers_entry [of "map_of (queue s)" start e ?n] after(1,2) nc n(2) by auto
      then have "?n = fin" using \<open>fin - start \<le> elen e\<close> n(3) by linarith
      then have "\<not> in_gap (gaps s) x" if "start \<le> x" "x < fin" for x using out [of x] after(2) that by simp
      then show ?thesis unfolding push_rest_def None by (auto intro: pushed_dupI)
    next
      case (Some r)
      then obtain q pos rep wasCut called where r: "push_replace (queue s) start fin False [] = Some (q, pos, rep, wasCut, called)"
        by (cases r) auto
      have "pos = ?n \<and> rep \<and> \<not> wasCut \<and> map_of q = cut_out (map_of (queue s)) start ?n"
        using push_replace_upto [OF qok after(1) _ n(3) cov nc r] after(2) n(2) by simp
      then show ?thesis unfolding push_rest_def r
        using ins [of True q ?n called cb] push_replace_drops [OF dist r] after n(2) readPos_le_key [OF ok after(1)] boundary_key [OF qok after(1)]
        by (simp add: new_start_def)
    qed
  qed
qed

lemma hd_gap:
  assumes "gaps_ok es"
  shows "elem_Value es (elem_Front es) = Inr (snd (hd es))" "in_gap es x \<Longrightarrow> Start (snd (hd es)) \<le> x"
proof -
  obtain a g B where es: "es = (a, g) # B" using assms by (cases es) (auto simp: gaps_ok_def)
  then show "elem_Value es (elem_Front es) = Inr (snd (hd es))" by (simp add: elem_Value_def)
  have "\<forall>p \<in> set B. Start g \<le> Start (snd p)" using gap_order(2,3) [of "[]" a g B] assms es by fastforce
  then show "in_gap es x \<Longrightarrow> Start (snd (hd es)) \<le> x" using es by (auto simp: in_gap_def)
qed

lemma push_eq_rest:
  assumes "gaps_ok (gaps s)" "data \<noteq> []" "fin = offset + int (length data)" "is_i64 fin" "Start (snd (hd (gaps s))) < fin"
    and "findStartGap (gaps s) offset = Inr (a, si)" "findEndGap (gaps s) a fin = Inr (Some b, ei)"
    and "elem_Value (gaps s) (Some a) = Inr g" "elem_Value (gaps s) (Some b) = Inr h" "Start g < fin"
  shows "push s data offset cb = push_rest s data offset fin cb a si b ei g h"
  using assms hd_gap(1) [OF assms(1)] by (simp add: push_def push_rest_def Let_def i64_id cong del: option.case_cong_weak)

lemma findEndGap_mid:
  assumes "distinct (map fst (A @ (a, g) # B))"
  shows "findEndGap (A @ (a, g) # B) a fin = findEndGap_loop (elem_Prev (A @ (a, g) # B) a) ((a, g) # B) fin"
  unfolding findEndGap_def dropWhile_mid [OF assms] ..

lemma push_all_received:
  assumes ok: "gaps_ok (gaps s)" and es: "gaps s = A @ (a, g) # B" and d: "data \<noteq> []" "fin = offset + int (length data)" "is_i64 fin"
    and f: "findStartGap (gaps s) offset = Inr (a, si)" "fin \<le> Start g"
  shows "push s data offset cb = Inr (Some errDuplicateStreamData, s, [])"
proof (cases "fin \<le> Start (snd (hd (gaps s)))")
  case True
  then show ?thesis using d hd_gap(1) [OF ok] by (simp add: push_def Let_def i64_id)
next
  case False
  note o = gap_order [OF ok [unfolded es]]
  have v: "elem_Value (gaps s) (Some a) = Inr g" unfolding es by (rule elem_Value_mid [OF o(6)])
  show ?thesis
  proof (cases "fin = Start g")
    case True
    have "findEndGap (gaps s) a fin = Inr (Some a, True)" unfolding es findEndGap_mid [OF o(6)] using True o(3) by simp
    then show ?thesis using d f v hd_gap(1) [OF ok] by (simp add: push_def Let_def i64_id)
  next
    case ne: False
    obtain A' c k where A: "A = A' @ [(c, k)]" using False f(2) es by (cases A rule: rev_cases) auto
    have e: "findEndGap (gaps s) a fin = Inr (Some c, False)"
      unfolding es findEndGap_mid [OF o(6)] using ne f(2) elem_Prev_mid [of A' c k a g B] o(6) A by simp
    have c: "elem_Value (gaps s) (Some c) = Inr k" "a \<noteq> c" "Start k \<le> End g"
      using elem_Value_mid [of A' c k "(a, g) # B"] o ok es A by (auto simp: gaps_ok_def gaps_sep_def)
    show ?thesis using d f v c e hd_gap(1) [OF ok] by (simp add: push_def Let_def i64_id)
  qed
qed

lemma push_pushed:
  assumes ok: "sorter_ok s" and d: "data \<noteq> []" "0 \<le> offset" "offset + int (length data) < MaxByteCount"
  shows "pushed s data offset (offset + int (length data)) cb (push s data offset cb)"
proof -
  let ?fin = "offset + int (length data)"
  have gok: "gaps_ok (gaps s)" using ok by (simp add: sorter_ok_def)
  have i: "is_i64 ?fin" "offset < ?fin" using d by (simp_all add: is_i64_def MaxByteCount_def)
  have le: "offset \<le> End (snd (last (gaps s)))" "?fin < End (snd (last (gaps s)))" using gok d i(2) by (simp_all add: gaps_ok_def)
  obtain A a g B where S: "gaps s = A @ (a, g) # B" "findStartGap (gaps s) offset = Inr (a, Start g \<le> offset)" "offset \<le> End g"
      "\<forall>p \<in> set A. End (snd p) < offset"
    using findStartGap_split [OF _ le(1)] gok by (auto simp: gaps_ok_def gaps_sep_def)
  note o = gap_order [OF gok [unfolded S(1)]]
  show ?thesis
  proof (cases "?fin \<le> Start g")
    case True
    have "\<not> in_gap (gaps s) x" if "offset \<le> x" "x < ?fin" for x
      using not_in_gap_before [OF gok [unfolded S(1)] S(4) that(1)] that(2) True S(1) by simp
    then show ?thesis using push_all_received [OF gok S(1) d(1) refl i(1) S(2) True] by (auto intro: pushed_dupI)
  next
    case False
    have sepB: "gaps_sep ((a, g) # B)" using gok S(1) by (simp add: gaps_ok_def gaps_sep_def sorted_wrt_append)
    have lastB: "?fin < End (snd (last ((a, g) # B)))" using le(2) S(1) by simp
    have hdB: "Start (snd (hd ((a, g) # B))) \<le> ?fin" using False by simp
    obtain M b h R where E: "(a, g) # B = M @ (b, h) # R" "Start h \<le> ?fin" "\<forall>p \<in> set R. ?fin < Start (snd p)"
        "findEndGap (gaps s) a ?fin = Inr (Some b, ?fin < End h)"
      using findEndGap_loop_split [OF list.distinct(2) lastB hdB sepB] unfolding S(1) findEndGap_mid [OF o(6)] by metis
    have hd: "Start (snd (hd (gaps s))) < ?fin"
      using hd_gap(2) [OF gok, of "Start g"] o(3) False S(1) by simp
    have v: "elem_Value (gaps s) (Some a) = Inr g" "elem_Value (gaps s) (Some b) = Inr h"
      using elem_Value_mid [OF o(6)] elem_Value_mid [of "A @ M" b h R] o(6) S(1) E(1) by simp_all
    note rest = push_eq_rest [OF gok d(1) refl i(1) hd S(2) E(4) v]
    show ?thesis
    proof (cases M)
      case Nil
      then show ?thesis using rest push_single [OF ok S(1,4) _ _ i(2) _ d(3) S(3)] E False by simp
    next
      case (Cons p M')
      then have "gaps s = A @ (a, g) # M' @ (b, h) # R" using S(1) E(1) by simp
      then show ?thesis using rest push_multi [OF ok _ S(4) E(3) _ i(2) E(2) d(3) S(3)] False by simp
    qed
  qed
qed

text \<open>
  The last gap ends at \<^verbatim>\<open>MaxByteCount\<close>, and \<^verbatim>\<open>findEndGap\<close> does not find the gap a frame ends in if the frame reaches that
  offset.
\<close>

lemma findStartGap_none: "\<forall>p \<in> set es. Start (snd p) < End (snd p) \<and> End (snd p) < start \<Longrightarrow> findStartGap es start = Inl ''no gap found''"
  by (induction es) fastforce+

lemma findEndGap_loop_none:
  "\<forall>p \<in> set es. Start (snd p) < End (snd p) \<and> End (snd p) \<le> fin \<Longrightarrow> findEndGap_loop prev es fin = Inl ''no gap found''"
  by (induction es arbitrary: prev) fastforce+

lemma gaps_end:
  assumes "gaps_ok es" "p \<in> set es"
  shows "Start (snd p) < End (snd p)" "End (snd p) \<le> MaxByteCount"
proof -
  obtain A q where es: "es = A @ [q]" using assms by (cases es rule: rev_cases) simp_all
  have sep: "gaps_sep es" "End (snd q) = MaxByteCount" using assms(1) es by (simp_all add: gaps_ok_def)
  then show "Start (snd p) < End (snd p)" using assms(2) by (simp add: gaps_sep_def)
  have q: "Start (snd q) < End (snd q)" using sep(1) es by (simp add: gaps_sep_def)
  have "End (snd r) \<le> Start (snd q)" if "r \<in> set A" for r
    using sep(1) es that by (fastforce simp: gaps_sep_def sorted_wrt_append)
  then show "End (snd p) \<le> MaxByteCount" using assms(2) es sep(2) q by fastforce
qed

lemma Push_beyond:
  assumes ok: "sorter_ok s" and d: "data \<noteq> []" "0 \<le> offset" "MaxByteCount \<le> offset + int (length data)"
    and i: "is_i64 (offset + int (length data))"
  shows "Push s data offset cb = Inl ''no gap found''"
proof -
  let ?fin = "offset + int (length data)"
  have gok: "gaps_ok (gaps s)" using ok by (simp add: sorter_ok_def)
  note ends = gaps_end [OF gok]
  have ne: "gaps s \<noteq> []" using gok by (simp add: gaps_ok_def)
  have front: "\<not> ?fin \<le> Start (snd (hd (gaps s)))" using ends [OF hd_in_set [OF ne]] d(3) by simp
  show ?thesis
  proof (cases "offset \<le> MaxByteCount")
    case True
    then have "offset \<le> End (snd (last (gaps s)))" using gok by (simp add: gaps_ok_def)
    then obtain A a g B where S: "gaps s = A @ (a, g) # B" "findStartGap (gaps s) offset = Inr (a, Start g \<le> offset)"
      using findStartGap_split [OF ne] ends(1) by blast
    have "findEndGap (gaps s) a ?fin = Inl ''no gap found''"
      unfolding S(1) findEndGap_mid [OF gap_order(6) [OF gok [unfolded S(1)]]]
      using ends d(3) S(1) by (intro findEndGap_loop_none) fastforce
    then show ?thesis using d(1) front S(2) i hd_gap(1) [OF gok] by (simp add: Push_def push_def Let_def i64_id)
  next
    case False
    then have "findStartGap (gaps s) offset = Inl ''no gap found''" using ends by (intro findStartGap_none) fastforce
    then show ?thesis using d(1) front i hd_gap(1) [OF gok] by (simp add: Push_def push_def Let_def i64_id)
  qed
qed

section \<open>The bytes that are stored\<close>

definition has_byte :: "entries \<Rightarrow> byte_count \<Rightarrow> u8 \<Rightarrow> bool" where
  "has_byte m x b \<longleftrightarrow> (\<exists>k e. m k = Some e \<and> k \<le> x \<and> x < k + elen e \<and> b = Data e ! nat (x - k))"

lemma covers_has_byte: "covers m x \<longleftrightarrow> (\<exists>b. has_byte m x b)"
  by (auto simp: covers_def has_byte_def)

lemma has_byte_cut_out: "has_byte (cut_out m u v) x b \<Longrightarrow> has_byte m x b"
  unfolding has_byte_def using cut_out_Some by metis

lemma has_byte_insert:
  "has_byte (m(u \<mapsto> e)) x b \<Longrightarrow> u \<le> x \<and> x < u + elen e \<and> b = Data e ! nat (x - u) \<or> has_byte m x b"
  unfolding has_byte_def by (auto split: if_splits)

lemma covers_insert: "covers (m(u \<mapsto> e)) x \<longleftrightarrow> u \<le> x \<and> x < u + elen e \<or> covers (m(u := None)) x"
  unfolding covers_def by (auto split: if_splits)

lemma queue_ok_insert:
  assumes "queue_ok m" "boundary m u" "boundary m v" "Data e \<noteq> []" "u + elen e = v"
  shows "queue_ok ((cut_out m u v)(u \<mapsto> e))"
  unfolding queue_ok_def
proof (intro conjI allI impI)
  fix k f assume "((cut_out m u v)(u \<mapsto> e)) k = Some f"
  then show "Data f \<noteq> []" using assms(1,4) cut_out_Some unfolding queue_ok_def by (metis fun_upd_apply option.inject)
next
  fix k f k' f'
  assume a: "((cut_out m u v)(u \<mapsto> e)) k = Some f \<and> ((cut_out m u v)(u \<mapsto> e)) k' = Some f' \<and> k < k'"
  consider "k = u" "k' \<noteq> u" "cut_out m u v k' = Some f'" "f = e" | "k \<noteq> u" "k' = u" "cut_out m u v k = Some f"
      | "k \<noteq> u" "k' \<noteq> u" "cut_out m u v k = Some f" "cut_out m u v k' = Some f'"
    using a by (auto split: if_splits)
  then show "k + elen f \<le> k'"
  proof cases
    case 1
    then show ?thesis using a assms(5) by (auto simp: cut_out_def split: if_splits)
  next
    case 2
    then show ?thesis using a assms(2) cut_out_Some unfolding boundary_def by fastforce
  next
    case 3
    then show ?thesis using a queue_ok_disjoint [OF assms(1)] cut_out_Some by metis
  qed
qed

lemma store_refines:
  assumes ok: "sorter_ok s" and op: "opens s u v es q" and d: "int (length (Data e)) = v - u" and dist: "distinct (map fst q)"
    and s': "s' = s\<lparr>queue := AList.update u e q, gaps := es\<rparr>"
  shows "sorter_ok s'" "has_byte (map_of (queue s')) x b \<Longrightarrow> u \<le> x \<and> x < v \<and> b = Data e ! nat (x - u) \<or> has_byte (map_of (queue s)) x b"
proof -
  let ?m = "map_of (queue s)"
  have o: "readPos s \<le> u" "u < v" "v \<le> MaxByteCount" "gaps_ok es" "map_of q = cut_out ?m u v" "boundary ?m u" "boundary ?m v"
      "\<And>x. in_gap es x \<longleftrightarrow> in_gap (gaps s) x \<and> \<not> (u \<le> x \<and> x < v)"
    using op by (simp_all add: opens_def)
  have m': "map_of (queue s') = (cut_out ?m u v)(u \<mapsto> e)" using s' o(5) by (simp add: update_conv')
  have ne: "Data e \<noteq> []" "u + elen e = v" using d o(2) by auto
  have qok: "queue_ok ?m" using ok by (simp add: sorter_ok_def)
  have "(cut_out ?m u v)(u := None) = cut_out ?m u v" using o(2) by (auto simp: cut_out_def)
  then have cov: "covers (map_of (queue s')) x \<longleftrightarrow> u \<le> x \<and> x < v \<or> covers ?m x" for x
    unfolding m' covers_insert ne(2) using covers_cut_out [OF o(6,7)] by auto
  have "distinct (map fst (queue s'))" using s' dist by (simp add: distinct_update)
  moreover have "covers (map_of (queue s')) x \<longleftrightarrow> readPos s' \<le> x \<and> x < MaxByteCount \<and> \<not> in_gap (gaps s') x" for x
    unfolding cov using ok o(1-3,8) s' by (auto simp: sorter_ok_def)
  moreover have "queue_ok (map_of (queue s'))" unfolding m' by (rule queue_ok_insert [OF qok o(6,7) ne])
  ultimately show "sorter_ok s'" using ok o(4,8) s' by (auto simp: sorter_ok_def)
  show "has_byte (map_of (queue s')) x b \<Longrightarrow> u \<le> x \<and> x < v \<and> b = Data e ! nat (x - u) \<or> has_byte ?m x b"
    unfolding m' using has_byte_insert [of "cut_out ?m u v" u e x b] has_byte_cut_out ne(2) by auto
qed

section \<open>The operations on a well-formed sorter\<close>

abbreviation stored :: "frameSorter \<Rightarrow> byte_count \<Rightarrow> u8 \<Rightarrow> bool" where
  "stored s x b \<equiv> has_byte (map_of (queue s)) x b"

lemma stored_iff: "sorter_ok s \<Longrightarrow> (\<exists>b. stored s x b) \<longleftrightarrow> readPos s \<le> x \<and> x < MaxByteCount \<and> \<not> in_gap (gaps s) x"
  by (simp add: sorter_ok_def flip: covers_has_byte)

lemma part_nth: "0 \<le> u - start \<Longrightarrow> u \<le> x \<Longrightarrow> x < v \<Longrightarrow> int (length data) \<ge> v - start \<Longrightarrow>
    part data start u v ! nat (x - u) = data ! nat (x - start)"
  by (simp add: part_def nat_less_eq_zless flip: nat_add_distrib)

lemma push_store_cases:
  obtains (full) c where "push_store s d u cb w called = (Some errTooManyGaps, s, c)"
        "mset c = mset called \<or> mset c = mset called + mset (call cb)"
    | (stored) cb' c where "push_store s d u cb w called = (None, s\<lparr>queue := AList.update u \<lparr>Data = d, DoneCb = cb'\<rparr> (queue s)\<rparr>, c)"
        "mset c + mset (call cb') = mset called + mset (call cb)"
proof (cases "length (gaps s) > MaxStreamFrameSorterGaps")
  case True
  then show thesis by (intro full [of "if w \<and> length d < MinStreamFrameBufferSize then called @ call cb else called"])
    (simp_all add: push_store_def Let_def)
next
  case False
  then show thesis
    by (intro stored [of "if w \<and> length d < MinStreamFrameBufferSize then None else cb"
        "if w \<and> length d < MinStreamFrameBufferSize then called @ call cb else called"])
      (simp_all add: push_store_def Let_def call_def)
qed

lemma cbs_update_fresh: "map_of q u = None \<Longrightarrow> cbs (AList.update u e q) = cbs q + mset (call (DoneCb e))"
  by (induction q) (auto simp: cbs_def split: if_splits)

lemma Push_sound:
  assumes ok: "sorter_ok s" and d: "0 \<le> offset" "offset + int (length data) < MaxByteCount"
  obtains (accepted) s' called where "Push s data offset cb = Inr (None, s', called)" "sorter_ok s'" "readPos s' = readPos s"
      "\<And>x. (\<exists>b. stored s' x b) \<longleftrightarrow> (\<exists>b. stored s x b) \<or> readPos s \<le> x \<and> offset \<le> x \<and> x < offset + int (length data)"
      "\<And>x b. stored s' x b \<Longrightarrow> stored s x b \<or> offset \<le> x \<and> x < offset + int (length data) \<and> b = data ! nat (x - offset)"
      "mset called + cbs (queue s') = mset (call cb) + cbs (queue s)"
    | (full) s' called where "Push s data offset cb = Inr (Some errTooManyGaps, s', called)"
      "mset called + cbs (queue s') = cbs (queue s) \<or> mset called + cbs (queue s') = mset (call cb) + cbs (queue s)"
proof (cases "data = []")
  case True
  then show thesis using ok by (intro accepted [of s "call cb"]) (auto simp: Push_def push_def)
next
  case False
  let ?fin = "offset + int (length data)"
  from push_pushed [OF ok False d, of cb, unfolded pushed_def] consider
      (dup) "push s data offset cb = Inr (Some errDuplicateStreamData, s, [])" "\<forall>x. offset \<le> x \<and> x < ?fin \<longrightarrow> \<not> in_gap (gaps s) x"
    | (new) u v es q w called where "push s data offset cb = Inr (push_store (s\<lparr>queue := q, gaps := es\<rparr>) (part data offset u v) u cb w called)"
        "offset \<le> u" "v \<le> ?fin" "opens s u v es q" "drops (queue s) [] q called"
        "\<forall>x. offset \<le> x \<and> x < ?fin \<and> in_gap (gaps s) x \<longrightarrow> u \<le> x \<and> x < v"
    by blast
  then show thesis
  proof cases
    case dup
    have "(\<exists>b. stored s x b) \<longleftrightarrow> (\<exists>b. stored s x b) \<or> readPos s \<le> x \<and> offset \<le> x \<and> x < ?fin" for x
      unfolding stored_iff [OF ok] using dup(2) d(2) by auto
    then show thesis using dup(1) ok by (intro accepted [of s "call cb"]) (auto simp: Push_def)
  next
    case new
    let ?s1 = "s\<lparr>queue := q, gaps := es\<rparr>" and ?d = "part data offset u v"
    have len: "int (length ?d) = v - u" using new(2-4) by (simp add: part_def opens_def)
    show thesis
    proof (cases rule: push_store_cases [of ?s1 ?d u cb w called])
      case (full c)
      then show thesis using new(1,5) by (intro that(2) [of ?s1 c]) (auto simp: Push_def drops_def ac_simps)
    next
      case (stored cb' c)
      let ?e = "\<lparr>Data = ?d, DoneCb = cb'\<rparr>"
      define s' where "s' = s\<lparr>queue := AList.update u ?e q, gaps := es\<rparr>"
      have s': "s\<lparr>queue := q, gaps := es, queue := AList.update u ?e q\<rparr> = s'" unfolding s'_def by (cases s) simp
      have run: "Push s data offset cb = Inr (None, s', c)" using new(1) stored(1) s' by (simp add: Push_def)
      have dist: "distinct (map fst q)" and el: "elen ?e = v - u" using new(5) len by (simp_all add: drops_def)
      note st = store_refines [OF ok new(4) el dist s'_def]
      have none: "map_of q u = None" using new(4) by (simp add: opens_def cut_out_def)
      have dom: "(\<exists>b. stored s' x b) \<longleftrightarrow> (\<exists>b. stored s x b) \<or> readPos s \<le> x \<and> offset \<le> x \<and> x < ?fin" for x
        unfolding stored_iff [OF ok] stored_iff [OF st(1)] using new(2-4,6) d(2) unfolding s'_def opens_def by auto
      have val: "stored s x b \<or> offset \<le> x \<and> x < ?fin \<and> b = data ! nat (x - offset)" if "stored s' x b" for x b
        using st(2) [OF that] part_nth [of u offset x v data] new(2,3) by auto
      have "mset c + cbs (queue s') = mset (call cb) + cbs (queue s)"
        using stored(2) cbs_update_fresh [OF none, of ?e] new(5) unfolding s'_def drops_def by (simp add: ac_simps)
      then show thesis using that(1) [OF run st(1) _ dom val] s'_def by simp
    qed
  qed
qed

lemma boundary_readPos: "sorter_ok s \<Longrightarrow> boundary (map_of (queue s)) (readPos s)"
  unfolding boundary_def using readPos_le_key by fastforce

lemma Pop_sound:
  assumes ok: "sorter_ok s"
  obtains (empty) "Pop s = Inr ((readPos s, None, None), s)" "\<not> (\<exists>b. stored s (readPos s) b)"
    | (data) e s' where "Pop s = Inr ((readPos s, Some (Data e), DoneCb e), s')" "sorter_ok s'" "Data e \<noteq> []"
        "readPos s' = readPos s + elen e" "\<And>i. i < length (Data e) \<Longrightarrow> stored s (readPos s + int i) (Data e ! i)"
        "\<And>x b. stored s' x b \<Longrightarrow> stored s x b" "cbs (queue s) = mset (call (DoneCb e)) + cbs (queue s')"
        "\<And>x. (\<exists>b. stored s' x b) \<longleftrightarrow> (\<exists>b. stored s x b) \<and> readPos s' \<le> x"
proof (cases "map_of (queue s) (readPos s)")
  case None
  then have nc: "\<not> covers (map_of (queue s)) (readPos s)" using boundary_covers [OF boundary_readPos [OF ok]] by auto
  show thesis
  proof (rule empty)
    show "Pop s = Inr ((readPos s, None, None), s)" using None by (simp add: Pop_def)
    show "\<not> (\<exists>b. stored s (readPos s) b)" using nc by (simp add: covers_has_byte)
  qed
next
  case (Some e)
  let ?m = "map_of (queue s)" and ?r = "readPos s + elen e"
  have qok: "queue_ok ?m" and gok: "gaps_ok (gaps s)" and dist: "distinct (map fst (queue s))" using ok by (simp_all add: sorter_ok_def)
  define s' where "s' = s\<lparr>queue := AList.delete (readPos s) (queue s), readPos := ?r\<rparr>"
  have ne: "Data e \<noteq> []" using queue_ok_nonempty [OF qok Some] by simp
  have m': "map_of (queue s') = cut_out ?m (readPos s) ?r" unfolding s'_def using cut_out_first [OF Some qok] by simp
  have cov: "covers (map_of (queue s')) x \<longleftrightarrow> covers ?m x \<and> \<not> (readPos s \<le> x \<and> x < ?r)" for x
    unfolding m' by (rule covers_cut_out [OF boundary_readPos [OF ok] boundary_next [OF qok Some]])
  have past: "?r \<le> x" if "in_gap (gaps s) x" for x
    using covers_entry [of ?m "readPos s" e x] Some gap_uncovered [OF ok that] readPos_le_gap [OF ok that] by fastforce
  have "covers (map_of (queue s')) x \<longleftrightarrow> readPos s' \<le> x \<and> x < MaxByteCount \<and> \<not> in_gap (gaps s') x" for x
    unfolding cov using ok by (auto simp: sorter_ok_def s'_def)
  moreover have "queue_ok (map_of (queue s'))" unfolding m' by (rule queue_ok_cut_out [OF qok])
  moreover have "distinct (map fst (queue s'))" "0 \<le> readPos s'" "gaps_ok (gaps s')" "\<And>x. in_gap (gaps s') x \<Longrightarrow> readPos s' \<le> x"
    using ok past distinct_delete [OF dist] by (simp_all add: s'_def sorter_ok_def)
  ultimately have ok': "sorter_ok s'" unfolding sorter_ok_def by blast
  obtain a g B where es: "gaps s = (a, g) # B" using gok by (cases "gaps s") (auto simp: gaps_ok_def)
  have "Start g < End g" using gap_order(3) [of "[]" a g B] gok es by simp
  then have "?r \<le> End g - 1" using es by (intro past) simp
  then have run: "Pop s = Inr ((readPos s, Some (Data e), DoneCb e), s')"
    using Some es by (simp add: Pop_def Let_def s'_def elem_Value_def)
  have bytes: "stored s (readPos s + int i) (Data e ! i)" if "i < length (Data e)" for i
    using Some that unfolding has_byte_def by (intro exI [of _ "readPos s"] exI [of _ e]) simp
  have sub: "stored s' x b \<Longrightarrow> stored s x b" for x b unfolding m' by (rule has_byte_cut_out)
  have "(\<exists>b. stored s' x b) \<longleftrightarrow> (\<exists>b. stored s x b) \<and> readPos s' \<le> x" for x
    using cov [of x] ok by (auto simp: sorter_ok_def s'_def simp flip: covers_has_byte)
  moreover have "cbs (queue s) = mset (call (DoneCb e)) + cbs (queue s')" using cbs_delete [OF dist Some] by (simp add: s'_def)
  ultimately show thesis using data [OF run ok' ne _ bytes sub] by (simp add: s'_def)
qed



section \<open>Runs\<close>

text \<open>
  A run of the sorter on a stream \<open>f\<close> of bytes: frames carrying bytes of the stream arrive in any order and are accepted,
  and data is taken out.  Kept are the bytes taken out, the offsets received, the callbacks of the accepted frames, and
  those that were called or handed out with the data.  A run ends with the first frame that is rejected because of too many
  gaps, for then the connection is closed.  Frames end before \<^verbatim>\<open>MaxByteCount\<close>: the crypto stream allows far smaller offsets only,
  the parser of stream frames rejects those that end behind it, and one that ends exactly there, which it lets pass, makes
  \<^verbatim>\<open>Push\<close> panic (\<open>Push_beyond\<close>).
\<close>

inductive sorter_run :: "(byte_count \<Rightarrow> u8) \<Rightarrow> frameSorter \<Rightarrow> bytes \<Rightarrow> byte_count set \<Rightarrow> nat multiset \<Rightarrow> nat multiset \<Rightarrow> bool"
  for f where
  run_new: "sorter_run f newFrameSorter [] {} {#} {#}"
| run_push: "sorter_run f s out R G D \<Longrightarrow> 0 \<le> offset \<Longrightarrow> offset + int (length data) < MaxByteCount \<Longrightarrow>
    (\<And>i. i < length data \<Longrightarrow> data ! i = f (offset + int i)) \<Longrightarrow> Push s data offset cb = Inr (None, s', called) \<Longrightarrow>
    sorter_run f s' out (R \<union> {offset..<offset + int (length data)}) (G + mset (call cb)) (D + mset called)"
| run_pop: "sorter_run f s out R G D \<Longrightarrow> Pop s = Inr ((offset, Some data, cb), s') \<Longrightarrow>
    sorter_run f s' (out @ data) R G (D + mset (call cb))"

definition run_inv :: "(byte_count \<Rightarrow> u8) \<Rightarrow> frameSorter \<Rightarrow> bytes \<Rightarrow> byte_count set \<Rightarrow> nat multiset \<Rightarrow> nat multiset \<Rightarrow> bool" where
  "run_inv f s out R G D \<longleftrightarrow> sorter_ok s \<and> readPos s = int (length out) \<and> (\<forall>i < length out. out ! i = f (int i)) \<and>
     (\<forall>x b. stored s x b \<longrightarrow> b = f x) \<and> (\<forall>x. readPos s \<le> x \<longrightarrow> (\<exists>b. stored s x b) = (x \<in> R)) \<and>
     {0..<readPos s} \<subseteq> R \<and> G = D + cbs (queue s)"

lemma newFrameSorter_ok: "sorter_ok newFrameSorter"
  by (auto simp: sorter_ok_def newFrameSorter_def elem_PushFront_def gaps_ok_def gaps_sep_def queue_ok_def covers_def MaxByteCount_def)

lemma run_inv_push:
  assumes inv: "run_inv f s out R G D" and d: "0 \<le> offset" "offset + int (length data) < MaxByteCount"
    and f: "\<And>i. i < length data \<Longrightarrow> data ! i = f (offset + int i)" and run: "Push s data offset cb = Inr (None, s', called)"
  shows "run_inv f s' out (R \<union> {offset..<offset + int (length data)}) (G + mset (call cb)) (D + mset called)"
proof -
  have ok: "sorter_ok s" using inv by (simp add: run_inv_def)
  from ok d show ?thesis
  proof (cases rule: Push_sound [where cb = cb])
    case (accepted t c)
    have t: "t = s'" "c = called" using accepted(1) run by simp_all
    have "b = f x" if "stored s' x b" for x b
    proof (cases "stored s x b")
      case True
      then show ?thesis using inv by (simp add: run_inv_def)
    next
      case False
      then have "offset \<le> x" "x < offset + int (length data)" "b = data ! nat (x - offset)" using accepted(5) that t by auto
      then show ?thesis using f [of "nat (x - offset)"] by simp
    qed
    moreover have "(\<exists>b. stored s' x b) = (x \<in> R \<union> {offset..<offset + int (length data)})" if "readPos s' \<le> x" for x
      using accepted(3,4) t that inv by (auto simp: run_inv_def)
    ultimately show ?thesis using inv accepted(2,3,6) t unfolding run_inv_def by (auto simp: ac_simps)
  next
    case (full t c)
    then show ?thesis using run by simp
  qed
qed

lemma run_inv_pop:
  assumes inv: "run_inv f s out R G D" and run: "Pop s = Inr ((offset, Some data, cb), s')"
  shows "run_inv f s' (out @ data) R G (D + mset (call cb))"
proof -
  have ok: "sorter_ok s" using inv by (simp add: run_inv_def)
  from ok show ?thesis
  proof (cases rule: Pop_sound)
    case empty
    then show ?thesis using run by simp
  next
    case (data e t)
    have t: "t = s'" "Data e = data" "DoneCb e = cb" using data(1) run by simp_all
    have len: "readPos s = int (length out)" and val: "\<And>x b. stored s x b \<Longrightarrow> b = f x"
        and dom: "\<And>x. readPos s \<le> x \<Longrightarrow> (\<exists>b. stored s x b) \<longleftrightarrow> x \<in> R"
      using inv by (simp_all add: run_inv_def)
    have new: "data ! i = f (readPos s + int i)" "readPos s + int i \<in> R" if "i < length data" for i
      using data(5) [of i] that t val dom [of "readPos s + int i"] by auto
    have "(out @ data) ! i = f (int i)" if "i < length (out @ data)" for i
    proof (cases "i < length out")
      case True
      then show ?thesis using inv by (simp add: run_inv_def nth_append)
    next
      case False
      then show ?thesis using new(1) [of "i - length out"] that len by (simp add: nth_append)
    qed
    moreover have "x \<in> R" if "0 \<le> x" "x < readPos s'" for x
      using new(2) [of "nat (x - readPos s)"] that data(4) t inv by (cases "x < readPos s") (auto simp: run_inv_def)
    moreover have "G = D + mset (call cb) + cbs (queue s')" using inv data(7) t by (simp add: run_inv_def ac_simps)
    moreover have "\<And>x b. stored s' x b \<Longrightarrow> b = f x" using data(6) t val by blast
    moreover have "(\<exists>b. stored s' x b) \<longleftrightarrow> x \<in> R" if "readPos s' \<le> x" for x
      using data(4) data(8) [of x] t dom [of x] that by simp
    moreover have "sorter_ok s'" "readPos s' = int (length (out @ data))" using data(2,4) t len by simp_all
    ultimately show ?thesis unfolding run_inv_def by (simp add: subset_iff)
  qed
qed

lemma run_inv_reach: "sorter_run f s out R G D \<Longrightarrow> run_inv f s out R G D"
proof (induction rule: sorter_run.induct)
  case run_new
  then show ?case using newFrameSorter_ok
    by (simp add: run_inv_def has_byte_def newFrameSorter_def cbs_def)
qed (blast intro: run_inv_push run_inv_pop)+

section \<open>Properties\<close>

text \<open>
  Property C11.  On every run the sorter is well formed, and it is known exactly when an operation panics.  A non-empty frame
  that reaches the offset \<^verbatim>\<open>MaxByteCount\<close> makes \<^verbatim>\<open>Push\<close> panic, although the parser of stream frames lets a frame pass that
  ends exactly there.  Every other frame is accepted, which keeps the sorter well formed, or rejected because of too many
  gaps.  Taking data out never panics and keeps the sorter well formed.
\<close>

theorem frame_sorter_well_formed:
  assumes "sorter_run f s out R G D" "0 \<le> offset" "is_i64 (offset + int (length data))"
  shows "sorter_ok s \<and>
    (if data \<noteq> [] \<and> MaxByteCount \<le> offset + int (length data) then Push s data offset cb = Inl ''no gap found''
     else \<exists>err s' called. Push s data offset cb = Inr (err, s', called) \<and>
       (err = None \<and> sorter_ok s' \<or> err = Some errTooManyGaps)) \<and>
    (\<exists>r s'. Pop s = Inr (r, s') \<and> sorter_ok s')"
proof -
  have ok: "sorter_ok s" using run_inv_reach [OF assms(1)] by (simp add: run_inv_def)
  have "\<exists>err s' called. Push s data offset cb = Inr (err, s', called) \<and> (err = None \<and> sorter_ok s' \<or> err = Some errTooManyGaps)"
    if "data = [] \<or> offset + int (length data) < MaxByteCount"
  proof (cases "data = []")
    case True
    then show ?thesis using ok by (simp add: Push_def push_def)
  next
    case False
    then have "offset + int (length data) < MaxByteCount" using that by simp
    with ok assms(2) show ?thesis by (cases rule: Push_sound [where cb = cb]) auto
  qed
  moreover have "Push s data offset cb = Inl ''no gap found''" if "data \<noteq> []" "MaxByteCount \<le> offset + int (length data)"
    using Push_beyond [OF ok that(1) assms(2) that(2) assms(3)] .
  moreover have "\<exists>r s'. Pop s = Inr (r, s') \<and> sorter_ok s'" using ok by (cases rule: Pop_sound) (use ok in auto)
  ultimately show ?thesis using ok by (simp add: not_le)
qed

definition frame1 :: bytes where "frame1 = [2, 3, 4]"
definition frame2 :: bytes where "frame2 = [0, 1, 2]"

definition sorter1 :: frameSorter where
  "sorter1 = (case Push newFrameSorter frame1 2 (Some 7) of Inr (_, s, _) \<Rightarrow> s)"

definition sorter2 :: frameSorter where
  "sorter2 = (case Push sorter1 frame2 0 (Some 8) of Inr (_, s, _) \<Rightarrow> s)"

lemma sorter_example:
  "Push newFrameSorter frame1 2 (Some 7) = Inr (None, sorter1, [])"
  "Push sorter1 frame2 0 (Some 8) = Inr (None, sorter2, [8])"
  by code_simp+

lemma sorter_example_run:
  "sorter_run word_of_int sorter1 [] {2..<5} {#7#} {#}" "sorter_run word_of_int sorter2 [] ({2..<5} \<union> {0..<3}) {#7, 8#} {#8#}"
proof -
  have f1: "frame1 ! i = word_of_int (2 + int i)" if "i < length frame1" for i
    using that by (auto simp: frame1_def less_Suc_eq numeral_3_eq_3)
  have f2: "frame2 ! i = word_of_int (0 + int i)" if "i < length frame2" for i
    using that by (auto simp: frame2_def less_Suc_eq numeral_3_eq_3)
  show r1: "sorter_run word_of_int sorter1 [] {2..<5} {#7#} {#}"
    using run_push [OF run_new _ _ f1 sorter_example(1)] by (simp add: frame1_def call_def MaxByteCount_def)
  show "sorter_run word_of_int sorter2 [] ({2..<5} \<union> {0..<3}) {#7, 8#} {#8#}"
    using run_push [OF r1 _ _ f2 sorter_example(2)] by (simp add: frame2_def call_def MaxByteCount_def add_mset_commute)
qed

theorem frame_sorter_well_formed_witness:
  "Push sorter2 [1] (MaxByteCount - 1) None = Inl ''no gap found'' \<and>
   (\<exists>err s' called. Push sorter2 [1] 1 None = Inr (err, s', called)) \<and> (\<exists>r s'. Pop sorter2 = Inr (r, s') \<and> sorter_ok s')"
  using frame_sorter_well_formed [OF sorter_example_run(2), of "MaxByteCount - 1" "[1]" None]
    frame_sorter_well_formed [OF sorter_example_run(2), of 1 "[1]" None]
  by (auto simp: MaxByteCount_def is_i64_def)

text \<open>
  Property C2.  Accepting a frame stores exactly the bytes of the frame that were missing: afterwards an offset holds a byte
  if it did before, or if the frame carries it and it was not read yet, and every byte held is an old one or the
  frame's.  The list of gaps and the map of entries thereby implement a partial map from offsets to bytes.
\<close>

theorem frame_sorter_push_refines:
  assumes "sorter_ok s" "0 \<le> offset" "offset + int (length data) < MaxByteCount" "Push s data offset cb = Inr (None, s', called)"
  shows "sorter_ok s' \<and> readPos s' = readPos s \<and>
    ((\<exists>b. stored s' x b) \<longleftrightarrow> (\<exists>b. stored s x b) \<or> readPos s \<le> x \<and> offset \<le> x \<and> x < offset + int (length data)) \<and>
    (stored s' x b \<longrightarrow> stored s x b \<or> offset \<le> x \<and> x < offset + int (length data) \<and> b = data ! nat (x - offset))"
  using assms(1-3) by (cases rule: Push_sound [where cb = cb]) (use assms(4) in auto)

theorem frame_sorter_push_refines_witness: "sorter_ok sorter1 \<and> readPos sorter1 = 0 \<and> (\<exists>b. stored sorter1 4 b)"
  using frame_sorter_push_refines [OF newFrameSorter_ok _ _ sorter_example(1), of 4 0]
  by (simp add: frame1_def MaxByteCount_def) (simp add: newFrameSorter_def)

text \<open>
  Property C1.  The bytes taken out are the bytes of the stream, in order and without gaps or repetitions, up to the read
  position, and only received bytes are delivered.  If the byte at the read position was received, taking data out returns a
  non-empty piece; otherwise it returns nothing and changes nothing.
\<close>

theorem stream_delivered_in_order:
  assumes "sorter_run f s out R G D"
  shows "out = map (\<lambda>i. f (int i)) [0..<length out] \<and> readPos s = int (length out) \<and> {0..<readPos s} \<subseteq> R \<and>
    (if readPos s \<in> R then \<exists>data cb s'. Pop s = Inr ((readPos s, Some data, cb), s') \<and> data \<noteq> []
     else Pop s = Inr ((readPos s, None, None), s))"
proof -
  note inv = run_inv_reach [OF assms, unfolded run_inv_def]
  have ok: "sorter_ok s" and at: "(\<exists>b. stored s (readPos s) b) \<longleftrightarrow> readPos s \<in> R" using inv by auto
  have "out = map (\<lambda>i. f (int i)) [0..<length out]" using inv by (intro nth_equalityI) simp_all
  moreover from ok have "if readPos s \<in> R then \<exists>data cb s'. Pop s = Inr ((readPos s, Some data, cb), s') \<and> data \<noteq> []
     else Pop s = Inr ((readPos s, None, None), s)"
  proof (cases rule: Pop_sound)
    case empty
    then show ?thesis using at by simp
  next
    case (data e s')
    have "stored s (readPos s) (Data e ! 0)" using data(3) data(5) [of 0] by simp
    then show ?thesis using data(1,3) at by auto
  qed
  ultimately show ?thesis using inv by blast
qed

lemma sorter_example_readPos: "readPos sorter2 = 0"
  by code_simp

theorem stream_delivered_in_order_witness:
  "\<exists>data cb s'. Pop sorter2 = Inr ((0, Some data, cb), s') \<and> data \<noteq> []"
  using stream_delivered_in_order [OF sorter_example_run(2)] by (simp add: sorter_example_readPos)

text \<open>
  Property C10.  Every buffer of an accepted frame is released exactly once: on every run, the callbacks of the accepted
  frames are those called or handed out with the data, and those kept with the data that is still queued, each as often as
  it was given.  Once no data is queued, all have been released.  A frame that is rejected because of too many gaps is the
  exception: the callbacks of the other frames are still called or kept exactly once each, but the frame's own may be neither
  called nor kept.
\<close>

theorem callbacks_exactly_once:
  assumes "sorter_run f s out R G D"
  shows "G = D + cbs (queue s) \<and> (\<not> HasMoreData s \<longrightarrow> D = G) \<and>
    (0 \<le> offset \<and> offset + int (length data) < MaxByteCount \<and> Push s data offset cb = Inr (Some err, s', called) \<longrightarrow>
       G = D + mset called + cbs (queue s') \<or> G + mset (call cb) = D + mset called + cbs (queue s'))"
proof -
  have inv: "G = D + cbs (queue s)" "sorter_ok s" using run_inv_reach [OF assms] by (simp_all add: run_inv_def)
  have "cbs (queue s) = {#}" if "\<not> HasMoreData s" using that by (simp add: HasMoreData_def cbs_def)
  moreover have "G = D + mset called + cbs (queue s') \<or> G + mset (call cb) = D + mset called + cbs (queue s')"
    if "0 \<le> offset" "offset + int (length data) < MaxByteCount" "Push s data offset cb = Inr (Some err, s', called)"
    using inv(2) that(1,2) by (cases rule: Push_sound [where cb = cb]) (use that(3) inv(1) in \<open>auto simp: ac_simps\<close>)
  ultimately show ?thesis using inv(1) by simp
qed

theorem callbacks_exactly_once_witness: "{#7, 8#} = {#8#} + cbs (queue sorter2)"
  using callbacks_exactly_once [OF sorter_example_run(2)] by blast



end
