(* ===== verification/Frames.thy ===== *)
theory Frames
  imports AckFrame
begin

unbundle bit_operations_syntax

text \<open>
  The frames of \<^verbatim>\<open>internal/wire\<close> other than ACK: their fields, \<^verbatim>\<open>parse\<close>, \<^verbatim>\<open>Append\<close> and \<^verbatim>\<open>Length\<close> functions, the
  splitting of data frames, and the frame types.

  The parsers share the step \<open>parse_varint\<close>.  A connection ID is the list of its bytes.  Object pools are left out, except for
  the size of the buffers that \<^verbatim>\<open>GetStreamFrame\<close> returns.
\<close>

section \<open>Errors\<close>

definition wire_bind :: "wire_error + 'a \<Rightarrow> ('a \<Rightarrow> wire_error + 'b) \<Rightarrow> wire_error + 'b" where
  "wire_bind m f = (case m of Inl e \<Rightarrow> Inl e | Inr x \<Rightarrow> f x)"

lemma wire_bind_simps [simp]: "wire_bind (Inl e) f = Inl e" "wire_bind (Inr x) f = f x"
  by (simp_all add: wire_bind_def)

lemma wire_bind_eq_Inr [simp]: "wire_bind m f = Inr y \<longleftrightarrow> (\<exists>x. m = Inr x \<and> f x = Inr y)"
  by (cases m) simp_all

definition errZeroConnectionID :: wire_error where "errZeroConnectionID = Msg ''invalid zero-length connection ID''"
definition ErrInvalidConnectionIDLen :: wire_error where "ErrInvalidConnectionIDLen = Msg ''invalid Connection ID length''"

section \<open>Connection IDs\<close>

type_synonym ConnectionID = bytes

definition MaxConnIDLen :: nat where [go_defs]: "MaxConnIDLen = 20"

definition ParseConnectionID :: "bytes \<Rightarrow> ConnectionID go" where
  "ParseConnectionID b = (if length b > MaxConnIDLen then Inl ''invalid conn id length'' else Inr b)"

section \<open>Frame types\<close>

named_theorems frame_types \<open>the numbers of the frame types\<close>

type_synonym FrameType = u64

definition FrameTypePing :: FrameType where [frame_types]: "FrameTypePing = 0x1"
definition FrameTypeAck :: FrameType where [frame_types]: "FrameTypeAck = 0x2"
definition FrameTypeAckECN :: FrameType where [frame_types]: "FrameTypeAckECN = 0x3"
definition FrameTypeResetStream :: FrameType where [frame_types]: "FrameTypeResetStream = 0x4"
definition FrameTypeStopSending :: FrameType where [frame_types]: "FrameTypeStopSending = 0x5"
definition FrameTypeCrypto :: FrameType where [frame_types]: "FrameTypeCrypto = 0x6"
definition FrameTypeNewToken :: FrameType where [frame_types]: "FrameTypeNewToken = 0x7"
definition FrameTypeMaxData :: FrameType where [frame_types]: "FrameTypeMaxData = 0x10"
definition FrameTypeMaxStreamData :: FrameType where [frame_types]: "FrameTypeMaxStreamData = 0x11"
definition FrameTypeBidiMaxStreams :: FrameType where [frame_types]: "FrameTypeBidiMaxStreams = 0x12"
definition FrameTypeUniMaxStreams :: FrameType where [frame_types]: "FrameTypeUniMaxStreams = 0x13"
definition FrameTypeDataBlocked :: FrameType where [frame_types]: "FrameTypeDataBlocked = 0x14"
definition FrameTypeStreamDataBlocked :: FrameType where [frame_types]: "FrameTypeStreamDataBlocked = 0x15"
definition FrameTypeBidiStreamBlocked :: FrameType where [frame_types]: "FrameTypeBidiStreamBlocked = 0x16"
definition FrameTypeUniStreamBlocked :: FrameType where [frame_types]: "FrameTypeUniStreamBlocked = 0x17"
definition FrameTypeNewConnectionID :: FrameType where [frame_types]: "FrameTypeNewConnectionID = 0x18"
definition FrameTypeRetireConnectionID :: FrameType where [frame_types]: "FrameTypeRetireConnectionID = 0x19"
definition FrameTypePathChallenge :: FrameType where [frame_types]: "FrameTypePathChallenge = 0x1a"
definition FrameTypePathResponse :: FrameType where [frame_types]: "FrameTypePathResponse = 0x1b"
definition FrameTypeConnectionClose :: FrameType where [frame_types]: "FrameTypeConnectionClose = 0x1c"
definition FrameTypeApplicationClose :: FrameType where [frame_types]: "FrameTypeApplicationClose = 0x1d"
definition FrameTypeHandshakeDone :: FrameType where [frame_types]: "FrameTypeHandshakeDone = 0x1e"
definition FrameTypeResetStreamAt :: FrameType where [frame_types]: "FrameTypeResetStreamAt = 0x24"
definition FrameTypeAckFrequency :: FrameType where [frame_types]: "FrameTypeAckFrequency = 0xaf"
definition FrameTypeImmediateAck :: FrameType where [frame_types]: "FrameTypeImmediateAck = 0x1f"
definition FrameTypeDatagramNoLength :: FrameType where [frame_types]: "FrameTypeDatagramNoLength = 0x30"
definition FrameTypeDatagramWithLength :: FrameType where [frame_types]: "FrameTypeDatagramWithLength = 0x31"

definition IsStreamFrameType :: "FrameType \<Rightarrow> bool" where
  [frame_types]: "IsStreamFrameType t \<longleftrightarrow> t \<ge> 0x8 \<and> t \<le> 0xf"

definition isValidRFC9000 :: "FrameType \<Rightarrow> bool" where
  [frame_types]: "isValidRFC9000 t \<longleftrightarrow> t \<le> 0x1e"

definition IsAckFrameType :: "FrameType \<Rightarrow> bool" where
  [frame_types]: "IsAckFrameType t \<longleftrightarrow> t = FrameTypeAck \<or> t = FrameTypeAckECN"

definition IsDatagramFrameType :: "FrameType \<Rightarrow> bool" where
  [frame_types]: "IsDatagramFrameType t \<longleftrightarrow> t = FrameTypeDatagramNoLength \<or> t = FrameTypeDatagramWithLength"

fun isAllowedAtEncLevel :: "FrameType \<Rightarrow> EncryptionLevel \<Rightarrow> bool" where
  "isAllowedAtEncLevel t EncryptionInitial =
     (t \<in> {FrameTypeCrypto, FrameTypeAck, FrameTypeAckECN, FrameTypeConnectionClose, FrameTypePing})"
| "isAllowedAtEncLevel t EncryptionHandshake =
     (t \<in> {FrameTypeCrypto, FrameTypeAck, FrameTypeAckECN, FrameTypeConnectionClose, FrameTypePing})"
| "isAllowedAtEncLevel t Encryption0RTT =
     (t \<notin> {FrameTypeCrypto, FrameTypeAck, FrameTypeAckECN, FrameTypeConnectionClose, FrameTypeNewToken, FrameTypePathResponse,
        FrameTypeRetireConnectionID})"
| "isAllowedAtEncLevel t Encryption1RTT = True"

definition IsProbingFrameType :: "FrameType \<Rightarrow> bool" where
  [frame_types]: "IsProbingFrameType f \<longleftrightarrow> f \<in> {FrameTypePathChallenge, FrameTypePathResponse, FrameTypeNewConnectionID}"

definition IsFrameTypeAckEliciting :: "FrameType \<Rightarrow> bool" where
  [frame_types]: "IsFrameTypeAckEliciting t \<longleftrightarrow>
     t \<notin> {FrameTypeAck, FrameTypeAckECN, FrameTypeConnectionClose, FrameTypeApplicationClose}"

section \<open>CRYPTO frames\<close>

record CryptoFrame =
  crypto_Offset :: byte_count
  crypto_Data :: bytes

definition parseCryptoFrame :: "bytes \<Rightarrow> wire_error + (CryptoFrame \<times> nat)" where
  "parseCryptoFrame b0 =
     (let startLen = length b0 in
      wire_bind (parse_varint b0) (\<lambda>(offset, b).
      wire_bind (parse_varint b) (\<lambda>(dataLen, b).
      if dataLen > of_nat (length b) then Inl (Io EOF)
      else Inr (\<lparr>crypto_Offset = sint offset, crypto_Data = take (unat dataLen) b\<rparr>, startLen - length b + unat dataLen))))"

definition CryptoFrame_Append :: "CryptoFrame \<Rightarrow> bytes \<Rightarrow> bytes go" where
  "CryptoFrame_Append f b =
     go_bind (varint_Append (b @ [ucast FrameTypeCrypto]) (word_of_int (crypto_Offset f))) (\<lambda>b.
     go_bind (varint_Append b (of_nat (length (crypto_Data f)))) (\<lambda>b.
     Inr (b @ crypto_Data f)))"

definition CryptoFrame_Length :: "CryptoFrame \<Rightarrow> byte_count go" where
  "CryptoFrame_Length f =
     go_bind (varint_Len (word_of_int (crypto_Offset f))) (\<lambda>l1.
     go_bind (varint_Len (of_nat (length (crypto_Data f)))) (\<lambda>l2.
     Inr (int (1 + l1 + l2 + length (crypto_Data f)))))"

definition CryptoFrame_MaxDataLen :: "CryptoFrame \<Rightarrow> byte_count \<Rightarrow> byte_count go" where
  "CryptoFrame_MaxDataLen f maxSize =
     go_bind (varint_Len (word_of_int (crypto_Offset f))) (\<lambda>l.
     let headerLen = int (1 + l + 1) in
     if headerLen > maxSize then Inr 0
     else let maxDataLen = maxSize - headerLen in
     go_bind (varint_Len (word_of_int maxDataLen)) (\<lambda>l.
     Inr (if l \<noteq> 1 then maxDataLen - 1 else maxDataLen)))"

text \<open>
  \<^verbatim>\<open>MaybeSplitOffFrame\<close> returns the frame split off or \<open>nil\<close>, whether splitting was required, and what is left of the frame.
\<close>

definition CryptoFrame_MaybeSplitOffFrame :: "CryptoFrame \<Rightarrow> byte_count \<Rightarrow> (CryptoFrame option \<times> bool \<times> CryptoFrame) go" where
  "CryptoFrame_MaybeSplitOffFrame f maxSize =
     go_bind (CryptoFrame_Length f) (\<lambda>len.
     if len \<le> maxSize then Inr (None, False, f)
     else
       go_bind (CryptoFrame_MaxDataLen f maxSize) (\<lambda>n.
       if n = 0 then Inr (None, True, f)
       else
         let newLen = int (length (crypto_Data f)) - n in
         if newLen < 0 then Inl ''makeslice: len out of range''
         else
           let new = \<lparr>crypto_Offset = crypto_Offset f, crypto_Data = take (nat n) (crypto_Data f)\<rparr>;
               f = f\<lparr>crypto_Data := drop (nat n) (crypto_Data f), crypto_Offset := crypto_Offset f + n\<rparr>
           in Inr (Some new, True, f)))"

section \<open>STREAM frames\<close>

record StreamFrame =
  stream_StreamID :: stream_id
  stream_Offset :: byte_count
  stream_Data :: bytes
  stream_Fin :: bool
  stream_DataLenPresent :: bool

definition MaxPacketBufferSize :: nat where [go_defs]: "MaxPacketBufferSize = 1452"
definition MinBufferedFrameSize :: u64 where [go_defs]: "MinBufferedFrameSize = 128"

definition DataLen :: "StreamFrame \<Rightarrow> byte_count" where
  "DataLen f = int (length (stream_Data f))"

definition ParseStreamFrame :: "bytes \<Rightarrow> FrameType \<Rightarrow> wire_error + (StreamFrame \<times> nat)" where
  "ParseStreamFrame b0 typ =
     (let startLen = length b0; hasOffset = (typ AND 4 > 0); fin = (typ AND 1 > 0); hasDataLen = (typ AND 2 > 0) in
      wire_bind (parse_varint b0) (\<lambda>(streamID, b).
      wire_bind (if hasOffset then parse_varint b else Inr (0, b)) (\<lambda>(offset, b).
      wire_bind (if hasDataLen
                 then wire_bind (parse_varint b) (\<lambda>(dataLen, b). if dataLen > of_nat (length b) then Inl (Io EOF) else Inr (dataLen, b))
                 else Inr (of_nat (length b), b)) (\<lambda>(dataLen, b).
      if \<not> dataLen < MinBufferedFrameSize \<and> dataLen > of_nat MaxPacketBufferSize then Inl (Io EOF)
      else
        let frame = \<lparr>stream_StreamID = sint streamID, stream_Offset = sint offset, stream_Data = take (unat dataLen) b,
              stream_Fin = fin, stream_DataLenPresent = hasDataLen\<rparr>
        in if i64 (stream_Offset frame + DataLen frame) > MaxByteCount then Inl (Msg ''stream data overflows maximum offset'')
           else Inr (frame, startLen - length b + unat dataLen)))))"

definition StreamFrame_Append :: "StreamFrame \<Rightarrow> bytes \<Rightarrow> (wire_error + bytes) go" where
  "StreamFrame_Append f b =
     (if length (stream_Data f) = 0 \<and> \<not> stream_Fin f
      then Inr (Inl (Msg ''StreamFrame: attempting to write empty frame without FIN''))
      else
        let typ = 0x8 :: u8;
            typ = (if stream_Fin f then typ XOR 1 else typ);
            hasOffset = (stream_Offset f \<noteq> 0);
            typ = (if stream_DataLenPresent f then typ XOR 2 else typ);
            typ = (if hasOffset then typ XOR 4 else typ)
        in
        go_bind (varint_Append (b @ [typ]) (word_of_int (stream_StreamID f))) (\<lambda>b.
        go_bind (if hasOffset then varint_Append b (word_of_int (stream_Offset f)) else Inr b) (\<lambda>b.
        go_bind (if stream_DataLenPresent f then varint_Append b (word_of_int (DataLen f)) else Inr b) (\<lambda>b.
        Inr (Inr (b @ stream_Data f))))))"

definition StreamFrame_Length :: "StreamFrame \<Rightarrow> byte_count go" where
  "StreamFrame_Length f =
     go_bind (varint_Len (word_of_int (stream_StreamID f))) (\<lambda>l1.
     go_bind (if stream_Offset f \<noteq> 0 then varint_Len (word_of_int (stream_Offset f)) else Inr 0) (\<lambda>l2.
     go_bind (if stream_DataLenPresent f then varint_Len (word_of_int (DataLen f)) else Inr 0) (\<lambda>l3.
     Inr (int (1 + l1 + l2 + l3) + DataLen f))))"

definition StreamFrame_MaxDataLen :: "StreamFrame \<Rightarrow> byte_count \<Rightarrow> byte_count go" where
  "StreamFrame_MaxDataLen f maxSize =
     go_bind (varint_Len (word_of_int (stream_StreamID f))) (\<lambda>l1.
     go_bind (if stream_Offset f \<noteq> 0 then varint_Len (word_of_int (stream_Offset f)) else Inr 0) (\<lambda>l2.
     let headerLen = int (1 + l1 + l2) + (if stream_DataLenPresent f then 1 else 0) in
     if headerLen > maxSize then Inr 0
     else let maxDataLen = maxSize - headerLen in
     go_bind (if stream_DataLenPresent f
              then go_bind (varint_Len (word_of_int maxDataLen)) (\<lambda>l. Inr (l \<noteq> 1)) else Inr False) (\<lambda>dec.
     Inr (if dec then maxDataLen - 1 else maxDataLen))))"

definition StreamFrame_MaybeSplitOffFrame :: "StreamFrame \<Rightarrow> byte_count \<Rightarrow> (StreamFrame option \<times> bool \<times> StreamFrame) go" where
  "StreamFrame_MaybeSplitOffFrame f maxSize =
     go_bind (StreamFrame_Length f) (\<lambda>len.
     if maxSize \<ge> len then Inr (None, False, f)
     else
       go_bind (StreamFrame_MaxDataLen f maxSize) (\<lambda>n.
       if n = 0 then Inr (None, True, f)
       else
         let rest = int (length (stream_Data f)) - n in
         if rest < 0 \<or> rest > int MaxPacketBufferSize then Inl ''slice bounds out of range''
         else
           let new = f\<lparr>stream_Fin := False, stream_Data := take (nat n) (stream_Data f)\<rparr>;
               f = f\<lparr>stream_Data := drop (nat n) (stream_Data f), stream_Offset := stream_Offset f + n\<rparr>
           in Inr (Some new, True, f)))"

section \<open>DATAGRAM frames\<close>

record DatagramFrame =
  datagram_DataLenPresent :: bool
  datagram_Data :: bytes

definition parseDatagramFrame :: "bytes \<Rightarrow> FrameType \<Rightarrow> wire_error + (DatagramFrame \<times> nat)" where
  "parseDatagramFrame b0 typ =
     (let startLen = length b0; dataLenPresent = (typ AND 1 > 0) in
      wire_bind (if dataLenPresent
                 then wire_bind (parse_varint b0) (\<lambda>(len, b). if len > of_nat (length b) then Inl (Io EOF) else Inr (len, b))
                 else Inr (of_nat (length b0), b0)) (\<lambda>(len, b).
      Inr (\<lparr>datagram_DataLenPresent = dataLenPresent, datagram_Data = take (unat len) b\<rparr>, startLen - length b + unat len)))"

definition DatagramFrame_Append :: "DatagramFrame \<Rightarrow> bytes \<Rightarrow> bytes go" where
  "DatagramFrame_Append f b =
     (let typ = (if datagram_DataLenPresent f then (0x30 :: u8) XOR 1 else 0x30) in
      go_bind (if datagram_DataLenPresent f then varint_Append (b @ [typ]) (of_nat (length (datagram_Data f))) else Inr (b @ [typ]))
        (\<lambda>b. Inr (b @ datagram_Data f)))"

definition DatagramFrame_MaxDataLen :: "DatagramFrame \<Rightarrow> byte_count \<Rightarrow> byte_count go" where
  "DatagramFrame_MaxDataLen f maxSize =
     (let headerLen = 1 + (if datagram_DataLenPresent f then 1 else 0) in
      if headerLen > maxSize then Inr 0
      else let maxDataLen = maxSize - headerLen in
      go_bind (if datagram_DataLenPresent f
               then go_bind (varint_Len (word_of_int maxDataLen)) (\<lambda>l. Inr (l \<noteq> 1)) else Inr False) (\<lambda>dec.
      Inr (if dec then maxDataLen - 1 else maxDataLen)))"

definition DatagramFrame_Length :: "DatagramFrame \<Rightarrow> byte_count go" where
  "DatagramFrame_Length f =
     (let len = 1 + int (length (datagram_Data f)) in
      if datagram_DataLenPresent f
      then go_bind (varint_Len (of_nat (length (datagram_Data f)))) (\<lambda>l. Inr (len + int l))
      else Inr len)"

section \<open>Stream control frames\<close>

record ResetStreamFrame =
  reset_StreamID :: stream_id
  reset_ErrorCode :: u64
  reset_FinalSize :: byte_count
  reset_ReliableSize :: byte_count

definition parseResetStreamFrame :: "bytes \<Rightarrow> bool \<Rightarrow> wire_error + (ResetStreamFrame \<times> nat)" where
  "parseResetStreamFrame b0 isResetStreamAt =
     (let startLen = length b0 in
      wire_bind (parse_varint b0) (\<lambda>(streamID, b).
      wire_bind (parse_varint b) (\<lambda>(errorCode, b).
      wire_bind (parse_varint b) (\<lambda>(finalSize, b).
      wire_bind (if isResetStreamAt then parse_varint b else Inr (0, b)) (\<lambda>(reliableSize, b).
      if reliableSize > finalSize then Inl (Msg ''RESET_STREAM_AT: reliable size can't be larger than final size'')
      else Inr (\<lparr>reset_StreamID = sint streamID, reset_ErrorCode = errorCode, reset_FinalSize = sint finalSize,
             reset_ReliableSize = sint reliableSize\<rparr>, startLen - length b))))))"

definition ResetStreamFrame_Append :: "ResetStreamFrame \<Rightarrow> bytes \<Rightarrow> bytes go" where
  "ResetStreamFrame_Append f b =
     go_bind (varint_Append b (if reset_ReliableSize f = 0 then FrameTypeResetStream else FrameTypeResetStreamAt)) (\<lambda>b.
     go_bind (varint_Append b (word_of_int (reset_StreamID f))) (\<lambda>b.
     go_bind (varint_Append b (reset_ErrorCode f)) (\<lambda>b.
     go_bind (varint_Append b (word_of_int (reset_FinalSize f))) (\<lambda>b.
     if reset_ReliableSize f > 0 then varint_Append b (word_of_int (reset_ReliableSize f)) else Inr b))))"

definition ResetStreamFrame_Length :: "ResetStreamFrame \<Rightarrow> byte_count go" where
  "ResetStreamFrame_Length f =
     go_bind (if reset_ReliableSize f > 0 then varint_Len (word_of_int (reset_ReliableSize f)) else Inr 0) (\<lambda>l0.
     go_bind (varint_Len (word_of_int (reset_StreamID f))) (\<lambda>l1.
     go_bind (varint_Len (reset_ErrorCode f)) (\<lambda>l2.
     go_bind (varint_Len (word_of_int (reset_FinalSize f))) (\<lambda>l3.
     Inr (int (1 + l0 + l1 + l2 + l3))))))"

record StopSendingFrame =
  stop_StreamID :: stream_id
  stop_ErrorCode :: u64

definition parseStopSendingFrame :: "bytes \<Rightarrow> wire_error + (StopSendingFrame \<times> nat)" where
  "parseStopSendingFrame b0 =
     (let startLen = length b0 in
      wire_bind (parse_varint b0) (\<lambda>(streamID, b).
      wire_bind (parse_varint b) (\<lambda>(errorCode, b).
      Inr (\<lparr>stop_StreamID = sint streamID, stop_ErrorCode = errorCode\<rparr>, startLen - length b))))"

definition StopSendingFrame_Length :: "StopSendingFrame \<Rightarrow> byte_count go" where
  "StopSendingFrame_Length f =
     go_bind (varint_Len (word_of_int (stop_StreamID f))) (\<lambda>l1.
     go_bind (varint_Len (stop_ErrorCode f)) (\<lambda>l2. Inr (1 + int (l1 + l2))))"

definition StopSendingFrame_Append :: "StopSendingFrame \<Rightarrow> bytes \<Rightarrow> bytes go" where
  "StopSendingFrame_Append f b =
     go_bind (varint_Append (b @ [ucast FrameTypeStopSending]) (word_of_int (stop_StreamID f))) (\<lambda>b.
     varint_Append b (stop_ErrorCode f))"

record MaxDataFrame =
  maxdata_MaximumData :: byte_count

definition parseMaxDataFrame :: "bytes \<Rightarrow> wire_error + (MaxDataFrame \<times> nat)" where
  "parseMaxDataFrame b0 =
     wire_bind (parse_varint b0) (\<lambda>(byteOffset, b). Inr (\<lparr>maxdata_MaximumData = sint byteOffset\<rparr>, length b0 - length b))"

definition MaxDataFrame_Append :: "MaxDataFrame \<Rightarrow> bytes \<Rightarrow> bytes go" where
  "MaxDataFrame_Append f b = varint_Append (b @ [ucast FrameTypeMaxData]) (word_of_int (maxdata_MaximumData f))"

definition MaxDataFrame_Length :: "MaxDataFrame \<Rightarrow> byte_count go" where
  "MaxDataFrame_Length f = go_bind (varint_Len (word_of_int (maxdata_MaximumData f))) (\<lambda>l. Inr (1 + int l))"

record MaxStreamDataFrame =
  msd_StreamID :: stream_id
  msd_MaximumStreamData :: byte_count

definition parseMaxStreamDataFrame :: "bytes \<Rightarrow> wire_error + (MaxStreamDataFrame \<times> nat)" where
  "parseMaxStreamDataFrame b0 =
     (let startLen = length b0 in
      wire_bind (parse_varint b0) (\<lambda>(sid, b).
      wire_bind (parse_varint b) (\<lambda>(offset, b).
      Inr (\<lparr>msd_StreamID = sint sid, msd_MaximumStreamData = sint offset\<rparr>, startLen - length b))))"

definition MaxStreamDataFrame_Append :: "MaxStreamDataFrame \<Rightarrow> bytes \<Rightarrow> bytes go" where
  "MaxStreamDataFrame_Append f b =
     go_bind (varint_Append (b @ [ucast FrameTypeMaxStreamData]) (word_of_int (msd_StreamID f))) (\<lambda>b.
     varint_Append b (word_of_int (msd_MaximumStreamData f)))"

definition MaxStreamDataFrame_Length :: "MaxStreamDataFrame \<Rightarrow> byte_count go" where
  "MaxStreamDataFrame_Length f =
     go_bind (varint_Len (word_of_int (msd_StreamID f))) (\<lambda>l1.
     go_bind (varint_Len (word_of_int (msd_MaximumStreamData f))) (\<lambda>l2. Inr (1 + int (l1 + l2))))"

record MaxStreamsFrame =
  ms_Type :: StreamType
  ms_MaxStreamNum :: int

definition parseMaxStreamsFrame :: "bytes \<Rightarrow> FrameType \<Rightarrow> wire_error + (MaxStreamsFrame \<times> nat)" where
  "parseMaxStreamsFrame b0 typ =
     wire_bind (parse_varint b0) (\<lambda>(streamID, b).
     if sint streamID > MaxStreamCount then Inl (Msg ''exceeds the maximum stream count'')
     else Inr (\<lparr>ms_Type = (if typ = FrameTypeBidiMaxStreams then StreamTypeBidi else StreamTypeUni), ms_MaxStreamNum = sint streamID\<rparr>,
       length b0 - length b))"

definition MaxStreamsFrame_Append :: "MaxStreamsFrame \<Rightarrow> bytes \<Rightarrow> bytes go" where
  "MaxStreamsFrame_Append f b =
     (let b = (case ms_Type f of StreamTypeBidi \<Rightarrow> b @ [ucast FrameTypeBidiMaxStreams]
                | StreamTypeUni \<Rightarrow> b @ [ucast FrameTypeUniMaxStreams])
      in varint_Append b (word_of_int (ms_MaxStreamNum f)))"

definition MaxStreamsFrame_Length :: "MaxStreamsFrame \<Rightarrow> byte_count go" where
  "MaxStreamsFrame_Length f = go_bind (varint_Len (word_of_int (ms_MaxStreamNum f))) (\<lambda>l. Inr (1 + int l))"

record DataBlockedFrame =
  db_MaximumData :: byte_count

definition parseDataBlockedFrame :: "bytes \<Rightarrow> wire_error + (DataBlockedFrame \<times> nat)" where
  "parseDataBlockedFrame b0 =
     wire_bind (parse_varint b0) (\<lambda>(offset, b). Inr (\<lparr>db_MaximumData = sint offset\<rparr>, length b0 - length b))"

definition DataBlockedFrame_Append :: "DataBlockedFrame \<Rightarrow> bytes \<Rightarrow> bytes go" where
  "DataBlockedFrame_Append f b = varint_Append (b @ [ucast FrameTypeDataBlocked]) (word_of_int (db_MaximumData f))"

definition DataBlockedFrame_Length :: "DataBlockedFrame \<Rightarrow> byte_count go" where
  "DataBlockedFrame_Length f = go_bind (varint_Len (word_of_int (db_MaximumData f))) (\<lambda>l. Inr (1 + int l))"

record StreamDataBlockedFrame =
  sdb_StreamID :: stream_id
  sdb_MaximumStreamData :: byte_count

definition parseStreamDataBlockedFrame :: "bytes \<Rightarrow> wire_error + (StreamDataBlockedFrame \<times> nat)" where
  "parseStreamDataBlockedFrame b0 =
     (let startLen = length b0 in
      wire_bind (parse_varint b0) (\<lambda>(sid, b).
      wire_bind (parse_varint b) (\<lambda>(offset, b').
      let l = length b - length b' in
      Inr (\<lparr>sdb_StreamID = sint sid, sdb_MaximumStreamData = sint offset\<rparr>, startLen - length b + l))))"

definition StreamDataBlockedFrame_Append :: "StreamDataBlockedFrame \<Rightarrow> bytes \<Rightarrow> bytes go" where
  "StreamDataBlockedFrame_Append f b =
     go_bind (varint_Append (b @ [0x15]) (word_of_int (sdb_StreamID f))) (\<lambda>b.
     varint_Append b (word_of_int (sdb_MaximumStreamData f)))"

definition StreamDataBlockedFrame_Length :: "StreamDataBlockedFrame \<Rightarrow> byte_count go" where
  "StreamDataBlockedFrame_Length f =
     go_bind (varint_Len (word_of_int (sdb_StreamID f))) (\<lambda>l1.
     go_bind (varint_Len (word_of_int (sdb_MaximumStreamData f))) (\<lambda>l2. Inr (1 + int (l1 + l2))))"

record StreamsBlockedFrame =
  sb_Type :: StreamType
  sb_StreamLimit :: int

definition parseStreamsBlockedFrame :: "bytes \<Rightarrow> FrameType \<Rightarrow> wire_error + (StreamsBlockedFrame \<times> nat)" where
  "parseStreamsBlockedFrame b0 typ =
     wire_bind (parse_varint b0) (\<lambda>(streamLimit, b).
     if sint streamLimit > MaxStreamCount then Inl (Msg ''exceeds the maximum stream count'')
     else Inr (\<lparr>sb_Type = (if typ = FrameTypeBidiStreamBlocked then StreamTypeBidi else StreamTypeUni), sb_StreamLimit = sint streamLimit\<rparr>,
       length b0 - length b))"

definition StreamsBlockedFrame_Append :: "StreamsBlockedFrame \<Rightarrow> bytes \<Rightarrow> bytes go" where
  "StreamsBlockedFrame_Append f b =
     (let b = (case sb_Type f of StreamTypeBidi \<Rightarrow> b @ [ucast FrameTypeBidiStreamBlocked]
                | StreamTypeUni \<Rightarrow> b @ [ucast FrameTypeUniStreamBlocked])
      in varint_Append b (word_of_int (sb_StreamLimit f)))"

definition StreamsBlockedFrame_Length :: "StreamsBlockedFrame \<Rightarrow> byte_count go" where
  "StreamsBlockedFrame_Length f = go_bind (varint_Len (word_of_int (sb_StreamLimit f))) (\<lambda>l. Inr (1 + int l))"

section \<open>Connection control frames\<close>

record ConnectionCloseFrame =
  cc_IsApplicationError :: bool
  cc_ErrorCode :: u64
  cc_FrameType :: u64
  cc_ReasonPhrase :: bytes

definition parseConnectionCloseFrame :: "bytes \<Rightarrow> FrameType \<Rightarrow> wire_error + (ConnectionCloseFrame \<times> nat)" where
  "parseConnectionCloseFrame b0 typ =
     (let startLen = length b0; isApplicationError = (typ = FrameTypeApplicationClose) in
      wire_bind (parse_varint b0) (\<lambda>(ec, b).
      wire_bind (if \<not> isApplicationError then parse_varint b else Inr (0, b)) (\<lambda>(ft, b).
      wire_bind (parse_varint b) (\<lambda>(reasonPhraseLen, b).
      if sint reasonPhraseLen > int (length b) then Inl (Io EOF)
      else Inr (\<lparr>cc_IsApplicationError = isApplicationError, cc_ErrorCode = ec, cc_FrameType = ft,
             cc_ReasonPhrase = take (unat reasonPhraseLen) b\<rparr>, startLen - length b + unat reasonPhraseLen)))))"

definition ConnectionCloseFrame_Length :: "ConnectionCloseFrame \<Rightarrow> byte_count go" where
  "ConnectionCloseFrame_Length f =
     go_bind (varint_Len (cc_ErrorCode f)) (\<lambda>l1.
     go_bind (varint_Len (of_nat (length (cc_ReasonPhrase f)))) (\<lambda>l2.
     let len = 1 + int (l1 + l2) + int (length (cc_ReasonPhrase f)) in
     if \<not> cc_IsApplicationError f then go_bind (varint_Len (cc_FrameType f)) (\<lambda>l3. Inr (len + int l3)) else Inr len))"

definition ConnectionCloseFrame_Append :: "ConnectionCloseFrame \<Rightarrow> bytes \<Rightarrow> bytes go" where
  "ConnectionCloseFrame_Append f b =
     (let b = b @ [ucast (if cc_IsApplicationError f then FrameTypeApplicationClose else FrameTypeConnectionClose)] in
      go_bind (varint_Append b (cc_ErrorCode f)) (\<lambda>b.
      go_bind (if \<not> cc_IsApplicationError f then varint_Append b (cc_FrameType f) else Inr b) (\<lambda>b.
      go_bind (varint_Append b (of_nat (length (cc_ReasonPhrase f)))) (\<lambda>b.
      Inr (b @ cc_ReasonPhrase f)))))"

text \<open>A stateless reset token is an array of 16 bytes.\<close>

record NewConnectionIDFrame =
  nci_SequenceNumber :: u64
  nci_RetirePriorTo :: u64
  nci_ConnectionID :: ConnectionID
  nci_StatelessResetToken :: bytes

definition StatelessResetTokenLen :: nat where [go_defs]: "StatelessResetTokenLen = 16"

definition parseNewConnectionIDFrame :: "bytes \<Rightarrow> (wire_error + (NewConnectionIDFrame \<times> nat)) go" where
  "parseNewConnectionIDFrame b0 =
     (let startLen = length b0 in
      case wire_bind (parse_varint b0) (\<lambda>(seq, b). wire_bind (parse_varint b) (\<lambda>(ret, b). Inr (seq, ret, b))) of
        Inl e \<Rightarrow> Inr (Inl e)
      | Inr (seq, ret, b) \<Rightarrow>
        if ret > seq then Inr (Inl (Msg ''Retire Prior To value larger than Sequence Number''))
        else (case b of [] \<Rightarrow> Inr (Inl (Io EOF)) | c # b \<Rightarrow>
          let connIDLen = unat c in
          if connIDLen = 0 then Inr (Inl errZeroConnectionID)
          else if connIDLen > MaxConnIDLen then Inr (Inl ErrInvalidConnectionIDLen)
          else if length b < connIDLen then Inr (Inl (Io EOF))
          else
            go_bind (ParseConnectionID (take connIDLen b)) (\<lambda>connID.
            let b = drop connIDLen b in
            if length b < StatelessResetTokenLen then Inr (Inl (Io EOF))
            else Inr (Inr (\<lparr>nci_SequenceNumber = seq, nci_RetirePriorTo = ret, nci_ConnectionID = connID,
                   nci_StatelessResetToken = take StatelessResetTokenLen b\<rparr>, startLen - length b + StatelessResetTokenLen)))))"

definition NewConnectionIDFrame_Append :: "NewConnectionIDFrame \<Rightarrow> bytes \<Rightarrow> (wire_error + bytes) go" where
  "NewConnectionIDFrame_Append f b =
     go_bind (varint_Append (b @ [ucast FrameTypeNewConnectionID]) (nci_SequenceNumber f)) (\<lambda>b.
     go_bind (varint_Append b (nci_RetirePriorTo f)) (\<lambda>b.
     let connIDLen = length (nci_ConnectionID f) in
     if connIDLen > MaxConnIDLen then Inr (Inl (Msg ''invalid connection ID length''))
     else Inr (Inr (b @ [of_nat connIDLen] @ nci_ConnectionID f @ nci_StatelessResetToken f))))"

definition NewConnectionIDFrame_Length :: "NewConnectionIDFrame \<Rightarrow> byte_count go" where
  "NewConnectionIDFrame_Length f =
     go_bind (varint_Len (nci_SequenceNumber f)) (\<lambda>l1.
     go_bind (varint_Len (nci_RetirePriorTo f)) (\<lambda>l2.
     Inr (1 + int (l1 + l2 + 1 + length (nci_ConnectionID f)) + 16)))"

record RetireConnectionIDFrame =
  rci_SequenceNumber :: u64

definition parseRetireConnectionIDFrame :: "bytes \<Rightarrow> wire_error + (RetireConnectionIDFrame \<times> nat)" where
  "parseRetireConnectionIDFrame b0 =
     wire_bind (parse_varint b0) (\<lambda>(seq, b). Inr (\<lparr>rci_SequenceNumber = seq\<rparr>, length b0 - length b))"

definition RetireConnectionIDFrame_Append :: "RetireConnectionIDFrame \<Rightarrow> bytes \<Rightarrow> bytes go" where
  "RetireConnectionIDFrame_Append f b = varint_Append (b @ [ucast FrameTypeRetireConnectionID]) (rci_SequenceNumber f)"

definition RetireConnectionIDFrame_Length :: "RetireConnectionIDFrame \<Rightarrow> byte_count go" where
  "RetireConnectionIDFrame_Length f = go_bind (varint_Len (rci_SequenceNumber f)) (\<lambda>l. Inr (1 + int l))"

record NewTokenFrame =
  nt_Token :: bytes

definition parseNewTokenFrame :: "bytes \<Rightarrow> wire_error + (NewTokenFrame \<times> nat)" where
  "parseNewTokenFrame b0 =
     wire_bind (parse_varint b0) (\<lambda>(tokenLen, b).
     let l = length b0 - length b in
     if tokenLen = 0 then Inl (Msg ''token must not be empty'')
     else if of_nat (length b) < tokenLen then Inl (Io EOF)
     else Inr (\<lparr>nt_Token = take (unat tokenLen) b\<rparr>, l + unat tokenLen))"

definition NewTokenFrame_Append :: "NewTokenFrame \<Rightarrow> bytes \<Rightarrow> bytes go" where
  "NewTokenFrame_Append f b =
     go_bind (varint_Append (b @ [ucast FrameTypeNewToken]) (of_nat (length (nt_Token f)))) (\<lambda>b. Inr (b @ nt_Token f))"

definition NewTokenFrame_Length :: "NewTokenFrame \<Rightarrow> byte_count go" where
  "NewTokenFrame_Length f = go_bind (varint_Len (of_nat (length (nt_Token f)))) (\<lambda>l. Inr (1 + int (l + length (nt_Token f))))"

text \<open>The payload of the path frames is an array of 8 bytes.\<close>

record PathChallengeFrame =
  pc_Data :: bytes

definition parsePathChallengeFrame :: "bytes \<Rightarrow> wire_error + (PathChallengeFrame \<times> nat)" where
  "parsePathChallengeFrame b = (if length b < 8 then Inl (Io EOF) else Inr (\<lparr>pc_Data = take 8 b\<rparr>, 8))"

definition PathChallengeFrame_Append :: "PathChallengeFrame \<Rightarrow> bytes \<Rightarrow> bytes" where
  "PathChallengeFrame_Append f b = b @ [ucast FrameTypePathChallenge] @ pc_Data f"

definition PathChallengeFrame_Length :: "PathChallengeFrame \<Rightarrow> byte_count" where
  "PathChallengeFrame_Length f = 1 + 8"

record PathResponseFrame =
  pr_Data :: bytes

definition parsePathResponseFrame :: "bytes \<Rightarrow> wire_error + (PathResponseFrame \<times> nat)" where
  "parsePathResponseFrame b = (if length b < 8 then Inl (Io EOF) else Inr (\<lparr>pr_Data = take 8 b\<rparr>, 8))"

definition PathResponseFrame_Append :: "PathResponseFrame \<Rightarrow> bytes \<Rightarrow> bytes" where
  "PathResponseFrame_Append f b = b @ [ucast FrameTypePathResponse] @ pr_Data f"

definition PathResponseFrame_Length :: "PathResponseFrame \<Rightarrow> byte_count" where
  "PathResponseFrame_Length f = 1 + 8"

definition PingFrame_Append :: "bytes \<Rightarrow> bytes" where
  "PingFrame_Append b = b @ [ucast FrameTypePing]"

definition PingFrame_Length :: byte_count where
  "PingFrame_Length = 1"

definition HandshakeDoneFrame_Append :: "bytes \<Rightarrow> bytes" where
  "HandshakeDoneFrame_Append b = b @ [ucast FrameTypeHandshakeDone]"

definition HandshakeDoneFrame_Length :: byte_count where
  "HandshakeDoneFrame_Length = 1"

definition ImmediateAckFrame_Append :: "bytes \<Rightarrow> bytes go" where
  "ImmediateAckFrame_Append b = varint_Append b FrameTypeImmediateAck"

definition ImmediateAckFrame_Length :: "byte_count go" where
  "ImmediateAckFrame_Length = go_bind (varint_Len FrameTypeImmediateAck) (\<lambda>l. Inr (int l))"

record AckFrequencyFrame =
  af_SequenceNumber :: u64
  af_AckElicitingThreshold :: u64
  af_RequestMaxAckDelay :: duration
  af_ReorderingThreshold :: packet_number

definition parseAckFrequencyFrame :: "bytes \<Rightarrow> wire_error + (AckFrequencyFrame \<times> nat)" where
  "parseAckFrequencyFrame b0 =
     (let startLen = length b0 in
      wire_bind (parse_varint b0) (\<lambda>(seq, b).
      wire_bind (parse_varint b) (\<lambda>(aeth, b).
      wire_bind (parse_varint b) (\<lambda>(mad, b).
      let maxAckDelay = i64 (sint mad * Microsecond);
          maxAckDelay = (if maxAckDelay < 0 then MaxInt64 else maxAckDelay) in
      wire_bind (parse_varint b) (\<lambda>(rth, b).
      Inr (\<lparr>af_SequenceNumber = seq, af_AckElicitingThreshold = aeth, af_RequestMaxAckDelay = maxAckDelay,
            af_ReorderingThreshold = sint rth\<rparr>, startLen - length b))))))"

definition AckFrequencyFrame_Append :: "AckFrequencyFrame \<Rightarrow> bytes \<Rightarrow> bytes go" where
  "AckFrequencyFrame_Append f b =
     go_bind (varint_Append b FrameTypeAckFrequency) (\<lambda>b.
     go_bind (varint_Append b (af_SequenceNumber f)) (\<lambda>b.
     go_bind (varint_Append b (af_AckElicitingThreshold f)) (\<lambda>b.
     go_bind (varint_Append b (word_of_int (go_div (af_RequestMaxAckDelay f) Microsecond))) (\<lambda>b.
     varint_Append b (word_of_int (af_ReorderingThreshold f))))))"

definition AckFrequencyFrame_Length :: "AckFrequencyFrame \<Rightarrow> byte_count go" where
  "AckFrequencyFrame_Length f =
     go_bind (varint_Len (af_SequenceNumber f)) (\<lambda>l1.
     go_bind (varint_Len (af_AckElicitingThreshold f)) (\<lambda>l2.
     go_bind (varint_Len (word_of_int (go_div (af_RequestMaxAckDelay f) Microsecond))) (\<lambda>l3.
     go_bind (varint_Len (word_of_int (af_ReorderingThreshold f))) (\<lambda>l4.
     Inr (int (2 + l1 + l2 + l3 + l4))))))"

end
