(* ===== verification/FrameParser.thy ===== *)
theory FrameParser
  imports Frames
begin

text \<open>
  The \<^verbatim>\<open>Frame\<close> interface of \<^verbatim>\<open>internal/wire/frame.go\<close> as the sum of the frame types, and the frame parser of
  \<^verbatim>\<open>frame_parser.go\<close>.

  A transport error keeps the error whose text the code copies into \<^verbatim>\<open>ErrorMessage\<close>; numbers formatted into a message are
  left out.
\<close>

section \<open>Frames\<close>

datatype Frame =
    PingFrame
  | AckFrame AckFrame
  | ResetStreamFrame ResetStreamFrame
  | StopSendingFrame StopSendingFrame
  | CryptoFrame CryptoFrame
  | NewTokenFrame NewTokenFrame
  | StreamFrame StreamFrame
  | MaxDataFrame MaxDataFrame
  | MaxStreamDataFrame MaxStreamDataFrame
  | MaxStreamsFrame MaxStreamsFrame
  | DataBlockedFrame DataBlockedFrame
  | StreamDataBlockedFrame StreamDataBlockedFrame
  | StreamsBlockedFrame StreamsBlockedFrame
  | NewConnectionIDFrame NewConnectionIDFrame
  | RetireConnectionIDFrame RetireConnectionIDFrame
  | PathChallengeFrame PathChallengeFrame
  | PathResponseFrame PathResponseFrame
  | ConnectionCloseFrame ConnectionCloseFrame
  | HandshakeDoneFrame
  | DatagramFrame DatagramFrame
  | AckFrequencyFrame AckFrequencyFrame
  | ImmediateAckFrame

text \<open>The writers that never return an error.\<close>

definition no_error :: "bytes go \<Rightarrow> (wire_error + bytes) go" where
  "no_error m = go_bind m (\<lambda>b. Inr (Inr b))"

lemma no_error_Inr [simp]: "no_error (Inr b) = Inr (Inr b)"
  by (simp add: no_error_def)

fun Frame_Append :: "Frame \<Rightarrow> bytes \<Rightarrow> (wire_error + bytes) go" where
  "Frame_Append PingFrame b = Inr (Inr (PingFrame_Append b))"
| "Frame_Append (AckFrame f) b = no_error (AckFrame_Append f b)"
| "Frame_Append (ResetStreamFrame f) b = no_error (ResetStreamFrame_Append f b)"
| "Frame_Append (StopSendingFrame f) b = no_error (StopSendingFrame_Append f b)"
| "Frame_Append (CryptoFrame f) b = no_error (CryptoFrame_Append f b)"
| "Frame_Append (NewTokenFrame f) b = no_error (NewTokenFrame_Append f b)"
| "Frame_Append (StreamFrame f) b = StreamFrame_Append f b"
| "Frame_Append (MaxDataFrame f) b = no_error (MaxDataFrame_Append f b)"
| "Frame_Append (MaxStreamDataFrame f) b = no_error (MaxStreamDataFrame_Append f b)"
| "Frame_Append (MaxStreamsFrame f) b = no_error (MaxStreamsFrame_Append f b)"
| "Frame_Append (DataBlockedFrame f) b = no_error (DataBlockedFrame_Append f b)"
| "Frame_Append (StreamDataBlockedFrame f) b = no_error (StreamDataBlockedFrame_Append f b)"
| "Frame_Append (StreamsBlockedFrame f) b = no_error (StreamsBlockedFrame_Append f b)"
| "Frame_Append (NewConnectionIDFrame f) b = NewConnectionIDFrame_Append f b"
| "Frame_Append (RetireConnectionIDFrame f) b = no_error (RetireConnectionIDFrame_Append f b)"
| "Frame_Append (PathChallengeFrame f) b = Inr (Inr (PathChallengeFrame_Append f b))"
| "Frame_Append (PathResponseFrame f) b = Inr (Inr (PathResponseFrame_Append f b))"
| "Frame_Append (ConnectionCloseFrame f) b = no_error (ConnectionCloseFrame_Append f b)"
| "Frame_Append HandshakeDoneFrame b = Inr (Inr (HandshakeDoneFrame_Append b))"
| "Frame_Append (DatagramFrame f) b = no_error (DatagramFrame_Append f b)"
| "Frame_Append (AckFrequencyFrame f) b = no_error (AckFrequencyFrame_Append f b)"
| "Frame_Append ImmediateAckFrame b = no_error (ImmediateAckFrame_Append b)"

fun Frame_Length :: "Frame \<Rightarrow> byte_count go" where
  "Frame_Length PingFrame = Inr PingFrame_Length"
| "Frame_Length (AckFrame f) = go_bind (AckFrame_Length f) (\<lambda>l. Inr (int l))"
| "Frame_Length (ResetStreamFrame f) = ResetStreamFrame_Length f"
| "Frame_Length (StopSendingFrame f) = StopSendingFrame_Length f"
| "Frame_Length (CryptoFrame f) = CryptoFrame_Length f"
| "Frame_Length (NewTokenFrame f) = NewTokenFrame_Length f"
| "Frame_Length (StreamFrame f) = StreamFrame_Length f"
| "Frame_Length (MaxDataFrame f) = MaxDataFrame_Length f"
| "Frame_Length (MaxStreamDataFrame f) = MaxStreamDataFrame_Length f"
| "Frame_Length (MaxStreamsFrame f) = MaxStreamsFrame_Length f"
| "Frame_Length (DataBlockedFrame f) = DataBlockedFrame_Length f"
| "Frame_Length (StreamDataBlockedFrame f) = StreamDataBlockedFrame_Length f"
| "Frame_Length (StreamsBlockedFrame f) = StreamsBlockedFrame_Length f"
| "Frame_Length (NewConnectionIDFrame f) = NewConnectionIDFrame_Length f"
| "Frame_Length (RetireConnectionIDFrame f) = RetireConnectionIDFrame_Length f"
| "Frame_Length (PathChallengeFrame f) = Inr (PathChallengeFrame_Length f)"
| "Frame_Length (PathResponseFrame f) = Inr (PathResponseFrame_Length f)"
| "Frame_Length (ConnectionCloseFrame f) = ConnectionCloseFrame_Length f"
| "Frame_Length HandshakeDoneFrame = Inr HandshakeDoneFrame_Length"
| "Frame_Length (DatagramFrame f) = DatagramFrame_Length f"
| "Frame_Length (AckFrequencyFrame f) = AckFrequencyFrame_Length f"
| "Frame_Length ImmediateAckFrame = ImmediateAckFrame_Length"

fun IsProbingFrame :: "Frame \<Rightarrow> bool" where
  "IsProbingFrame (PathChallengeFrame _) = True"
| "IsProbingFrame (PathResponseFrame _) = True"
| "IsProbingFrame (NewConnectionIDFrame _) = True"
| "IsProbingFrame _ = False"

fun IsFrameAckEliciting :: "Frame \<Rightarrow> bool" where
  "IsFrameAckEliciting (AckFrame _) = False"
| "IsFrameAckEliciting (ConnectionCloseFrame _) = False"
| "IsFrameAckEliciting _ = True"

section \<open>The frame parser\<close>

record TransportError =
  te_Remote :: bool
  te_ErrorCode :: u64
  te_FrameType :: u64
  te_ErrorMessage :: wire_error

datatype frame_error = IoEOF | Transport TransportError

definition FrameEncodingError :: u64 where [go_defs]: "FrameEncodingError = 0x7"

definition encoding_error :: "u64 \<Rightarrow> wire_error \<Rightarrow> frame_error" where
  "encoding_error typ e = Transport \<lparr>te_Remote = False, te_ErrorCode = FrameEncodingError, te_FrameType = typ, te_ErrorMessage = e\<rparr>"

definition errUnknownFrameType :: wire_error where
  "errUnknownFrameType = Msg ''unknown frame type''"

record FrameParser =
  ackDelayExponent :: u8
  supportsDatagrams :: bool
  supportsResetStreamAt :: bool
  supportsAckFrequency :: bool
  ackFrame :: AckFrame

definition NewFrameParser :: "bool \<Rightarrow> bool \<Rightarrow> bool \<Rightarrow> FrameParser" where
  "NewFrameParser datagrams resetStreamAt ackFrequency =
     \<lparr>ackDelayExponent = 0, supportsDatagrams = datagrams, supportsResetStreamAt = resetStreamAt, supportsAckFrequency = ackFrequency,
      ackFrame = new_AckFrame\<rparr>"

definition type_valid :: "FrameParser \<Rightarrow> FrameType \<Rightarrow> bool" where
  "type_valid p ft \<longleftrightarrow>
     isValidRFC9000 ft \<or> (supportsDatagrams p \<and> IsDatagramFrameType ft) \<or> (supportsResetStreamAt p \<and> ft = FrameTypeResetStreamAt) \<or>
     (supportsAckFrequency p \<and> (ft = FrameTypeAckFrequency \<or> ft = FrameTypeImmediateAck))"

text \<open>The loop of \<^verbatim>\<open>ParseType\<close> with the number of bytes parsed; it returns that number on every path.\<close>

function ParseType_loop :: "FrameParser \<Rightarrow> EncryptionLevel \<Rightarrow> nat \<Rightarrow> bytes \<Rightarrow> (frame_error + FrameType) \<times> nat" where
  "ParseType_loop p encLevel parsed b =
     (if b = [] then (Inl IoEOF, parsed)
      else case varint_Parse b of
        Inl e \<Rightarrow> (Inl (encoding_error 0 (Io e)), parsed)
      | Inr (typ, l) \<Rightarrow>
          let parsed = parsed + l; b = drop l b in
          if typ = 0 then ParseType_loop p encLevel parsed b
          else if \<not> type_valid p typ then (Inl (encoding_error typ errUnknownFrameType), parsed)
          else if \<not> isAllowedAtEncLevel typ encLevel
            then (Inl (encoding_error typ (Msg ''not allowed at encryption level'')), parsed)
          else (Inr typ, parsed))"
  by pat_completeness auto
termination
  by (relation "measure (\<lambda>(p, e, n, b). length b)") (auto elim!: Parse_cases)

declare ParseType_loop.simps [simp del]

definition ParseType :: "FrameParser \<Rightarrow> bytes \<Rightarrow> EncryptionLevel \<Rightarrow> (frame_error + FrameType) \<times> nat" where
  "ParseType p b encLevel = ParseType_loop p encLevel 0 b"

text \<open>An error of a parser becomes a transport error with the type of the frame.\<close>

definition as_transport :: "FrameType \<Rightarrow> wire_error + 'a \<Rightarrow> frame_error + 'a" where
  "as_transport typ r = (case r of Inl e \<Rightarrow> Inl (encoding_error typ e) | Inr x \<Rightarrow> Inr x)"

definition parser_ParseStreamFrame :: "FrameType \<Rightarrow> bytes \<Rightarrow> frame_error + (StreamFrame \<times> nat)" where
  "parser_ParseStreamFrame frameType data = as_transport frameType (ParseStreamFrame data frameType)"

text \<open>
  The parser reuses one ACK frame.  It is reset before each use, so what a failed call leaves in it is not read; the model then
  keeps the reset frame.
\<close>

definition ParseAckFrame :: "FrameParser \<Rightarrow> FrameType \<Rightarrow> bytes \<Rightarrow> EncryptionLevel \<Rightarrow> (frame_error + (AckFrame \<times> nat)) \<times> FrameParser" where
  "ParseAckFrame p frameType data encLevel =
     (let exponent = (if encLevel \<noteq> Encryption1RTT then AckDelayExponent else unat (ackDelayExponent p));
          frame = AckFrame_Reset (ackFrame p) in
      case parseAckFrame frame data (frameType = FrameTypeAckECN) exponent of
        Inl e \<Rightarrow> (Inl (encoding_error frameType e), p\<lparr>ackFrame := frame\<rparr>)
      | Inr (frame, l) \<Rightarrow> (Inr (frame, l), p\<lparr>ackFrame := frame\<rparr>))"

definition ParseDatagramFrame :: "FrameType \<Rightarrow> bytes \<Rightarrow> frame_error + (DatagramFrame \<times> nat)" where
  "ParseDatagramFrame frameType data = as_transport frameType (parseDatagramFrame data frameType)"

definition frame_of :: "('f \<Rightarrow> Frame) \<Rightarrow> wire_error + ('f \<times> nat) \<Rightarrow> (wire_error + (Frame \<times> nat)) go" where
  "frame_of C r = Inr (case r of Inl e \<Rightarrow> Inl e | Inr (f, l) \<Rightarrow> Inr (C f, l))"

definition ParseLessCommonFrame :: "FrameType \<Rightarrow> bytes \<Rightarrow> (frame_error + (Frame \<times> nat)) go" where
  "ParseLessCommonFrame frameType data =
     go_bind
       (if frameType = FrameTypePing then Inr (Inr (PingFrame, 0))
        else if frameType = FrameTypeResetStream then frame_of ResetStreamFrame (parseResetStreamFrame data False)
        else if frameType = FrameTypeStopSending then frame_of StopSendingFrame (parseStopSendingFrame data)
        else if frameType = FrameTypeCrypto then frame_of CryptoFrame (parseCryptoFrame data)
        else if frameType = FrameTypeNewToken then frame_of NewTokenFrame (parseNewTokenFrame data)
        else if frameType = FrameTypeMaxData then frame_of MaxDataFrame (parseMaxDataFrame data)
        else if frameType = FrameTypeMaxStreamData then frame_of MaxStreamDataFrame (parseMaxStreamDataFrame data)
        else if frameType \<in> {FrameTypeBidiMaxStreams, FrameTypeUniMaxStreams}
          then frame_of MaxStreamsFrame (parseMaxStreamsFrame data frameType)
        else if frameType = FrameTypeDataBlocked then frame_of DataBlockedFrame (parseDataBlockedFrame data)
        else if frameType = FrameTypeStreamDataBlocked then frame_of StreamDataBlockedFrame (parseStreamDataBlockedFrame data)
        else if frameType \<in> {FrameTypeBidiStreamBlocked, FrameTypeUniStreamBlocked}
          then frame_of StreamsBlockedFrame (parseStreamsBlockedFrame data frameType)
        else if frameType = FrameTypeNewConnectionID
          then go_bind (parseNewConnectionIDFrame data) (frame_of NewConnectionIDFrame)
        else if frameType = FrameTypeRetireConnectionID then frame_of RetireConnectionIDFrame (parseRetireConnectionIDFrame data)
        else if frameType = FrameTypePathChallenge then frame_of PathChallengeFrame (parsePathChallengeFrame data)
        else if frameType = FrameTypePathResponse then frame_of PathResponseFrame (parsePathResponseFrame data)
        else if frameType \<in> {FrameTypeConnectionClose, FrameTypeApplicationClose}
          then frame_of ConnectionCloseFrame (parseConnectionCloseFrame data frameType)
        else if frameType = FrameTypeHandshakeDone then Inr (Inr (HandshakeDoneFrame, 0))
        else if frameType = FrameTypeResetStreamAt then frame_of ResetStreamFrame (parseResetStreamFrame data True)
        else if frameType = FrameTypeAckFrequency then frame_of AckFrequencyFrame (parseAckFrequencyFrame data)
        else if frameType = FrameTypeImmediateAck then Inr (Inr (ImmediateAckFrame, 0))
        else Inr (Inl errUnknownFrameType))
       (\<lambda>r. Inr (as_transport frameType r))"

definition SetAckDelayExponent :: "FrameParser \<Rightarrow> u8 \<Rightarrow> FrameParser" where
  "SetAckDelayExponent p exp = p\<lparr>ackDelayExponent := exp\<rparr>"

end
