(* ===== verification/HandleFrames.thy ===== *)
theory HandleFrames
  imports FrameParser RTTStats
begin

text \<open>
  How \<^verbatim>\<open>connection.go\<close> takes a packet apart: \<^verbatim>\<open>handleFrames\<close>, \<^verbatim>\<open>handleFrame\<close> and \<^verbatim>\<open>handleConnectionCloseFrame\<close>.

  The state of the connection is a type variable.  What the loop calls on it (the stream map, the sent packet handler, the flow
  controller, the connection ID manager and generator) is a record of operations, so that the theorems hold for every behaviour
  of the handlers.  The logging callback is a flag and the frames it is given.
\<close>

section \<open>The operations of the connection\<close>

datatype 'e conn_error =
    ParseError frame_error
  | RemoteApplicationError u64 bytes
  | RemoteTransportError u64 u64 bytes
  | UnexpectedFrameType
  | HandlerError 'e

record ('c, 'e) ConnOps =
  HandleStreamFrame :: "StreamFrame \<Rightarrow> mtime \<Rightarrow> 'c \<Rightarrow> 'c \<times> 'e option"
  handleAckFrame :: "AckFrame \<Rightarrow> EncryptionLevel \<Rightarrow> mtime \<Rightarrow> 'c \<Rightarrow> 'c \<times> 'e option"
  handleDatagramFrame :: "DatagramFrame \<Rightarrow> 'c \<Rightarrow> 'c \<times> 'e option"
  handleCryptoFrame :: "CryptoFrame \<Rightarrow> EncryptionLevel \<Rightarrow> mtime \<Rightarrow> 'c \<Rightarrow> 'c \<times> 'e option"
  HandleResetStreamFrame :: "ResetStreamFrame \<Rightarrow> mtime \<Rightarrow> 'c \<Rightarrow> 'c \<times> 'e option"
  UpdateSendWindow :: "byte_count \<Rightarrow> 'c \<Rightarrow> 'c"
  HandleMaxStreamDataFrame :: "MaxStreamDataFrame \<Rightarrow> 'c \<Rightarrow> 'c \<times> 'e option"
  HandleMaxStreamsFrame :: "MaxStreamsFrame \<Rightarrow> 'c \<Rightarrow> 'c"
  HandleStreamDataBlockedFrame :: "StreamDataBlockedFrame \<Rightarrow> 'c \<Rightarrow> 'c \<times> 'e option"
  HandleStopSendingFrame :: "StopSendingFrame \<Rightarrow> 'c \<Rightarrow> 'c \<times> 'e option"
  handlePathChallengeFrame :: "PathChallengeFrame \<Rightarrow> 'c \<Rightarrow> 'c"
  handlePathResponseFrame :: "PathResponseFrame \<Rightarrow> 'c \<Rightarrow> 'c \<times> 'e option"
  handleNewTokenFrame :: "NewTokenFrame \<Rightarrow> 'c \<Rightarrow> 'c \<times> 'e option"
  connIDManager_Add :: "NewConnectionIDFrame \<Rightarrow> 'c \<Rightarrow> 'c \<times> 'e option"
  connIDGenerator_Retire :: "u64 \<Rightarrow> ConnectionID \<Rightarrow> mtime \<Rightarrow> 'c \<Rightarrow> 'c \<times> 'e option"
  handleHandshakeDoneFrame :: "mtime \<Rightarrow> 'c \<Rightarrow> 'c \<times> 'e option"
  handleHandshakeComplete :: "mtime \<Rightarrow> 'c \<Rightarrow> 'c \<times> 'e option"
  handshakeComplete :: "'c \<Rightarrow> bool"
  conn_rttStats :: "'c \<Rightarrow> RTTStats"

definition handled :: "'c \<times> 'e option \<Rightarrow> 'c \<times> 'e conn_error option" where
  "handled r = (fst r, map_option HandlerError (snd r))"

fun handleConnectionCloseFrame :: "ConnectionCloseFrame \<Rightarrow> 'e conn_error" where
  "handleConnectionCloseFrame frame =
     (if cc_IsApplicationError frame then RemoteApplicationError (cc_ErrorCode frame) (cc_ReasonPhrase frame)
      else RemoteTransportError (cc_ErrorCode frame) (cc_FrameType frame) (cc_ReasonPhrase frame))"

text \<open>\<^verbatim>\<open>handleFrame\<close> returns the PATH_CHALLENGE frame, if it was one, besides the error.\<close>

fun handleFrame ::
  "('c, 'e) ConnOps \<Rightarrow> Frame \<Rightarrow> EncryptionLevel \<Rightarrow> ConnectionID \<Rightarrow> mtime \<Rightarrow> 'c \<Rightarrow> PathChallengeFrame option \<times> 'c \<times> 'e conn_error option" where
  "handleFrame h (CryptoFrame f) encLevel destConnID rcvTime c = (None, handled (handleCryptoFrame h f encLevel rcvTime c))"
| "handleFrame h (ConnectionCloseFrame f) encLevel destConnID rcvTime c = (None, c, Some (handleConnectionCloseFrame f))"
| "handleFrame h (ResetStreamFrame f) encLevel destConnID rcvTime c = (None, handled (HandleResetStreamFrame h f rcvTime c))"
| "handleFrame h (MaxDataFrame f) encLevel destConnID rcvTime c = (None, UpdateSendWindow h (maxdata_MaximumData f) c, None)"
| "handleFrame h (MaxStreamDataFrame f) encLevel destConnID rcvTime c = (None, handled (HandleMaxStreamDataFrame h f c))"
| "handleFrame h (MaxStreamsFrame f) encLevel destConnID rcvTime c = (None, HandleMaxStreamsFrame h f c, None)"
| "handleFrame h (DataBlockedFrame f) encLevel destConnID rcvTime c = (None, c, None)"
| "handleFrame h (StreamDataBlockedFrame f) encLevel destConnID rcvTime c = (None, handled (HandleStreamDataBlockedFrame h f c))"
| "handleFrame h (StreamsBlockedFrame f) encLevel destConnID rcvTime c = (None, c, None)"
| "handleFrame h (StopSendingFrame f) encLevel destConnID rcvTime c = (None, handled (HandleStopSendingFrame h f c))"
| "handleFrame h PingFrame encLevel destConnID rcvTime c = (None, c, None)"
| "handleFrame h (PathChallengeFrame f) encLevel destConnID rcvTime c = (Some f, handlePathChallengeFrame h f c, None)"
| "handleFrame h (PathResponseFrame f) encLevel destConnID rcvTime c = (None, handled (handlePathResponseFrame h f c))"
| "handleFrame h (NewTokenFrame f) encLevel destConnID rcvTime c = (None, handled (handleNewTokenFrame h f c))"
| "handleFrame h (NewConnectionIDFrame f) encLevel destConnID rcvTime c = (None, handled (connIDManager_Add h f c))"
| "handleFrame h (RetireConnectionIDFrame f) encLevel destConnID rcvTime c =
     (None, handled (connIDGenerator_Retire h (rci_SequenceNumber f) destConnID
        (monotime_Add rcvTime (i64 (3 * PTO (conn_rttStats h c) False))) c))"
| "handleFrame h HandshakeDoneFrame encLevel destConnID rcvTime c = (None, handled (handleHandshakeDoneFrame h rcvTime c))"
| "handleFrame h _ encLevel destConnID rcvTime c = (None, c, Some UnexpectedFrameType)"

section \<open>The loop over the frames of a packet\<close>

text \<open>
  The four branches of the loop body: parse a frame of the given type and name the call that will handle it.
\<close>

type_synonym ('c, 'e) frame_call = "'c \<Rightarrow> PathChallengeFrame option \<times> 'c \<times> 'e conn_error option"

definition next_frame ::
  "('c, 'e) ConnOps \<Rightarrow> EncryptionLevel \<Rightarrow> ConnectionID \<Rightarrow> mtime \<Rightarrow> FrameParser \<Rightarrow> FrameType \<Rightarrow> bytes \<Rightarrow>
   ((frame_error + (Frame \<times> nat \<times> ('c, 'e) frame_call)) \<times> FrameParser) go" where
  "next_frame h encLevel destConnID rcvTime p frameType data =
     (if IsStreamFrameType frameType then
        Inr (case parser_ParseStreamFrame frameType data of
               Inl e \<Rightarrow> Inl e
             | Inr (f, l) \<Rightarrow> Inr (StreamFrame f, l, \<lambda>c. (None, handled (HandleStreamFrame h f rcvTime c))), p)
      else if IsAckFrameType frameType then
        (case ParseAckFrame p frameType data encLevel of
           (Inl e, p) \<Rightarrow> Inr (Inl e, p)
         | (Inr (f, l), p) \<Rightarrow> Inr (Inr (AckFrame f, l, \<lambda>c. (None, handled (handleAckFrame h f encLevel rcvTime c))), p))
      else if IsDatagramFrameType frameType then
        Inr (case ParseDatagramFrame frameType data of
               Inl e \<Rightarrow> Inl e
             | Inr (f, l) \<Rightarrow> Inr (DatagramFrame f, l, \<lambda>c. (None, handled (handleDatagramFrame h f c))), p)
      else
        go_bind (ParseLessCommonFrame frameType data) (\<lambda>r.
        Inr (case r of
               Inl e \<Rightarrow> Inl e
             | Inr (f, l) \<Rightarrow> Inr (f, l, handleFrame h f encLevel destConnID rcvTime), p)))"

record ('c, 'e) frames_state =
  fs_conn :: 'c
  frameParser :: FrameParser
  isAckEliciting :: bool
  isNonProbing :: bool
  pathChallenge :: "PathChallengeFrame option"
  frames :: "Frame list"
  handleErr :: "'e conn_error option"
  skipHandling :: bool

text \<open>A frame that was parsed is logged, and handled unless an earlier frame failed.\<close>

definition log_frame :: "bool \<Rightarrow> Frame \<Rightarrow> ('c, 'e) frames_state \<Rightarrow> ('c, 'e) frames_state" where
  "log_frame logging f s = (if logging then s\<lparr>frames := frames s @ [f]\<rparr> else s)"

definition call_handler :: "('c, 'e) frame_call \<Rightarrow> ('c, 'e) frames_state \<Rightarrow> ('c, 'e) frames_state" where
  "call_handler handle s =
     (let (pc, c, err) = handle (fs_conn s) in
      s\<lparr>fs_conn := c, pathChallenge := (if pc \<noteq> None then pc else pathChallenge s), handleErr := err\<rparr>)"

definition note_type :: "FrameType \<Rightarrow> ('c, 'e) frames_state \<Rightarrow> ('c, 'e) frames_state" where
  "note_type frameType s =
     s\<lparr>isAckEliciting := isAckEliciting s \<or> IsFrameTypeAckEliciting frameType,
       isNonProbing := isNonProbing s \<or> \<not> IsProbingFrameType frameType\<rparr>"

lemma ParseType_loop_consumes:
  "ParseType_loop p encLevel n b = (Inr t, l) \<Longrightarrow> n < l"
proof (induction p encLevel n b rule: ParseType_loop.induct)
  case (1 p encLevel n b)
  then obtain v k where k: "b \<noteq> []" "varint_Parse b = Inr (v, k)"
    by (auto simp: ParseType_loop.simps [of _ _ _ b] split: if_splits sum.splits)
  have "0 < k" using k(2) by (cases rule: Parse_cases; simp)+
  then have "n < l" if "n + k < l" using that by simp
  with 1 k \<open>0 < k\<close> show ?case
    by (force simp: ParseType_loop.simps [of _ _ _ b] Let_def split: if_splits)
qed

lemma ParseType_consumes: "ParseType p b encLevel = (Inr t, l) \<Longrightarrow> 0 < l"
  by (simp add: ParseType_def ParseType_loop_consumes)

text \<open>The slice expression \<^verbatim>\<open>data[l:]\<close>.\<close>

definition advance :: "bytes \<Rightarrow> nat \<Rightarrow> bytes go" where
  "advance data l = (if l \<le> length data then Inr (drop l data) else Inl ''slice bounds out of range'')"

text \<open>
  The loop ends with an error to return, or with none and the state in which it was left.
\<close>

function handleFrames_loop ::
  "('c, 'e) ConnOps \<Rightarrow> bool \<Rightarrow> EncryptionLevel \<Rightarrow> ConnectionID \<Rightarrow> mtime \<Rightarrow> bytes \<Rightarrow> ('c, 'e) frames_state \<Rightarrow>
   ('e conn_error option \<times> ('c, 'e) frames_state) go" where
  "handleFrames_loop h logging encLevel destConnID rcvTime data s =
     (if data = [] then Inr (None, s)
      else case ParseType (frameParser s) data encLevel of
        (Inl IoEOF, l) \<Rightarrow> Inr (None, s)
      | (Inl (Transport e), l) \<Rightarrow> Inr (Some (ParseError (Transport e)), s)
      | (Inr frameType, l) \<Rightarrow>
          (case advance data l of Inl panic \<Rightarrow> Inl panic | Inr data \<Rightarrow>
          let s = note_type frameType s in
          (case next_frame h encLevel destConnID rcvTime (frameParser s) frameType data of
            Inl panic \<Rightarrow> Inl panic
          | Inr (Inl e, p) \<Rightarrow> Inr (Some (ParseError e), s\<lparr>frameParser := p\<rparr>)
          | Inr (Inr (f, l, handle), p) \<Rightarrow>
              (case advance data l of Inl panic \<Rightarrow> Inl panic | Inr data \<Rightarrow>
              let s = log_frame logging f (s\<lparr>frameParser := p\<rparr>) in
              if skipHandling s then handleFrames_loop h logging encLevel destConnID rcvTime data s
              else
                let s = call_handler handle s in
                if handleErr s \<noteq> None then
                  (let s = s\<lparr>skipHandling := True\<rparr> in
                   if \<not> logging then Inr (handleErr s, s)
                   else handleFrames_loop h logging encLevel destConnID rcvTime data s)
                else handleFrames_loop h logging encLevel destConnID rcvTime data s))))"
  by pat_completeness auto
termination
  by (relation "measure (\<lambda>(h, logging, e, d, t, data, s). length data)") (auto simp: advance_def dest!: ParseType_consumes [OF sym] split: if_splits)

declare handleFrames_loop.simps [simp del]

record ('c, 'e) frames_result =
  fr_result :: "'e conn_error + (bool \<times> bool \<times> PathChallengeFrame option)"
  fr_conn :: 'c
  fr_parser :: FrameParser
  fr_logged :: "Frame list option"

definition handleFrames ::
  "('c, 'e) ConnOps \<Rightarrow> bool \<Rightarrow> bytes \<Rightarrow> ConnectionID \<Rightarrow> EncryptionLevel \<Rightarrow> mtime \<Rightarrow> FrameParser \<Rightarrow> 'c \<Rightarrow> ('c, 'e) frames_result go" where
  "handleFrames h logging data destConnID encLevel rcvTime p c =
     (let handshakeWasComplete = handshakeComplete h c in
      go_bind (handleFrames_loop h logging encLevel destConnID rcvTime data
        \<lparr>fs_conn = c, frameParser = p, isAckEliciting = False, isNonProbing = False, pathChallenge = None, frames = [],
         handleErr = None, skipHandling = False\<rparr>) (\<lambda>(err, s).
      let result = (\<lambda>r c logged. Inr \<lparr>fr_result = r, fr_conn = c, fr_parser = frameParser s, fr_logged = logged\<rparr>) in
      case err of
        Some e \<Rightarrow> result (Inl e) (fs_conn s) None
      | None \<Rightarrow>
          let logged = (if logging then Some (frames s) else None) in
          if logging \<and> handleErr s \<noteq> None then result (Inl (the (handleErr s))) (fs_conn s) logged
          else
            let ok = Inr (isAckEliciting s, isNonProbing s, pathChallenge s) in
            if \<not> handshakeWasComplete \<and> handshakeComplete h (fs_conn s) then
              (let (c, e) = handled (handleHandshakeComplete h rcvTime (fs_conn s)) in
               result (case e of Some e \<Rightarrow> Inl e | None \<Rightarrow> ok) c logged)
            else result ok (fs_conn s) logged))"

end
