(* ===== verification/FrameProofs.thy ===== *)
theory FrameProofs
  imports HandleFrames
begin

text \<open>
  The frames on the wire.  Every frame the endpoint may send is written as its type followed by its fields, takes exactly
  \<^verbatim>\<open>Length\<close> bytes, and is read back by the frame parser; a packet made of such frames is handled frame by frame in the order
  in which they were written.
\<close>

section \<open>Well-formed frames and their bytes\<close>

definition in62 :: "int \<Rightarrow> bool" where
  "in62 x \<longleftrightarrow> 0 \<le> x \<and> x < 2 ^ 62"

definition len62 :: "bytes \<Rightarrow> bool" where
  "len62 b \<longleftrightarrow> in62 (int (length b))"

fun frame_ok :: "Frame \<Rightarrow> bool" where
  "frame_ok (AckFrame f) = encodable f"
| "frame_ok (ResetStreamFrame f) = (in62 (reset_StreamID f) \<and> fits62 (reset_ErrorCode f) \<and> in62 (reset_FinalSize f) \<and>
     0 \<le> reset_ReliableSize f \<and> reset_ReliableSize f \<le> reset_FinalSize f)"
| "frame_ok (StopSendingFrame f) = (in62 (stop_StreamID f) \<and> fits62 (stop_ErrorCode f))"
| "frame_ok (CryptoFrame f) = (in62 (crypto_Offset f) \<and> len62 (crypto_Data f))"
| "frame_ok (NewTokenFrame f) = (nt_Token f \<noteq> [] \<and> len62 (nt_Token f))"
| "frame_ok (StreamFrame f) = (in62 (stream_StreamID f) \<and> 0 \<le> stream_Offset f \<and> stream_Offset f + DataLen f \<le> MaxByteCount \<and>
     length (stream_Data f) \<le> MaxPacketBufferSize \<and> (stream_Data f \<noteq> [] \<or> stream_Fin f))"
| "frame_ok (MaxDataFrame f) = in62 (maxdata_MaximumData f)"
| "frame_ok (MaxStreamDataFrame f) = (in62 (msd_StreamID f) \<and> in62 (msd_MaximumStreamData f))"
| "frame_ok (MaxStreamsFrame f) = (0 \<le> ms_MaxStreamNum f \<and> ms_MaxStreamNum f \<le> MaxStreamCount)"
| "frame_ok (DataBlockedFrame f) = in62 (db_MaximumData f)"
| "frame_ok (StreamDataBlockedFrame f) = (in62 (sdb_StreamID f) \<and> in62 (sdb_MaximumStreamData f))"
| "frame_ok (StreamsBlockedFrame f) = (0 \<le> sb_StreamLimit f \<and> sb_StreamLimit f \<le> MaxStreamCount)"
| "frame_ok (NewConnectionIDFrame f) = (fits62 (nci_SequenceNumber f) \<and> nci_RetirePriorTo f \<le> nci_SequenceNumber f \<and>
     nci_ConnectionID f \<noteq> [] \<and> length (nci_ConnectionID f) \<le> MaxConnIDLen \<and>
     length (nci_StatelessResetToken f) = StatelessResetTokenLen)"
| "frame_ok (RetireConnectionIDFrame f) = fits62 (rci_SequenceNumber f)"
| "frame_ok (PathChallengeFrame f) = (length (pc_Data f) = 8)"
| "frame_ok (PathResponseFrame f) = (length (pr_Data f) = 8)"
| "frame_ok (ConnectionCloseFrame f) = (fits62 (cc_ErrorCode f) \<and> fits62 (cc_FrameType f) \<and> len62 (cc_ReasonPhrase f) \<and>
     (cc_IsApplicationError f \<longrightarrow> cc_FrameType f = 0))"
| "frame_ok (DatagramFrame f) = len62 (datagram_Data f)"
| "frame_ok (AckFrequencyFrame f) = (fits62 (af_SequenceNumber f) \<and> fits62 (af_AckElicitingThreshold f) \<and>
     0 \<le> af_RequestMaxAckDelay f \<and> af_RequestMaxAckDelay f < 2 ^ 63 \<and> in62 (af_ReorderingThreshold f))"
| "frame_ok _ = True"

definition stream_type :: "StreamFrame \<Rightarrow> FrameType" where
  "stream_type f = 0x8 + (if stream_Fin f then 1 else 0) + (if stream_DataLenPresent f then 2 else 0) + (if stream_Offset f \<noteq> 0 then 4 else 0)"

fun frame_type :: "Frame \<Rightarrow> FrameType" where
  "frame_type PingFrame = FrameTypePing"
| "frame_type (AckFrame f) = (if hasECN f then FrameTypeAckECN else FrameTypeAck)"
| "frame_type (ResetStreamFrame f) = (if reset_ReliableSize f = 0 then FrameTypeResetStream else FrameTypeResetStreamAt)"
| "frame_type (StopSendingFrame f) = FrameTypeStopSending"
| "frame_type (CryptoFrame f) = FrameTypeCrypto"
| "frame_type (NewTokenFrame f) = FrameTypeNewToken"
| "frame_type (StreamFrame f) = stream_type f"
| "frame_type (MaxDataFrame f) = FrameTypeMaxData"
| "frame_type (MaxStreamDataFrame f) = FrameTypeMaxStreamData"
| "frame_type (MaxStreamsFrame f) = (case ms_Type f of StreamTypeBidi \<Rightarrow> FrameTypeBidiMaxStreams | StreamTypeUni \<Rightarrow> FrameTypeUniMaxStreams)"
| "frame_type (DataBlockedFrame f) = FrameTypeDataBlocked"
| "frame_type (StreamDataBlockedFrame f) = FrameTypeStreamDataBlocked"
| "frame_type (StreamsBlockedFrame f) =
     (case sb_Type f of StreamTypeBidi \<Rightarrow> FrameTypeBidiStreamBlocked | StreamTypeUni \<Rightarrow> FrameTypeUniStreamBlocked)"
| "frame_type (NewConnectionIDFrame f) = FrameTypeNewConnectionID"
| "frame_type (RetireConnectionIDFrame f) = FrameTypeRetireConnectionID"
| "frame_type (PathChallengeFrame f) = FrameTypePathChallenge"
| "frame_type (PathResponseFrame f) = FrameTypePathResponse"
| "frame_type (ConnectionCloseFrame f) = (if cc_IsApplicationError f then FrameTypeApplicationClose else FrameTypeConnectionClose)"
| "frame_type HandshakeDoneFrame = FrameTypeHandshakeDone"
| "frame_type (DatagramFrame f) = (if datagram_DataLenPresent f then FrameTypeDatagramWithLength else FrameTypeDatagramNoLength)"
| "frame_type (AckFrequencyFrame f) = FrameTypeAckFrequency"
| "frame_type ImmediateAckFrame = FrameTypeImmediateAck"

definition vint :: "int \<Rightarrow> bytes" where
  "vint x = venc (word_of_int x)"

definition vlen :: "bytes \<Rightarrow> bytes" where
  "vlen b = venc (of_nat (length b))"

fun frame_payload :: "Frame \<Rightarrow> bytes" where
  "frame_payload (AckFrame f) = payload f"
| "frame_payload (ResetStreamFrame f) = vint (reset_StreamID f) @ venc (reset_ErrorCode f) @ vint (reset_FinalSize f) @
     (if reset_ReliableSize f = 0 then [] else vint (reset_ReliableSize f))"
| "frame_payload (StopSendingFrame f) = vint (stop_StreamID f) @ venc (stop_ErrorCode f)"
| "frame_payload (CryptoFrame f) = vint (crypto_Offset f) @ vlen (crypto_Data f) @ crypto_Data f"
| "frame_payload (NewTokenFrame f) = vlen (nt_Token f) @ nt_Token f"
| "frame_payload (StreamFrame f) = vint (stream_StreamID f) @ (if stream_Offset f \<noteq> 0 then vint (stream_Offset f) else []) @
     (if stream_DataLenPresent f then vlen (stream_Data f) else []) @ stream_Data f"
| "frame_payload (MaxDataFrame f) = vint (maxdata_MaximumData f)"
| "frame_payload (MaxStreamDataFrame f) = vint (msd_StreamID f) @ vint (msd_MaximumStreamData f)"
| "frame_payload (MaxStreamsFrame f) = vint (ms_MaxStreamNum f)"
| "frame_payload (DataBlockedFrame f) = vint (db_MaximumData f)"
| "frame_payload (StreamDataBlockedFrame f) = vint (sdb_StreamID f) @ vint (sdb_MaximumStreamData f)"
| "frame_payload (StreamsBlockedFrame f) = vint (sb_StreamLimit f)"
| "frame_payload (NewConnectionIDFrame f) = venc (nci_SequenceNumber f) @ venc (nci_RetirePriorTo f) @
     [of_nat (length (nci_ConnectionID f))] @ nci_ConnectionID f @ nci_StatelessResetToken f"
| "frame_payload (RetireConnectionIDFrame f) = venc (rci_SequenceNumber f)"
| "frame_payload (PathChallengeFrame f) = pc_Data f"
| "frame_payload (PathResponseFrame f) = pr_Data f"
| "frame_payload (ConnectionCloseFrame f) = venc (cc_ErrorCode f) @ (if cc_IsApplicationError f then [] else venc (cc_FrameType f)) @
     vlen (cc_ReasonPhrase f) @ cc_ReasonPhrase f"
| "frame_payload (DatagramFrame f) = (if datagram_DataLenPresent f then vlen (datagram_Data f) else []) @ datagram_Data f"
| "frame_payload (AckFrequencyFrame f) = venc (af_SequenceNumber f) @ venc (af_AckElicitingThreshold f) @
     vint (af_RequestMaxAckDelay f div 1000) @ vint (af_ReorderingThreshold f)"
| "frame_payload _ = []"

definition frame_bytes :: "Frame \<Rightarrow> bytes" where
  "frame_bytes f = venc (frame_type f) @ frame_payload f"

text \<open>A frame without a length field reaches to the end of the packet.\<close>

fun delimited :: "Frame \<Rightarrow> bool" where
  "delimited (StreamFrame f) = stream_DataLenPresent f"
| "delimited (DatagramFrame f) = datagram_DataLenPresent f"
| "delimited _ = True"

text \<open>Delays are rounded down on the wire.\<close>

fun as_received :: "Frame \<Rightarrow> Frame" where
  "as_received (AckFrame f) = AckFrame (on_the_wire f)"
| "as_received (AckFrequencyFrame f) =
     AckFrequencyFrame (f\<lparr>af_RequestMaxAckDelay := af_RequestMaxAckDelay f - af_RequestMaxAckDelay f mod 1000\<rparr>)"
| "as_received f = f"

section \<open>Writing\<close>

lemma fits62_in62 [wire_simps]: "in62 x \<Longrightarrow> fits62 (word_of_int x)"
  by (simp add: in62_def fits62_int)

lemma fits62_len62 [wire_simps]: "len62 b \<Longrightarrow> fits62 (of_nat (length b))"
  using fits62_in62 [of "int (length b)"] by (simp add: len62_def)

lemma fits62_le: "v \<le> w \<Longrightarrow> fits62 w \<Longrightarrow> fits62 v"
  by (simp add: fits62_def)

lemma in62_le: "0 \<le> x \<Longrightarrow> x \<le> y \<Longrightarrow> in62 y \<Longrightarrow> in62 x"
  by (simp add: in62_def)

lemma in62_count: "0 \<le> x \<Longrightarrow> x \<le> MaxStreamCount \<Longrightarrow> in62 x"
  by (simp add: in62_def MaxStreamCount_def)

lemma venc_type: "t \<le> 63 \<Longrightarrow> venc t = [ucast t]"
  by (simp add: venc_def varint_Append_def maxVarInt1_def byte_at_def)

lemma stream_types:
  "stream_type f \<le> 0xf" "0x8 \<le> stream_type f"
  "stream_type f AND 4 > 0 \<longleftrightarrow> stream_Offset f \<noteq> 0" "stream_type f AND 1 > 0 \<longleftrightarrow> stream_Fin f"
  "stream_type f AND 2 > 0 \<longleftrightarrow> stream_DataLenPresent f"
  by (simp_all add: stream_type_def)

lemma stream_type_byte:
  "venc (stream_type f) = [let typ = 0x8; typ = (if stream_Fin f then typ XOR 1 else typ);
     typ = (if stream_DataLenPresent f then typ XOR 2 else typ) in if stream_Offset f \<noteq> 0 then typ XOR 4 else typ]"
  using stream_types(1) [of f] by (subst venc_type) (auto simp: stream_type_def)

lemma in62_DataLen: "frame_ok (StreamFrame f) \<Longrightarrow> len62 (stream_Data f) \<and> in62 (stream_Offset f)"
  by (auto simp: len62_def in62_def DataLen_def MaxByteCount_def MaxPacketBufferSize_def)

lemma single_byte_types:
  "venc FrameTypePing = [1]" "venc FrameTypeAck = [2]" "venc FrameTypeAckECN = [3]" "venc FrameTypeResetStream = [4]"
  "venc FrameTypeStopSending = [5]" "venc FrameTypeCrypto = [6]" "venc FrameTypeNewToken = [7]" "venc FrameTypeMaxData = [0x10]"
  "venc FrameTypeMaxStreamData = [0x11]" "venc FrameTypeBidiMaxStreams = [0x12]" "venc FrameTypeUniMaxStreams = [0x13]"
  "venc FrameTypeDataBlocked = [0x14]" "venc FrameTypeStreamDataBlocked = [0x15]" "venc FrameTypeBidiStreamBlocked = [0x16]"
  "venc FrameTypeUniStreamBlocked = [0x17]" "venc FrameTypeNewConnectionID = [0x18]" "venc FrameTypeRetireConnectionID = [0x19]"
  "venc FrameTypePathChallenge = [0x1a]" "venc FrameTypePathResponse = [0x1b]" "venc FrameTypeConnectionClose = [0x1c]"
  "venc FrameTypeApplicationClose = [0x1d]" "venc FrameTypeHandshakeDone = [0x1e]" "venc FrameTypeResetStreamAt = [0x24]"
  "venc FrameTypeImmediateAck = [0x1f]" "venc FrameTypeDatagramNoLength = [0x30]" "venc FrameTypeDatagramWithLength = [0x31]"
  by (subst venc_type, simp_all add: frame_types)+

lemma fits62_types [simp]: "t \<le> 0xff \<Longrightarrow> fits62 t"
  by (rule fits62_le [of _ "0xff"]) (simp_all add: fits62_uint)

lemma fits62_FrameType [wire_simps]:
  "fits62 FrameTypeImmediateAck" "fits62 FrameTypeAckFrequency" "fits62 FrameTypeResetStream" "fits62 FrameTypeResetStreamAt"
  by (simp_all add: frame_types)

lemma length_AckFrequency: "length (venc FrameTypeAckFrequency) = 2"
  by (simp add: venc_def varint_Append_def maxVarInt1_def maxVarInt2_def frame_types)

lemmas frame_defs = ResetStreamFrame_Append_def StopSendingFrame_Append_def CryptoFrame_Append_def NewTokenFrame_Append_def
  StreamFrame_Append_def MaxDataFrame_Append_def MaxStreamDataFrame_Append_def MaxStreamsFrame_Append_def DataBlockedFrame_Append_def
  StreamDataBlockedFrame_Append_def StreamsBlockedFrame_Append_def NewConnectionIDFrame_Append_def RetireConnectionIDFrame_Append_def
  PathChallengeFrame_Append_def PathResponseFrame_Append_def ConnectionCloseFrame_Append_def HandshakeDoneFrame_Append_def
  DatagramFrame_Append_def AckFrequencyFrame_Append_def ImmediateAckFrame_Append_def PingFrame_Append_def

lemma delay_in62: "0 \<le> d \<Longrightarrow> d < 2 ^ 63 \<Longrightarrow> in62 (d div 1000)"
  by (simp add: in62_def pos_imp_zdiv_nonneg_iff)

lemma Frame_Append_bytes:
  assumes "frame_ok f"
  shows "Frame_Append f b = Inr (Inr (b @ frame_bytes f))"
proof (cases f)
  case (AckFrame a)
  then show ?thesis using assms by (simp add: Append_payload frame_bytes_def single_byte_types)
next
  case (StreamFrame a)
  then show ?thesis using assms in62_DataLen [of a]
    by (simp add: StreamFrame_Append_def frame_bytes_def stream_type_byte Let_def wire_simps vint_def vlen_def DataLen_def)
next
  case (ResetStreamFrame a)
  then show ?thesis using assms in62_le [of "reset_ReliableSize a" "reset_FinalSize a"]
    by (auto simp: ResetStreamFrame_Append_def frame_bytes_def wire_simps vint_def frame_types)
next
  case (AckFrequencyFrame a)
  then show ?thesis using assms delay_in62 [of "af_RequestMaxAckDelay a"]
    by (simp add: AckFrequencyFrame_Append_def frame_bytes_def wire_simps vint_def frame_types go_arith Microsecond_def)
next
  case (NewConnectionIDFrame a)
  then show ?thesis using assms fits62_le [of "nci_RetirePriorTo a" "nci_SequenceNumber a"]
    by (simp add: NewConnectionIDFrame_Append_def frame_bytes_def wire_simps single_byte_types) (simp add: frame_types)
qed (use assms in \<open>simp add: frame_defs frame_bytes_def wire_simps vint_def vlen_def single_byte_types Let_def in62_count
       split: StreamType.splits; simp add: frame_types\<close>)+

lemmas length_defs = ResetStreamFrame_Length_def StopSendingFrame_Length_def CryptoFrame_Length_def NewTokenFrame_Length_def
  StreamFrame_Length_def MaxDataFrame_Length_def MaxStreamDataFrame_Length_def MaxStreamsFrame_Length_def DataBlockedFrame_Length_def
  StreamDataBlockedFrame_Length_def StreamsBlockedFrame_Length_def NewConnectionIDFrame_Length_def RetireConnectionIDFrame_Length_def
  PathChallengeFrame_Length_def PathResponseFrame_Length_def ConnectionCloseFrame_Length_def HandshakeDoneFrame_Length_def
  DatagramFrame_Length_def AckFrequencyFrame_Length_def ImmediateAckFrame_Length_def PingFrame_Length_def

lemma Frame_Length_bytes:
  assumes "frame_ok f"
  shows "Frame_Length f = Inr (int (length (frame_bytes f)))"
proof (cases f)
  case (AckFrame a)
  then show ?thesis using assms by (simp add: Length_payload frame_bytes_def single_byte_types)
next
  case (StreamFrame a)
  then show ?thesis using assms in62_DataLen [of a]
    by (simp add: StreamFrame_Length_def frame_bytes_def stream_type_byte wire_simps vint_def vlen_def DataLen_def)
next
  case (ResetStreamFrame a)
  then show ?thesis using assms in62_le [of "reset_ReliableSize a" "reset_FinalSize a"]
    by (auto simp: ResetStreamFrame_Length_def frame_bytes_def wire_simps vint_def single_byte_types)
next
  case (AckFrequencyFrame a)
  then show ?thesis using assms delay_in62 [of "af_RequestMaxAckDelay a"]
    by (simp add: AckFrequencyFrame_Length_def frame_bytes_def wire_simps vint_def length_AckFrequency go_arith Microsecond_def)
next
  case (NewConnectionIDFrame a)
  then show ?thesis using assms fits62_le [of "nci_RetirePriorTo a" "nci_SequenceNumber a"]
    by (simp add: NewConnectionIDFrame_Length_def frame_bytes_def wire_simps single_byte_types StatelessResetTokenLen_def)
qed (use assms in \<open>simp add: length_defs frame_bytes_def wire_simps vint_def vlen_def single_byte_types Let_def in62_count
       split: StreamType.splits\<close>)+

section \<open>Parsing what was written\<close>

lemma sint_in62 [simp]: "in62 x \<Longrightarrow> sint (word_of_int x :: u64) = x"
  by (simp add: in62_def)

lemma uint_in62: "in62 x \<Longrightarrow> uint (word_of_int x :: u64) = x"
  by (simp add: in62_def uint_word_of_int take_bit_int_eq_self)

lemma word_zero_in62 [simp]: "in62 x \<Longrightarrow> (word_of_int x :: u64) = 0 \<longleftrightarrow> x = 0"
  using sint_in62 [of x] by (auto simp del: sint_in62)

lemma len62_append: "len62 (a @ b) \<Longrightarrow> len62 a \<and> len62 b"
  by (simp add: len62_def in62_def)

lemma unat_len62 [simp]: "len62 b \<Longrightarrow> unat (of_nat (length b) :: u64) = length b"
  by (simp add: len62_def in62_def unat_of_nat take_bit_nat_eq_self)

lemma len62_le [simp]:
  assumes "len62 (d @ rest)"
  shows "\<not> (of_nat (length d) + of_nat (length rest) :: u64) < of_nat (length d)"
  using unat_len62 [OF assms] unat_len62 [of d] len62_append [OF assms]
  by (simp add: word_less_nat_alt del: unat_len62)

lemma sint_len62: "len62 b \<Longrightarrow> sint (of_nat (length b) :: u64) = int (length b)"
  using sint_in62 [of "int (length b)"] by (simp add: len62_def)

lemma len62_zero: "len62 b \<Longrightarrow> (of_nat (length b) :: u64) = 0 \<longleftrightarrow> b = []"
  using unat_len62 [of b] by (auto simp del: unat_len62)

lemmas parse_defs = parseResetStreamFrame_def parseStopSendingFrame_def parseCryptoFrame_def parseNewTokenFrame_def
  parseMaxDataFrame_def parseMaxStreamDataFrame_def parseMaxStreamsFrame_def parseDataBlockedFrame_def
  parseStreamDataBlockedFrame_def parseStreamsBlockedFrame_def parseNewConnectionIDFrame_def parseRetireConnectionIDFrame_def
  parsePathChallengeFrame_def parsePathResponseFrame_def parseConnectionCloseFrame_def parseAckFrequencyFrame_def

text \<open>The frames that \<^verbatim>\<open>ParseLessCommonFrame\<close> parses.\<close>

fun less_common :: "Frame \<Rightarrow> bool" where
  "less_common (StreamFrame f) = False"
| "less_common (AckFrame f) = False"
| "less_common (DatagramFrame f) = False"
| "less_common _ = True"

lemma delay_round:
  assumes "0 \<le> d" "d < 2 ^ 63"
  shows "i64 (d div 1000 * 1000) = d - d mod 1000" "0 \<le> d - d mod 1000"
proof -
  have "d div 1000 * 1000 = d - d mod 1000" by (simp add: minus_mod_eq_div_mult)
  moreover have "0 \<le> d - d mod 1000" "d - d mod 1000 \<le> d"
    using assms by (simp_all add: zmod_le_nonneg_dividend)
  ultimately show "i64 (d div 1000 * 1000) = d - d mod 1000" "0 \<le> d - d mod 1000"
    using assms by (simp_all add: i64_id is_i64_def)
qed

lemma ParseLessCommonFrame_bytes:
  assumes "frame_ok f" "less_common f" "len62 (frame_payload f @ rest)"
  shows "ParseLessCommonFrame (frame_type f) (frame_payload f @ rest) = Inr (Inr (as_received f, length (frame_payload f)))"
proof (cases f)
  case (CryptoFrame a)
  then have "len62 (crypto_Data a @ rest)" using assms(3) by (auto dest!: len62_append)
  then show ?thesis using assms CryptoFrame
    by (simp add: parse_defs ParseLessCommonFrame_def frame_of_def as_transport_def wire_simps vint_def vlen_def Let_def frame_types)
next
  case (NewTokenFrame a)
  then have "len62 (nt_Token a @ rest)" using assms(3) by (auto dest!: len62_append)
  then show ?thesis using assms NewTokenFrame
    by (simp add: parse_defs ParseLessCommonFrame_def frame_of_def as_transport_def wire_simps vlen_def Let_def frame_types len62_zero)
next
  case (ConnectionCloseFrame a)
  then show ?thesis using assms
    by (auto simp: parse_defs ParseLessCommonFrame_def frame_of_def as_transport_def wire_simps vlen_def Let_def frame_types sint_len62)
next
  case (ResetStreamFrame a)
  then have "in62 (reset_ReliableSize a)" using assms in62_le by auto
  then show ?thesis using assms ResetStreamFrame
    by (auto simp: parse_defs ParseLessCommonFrame_def frame_of_def as_transport_def wire_simps vint_def Let_def frame_types
      word_less_def uint_in62)
next
  case (AckFrequencyFrame a)
  then show ?thesis using assms delay_in62 [of "af_RequestMaxAckDelay a"] delay_round [of "af_RequestMaxAckDelay a"]
    by (simp add: parse_defs ParseLessCommonFrame_def frame_of_def as_transport_def wire_simps vint_def Let_def frame_types
      Microsecond_def)
next
  case (NewConnectionIDFrame a)
  have "unat (of_nat (length (nci_ConnectionID a)) :: u8) = length (nci_ConnectionID a)"
    using assms NewConnectionIDFrame by (simp add: unat_of_nat take_bit_nat_eq_self MaxConnIDLen_def)
  then show ?thesis using assms NewConnectionIDFrame fits62_le [of "nci_RetirePriorTo a" "nci_SequenceNumber a"]
    by (simp add: parse_defs ParseLessCommonFrame_def frame_of_def as_transport_def wire_simps Let_def frame_types ParseConnectionID_def
      MaxConnIDLen_def flip: not_le)
qed (use assms in \<open>simp add: parse_defs ParseLessCommonFrame_def frame_of_def as_transport_def wire_simps vint_def Let_def in62_count
       frame_types split: StreamType.splits\<close>)+

lemma buffer_bound: "length b \<le> MaxPacketBufferSize \<Longrightarrow> \<not> (of_nat MaxPacketBufferSize :: u64) < of_nat (length b)"
  by (simp add: word_less_nat_alt unat_of_nat take_bit_nat_eq_self MaxPacketBufferSize_def)

lemma ParseStreamFrame_bytes:
  assumes ok: "frame_ok (StreamFrame f)" and len: "len62 (frame_payload (StreamFrame f) @ rest)"
    and d: "stream_DataLenPresent f \<or> rest = []"
  shows "parser_ParseStreamFrame (stream_type f) (frame_payload (StreamFrame f) @ rest) = Inr (f, length (frame_payload (StreamFrame f)))"
proof -
  have off: "in62 (stream_Offset f)" "len62 (stream_Data f)" using in62_DataLen [OF ok] by simp_all
  have data: "len62 (stream_Data f @ rest)"
    using len by (auto dest!: len62_append split: if_splits)
  have max: "i64 (stream_Offset f + DataLen f) \<le> MaxByteCount" "\<not> of_nat MaxPacketBufferSize < (of_nat (length (stream_Data f)) :: u64)"
    using ok by (simp_all add: buffer_bound) (simp add: i64_id is_i64_def MaxByteCount_def DataLen_def)
  show ?thesis
    using ok off data d max
    by (auto simp: parser_ParseStreamFrame_def ParseStreamFrame_def as_transport_def stream_types wire_simps vint_def vlen_def Let_def
      DataLen_def)
qed

lemma ParseDatagramFrame_bytes:
  assumes ok: "frame_ok (DatagramFrame f)" and len: "len62 (frame_payload (DatagramFrame f) @ rest)"
    and d: "datagram_DataLenPresent f \<or> rest = []"
  shows "ParseDatagramFrame (frame_type (DatagramFrame f)) (frame_payload (DatagramFrame f) @ rest) =
    Inr (f, length (frame_payload (DatagramFrame f)))"
proof -
  have "len62 (datagram_Data f @ rest)" using len by (auto dest!: len62_append split: if_splits)
  then show ?thesis
    using ok d
    by (auto simp: ParseDatagramFrame_def parseDatagramFrame_def as_transport_def frame_types wire_simps vlen_def Let_def)
qed

text \<open>The peer decodes the delay with the exponent that was used to encode it.\<close>

definition parser_for :: "FrameParser \<Rightarrow> EncryptionLevel \<Rightarrow> bool" where
  "parser_for p encLevel \<longleftrightarrow> (encLevel = Encryption1RTT \<longrightarrow> unat (ackDelayExponent p) = AckDelayExponent)"

lemma ParseAckFrame_bytes:
  assumes "encodable f" "parser_for p encLevel"
  shows "ParseAckFrame p (frame_type (AckFrame f)) (payload f @ rest) encLevel =
    (Inr (on_the_wire f, length (payload f)), p\<lparr>ackFrame := on_the_wire f\<rparr>)"
proof -
  have r: "AckFrame_Reset g = new_AckFrame" for g
    by (cases g) (simp add: AckFrame_Reset_def new_AckFrame_def)
  have e: "(if encLevel \<noteq> Encryption1RTT then AckDelayExponent else unat (ackDelayExponent p)) = AckDelayExponent"
    using assms(2) by (simp add: parser_for_def)
  have t: "(frame_type (AckFrame f) = FrameTypeAckECN) = hasECN f"
    by (simp add: frame_types)
  show ?thesis
    unfolding ParseAckFrame_def r e t Let_def by (simp add: parse_payload [OF assms(1)])
qed

section \<open>One frame of a packet\<close>

definition accepts :: "FrameParser \<Rightarrow> EncryptionLevel \<Rightarrow> Frame \<Rightarrow> bool" where
  "accepts p encLevel f \<longleftrightarrow> type_valid p (frame_type f) \<and> isAllowedAtEncLevel (frame_type f) encLevel \<and> parser_for p encLevel"

lemma accepts_ackFrame [simp]: "accepts (p\<lparr>ackFrame := a\<rparr>) encLevel f = accepts p encLevel f"
  by (simp add: accepts_def type_valid_def parser_for_def)

lemma stream_type_nonzero: "stream_type f \<noteq> 0" "stream_type f \<le> 0xff"
  by (auto simp: stream_type_def)

lemma frame_type_range: "frame_type f \<noteq> 0 \<and> frame_type f \<le> 0xff"
  by (cases f) (simp_all add: stream_type_nonzero frame_types split: StreamType.splits)

lemma varint_Parse_venc: "fits62 v \<Longrightarrow> varint_Parse (venc v @ rest) = Inr (v, length (venc v))"
  using Append_venc [of v "[]"] by (intro Parse_Append) (simp_all add: fits62_def)

lemma venc_0: "venc 0 = [0]"
  by (simp add: venc_type)

lemma ParseType_loop_padding:
  "ParseType_loop p encLevel k (replicate n 0 @ b) = ParseType_loop p encLevel (k + n) b"
proof (induction n arbitrary: k)
  case (Suc n)
  have "varint_Parse (0 # replicate n 0 @ b) = Inr (0, 1)"
    using varint_Parse_venc [of 0 "replicate n 0 @ b"] by (simp add: venc_0)
  with Suc [of "Suc k"] show ?case by (simp add: ParseType_loop.simps [of _ _ k])
qed simp

lemma ParseType_bytes:
  assumes "accepts p encLevel f"
  shows "ParseType p (replicate n 0 @ frame_bytes f @ rest) encLevel = (Inr (frame_type f), n + length (venc (frame_type f)))"
proof -
  have t: "fits62 (frame_type f)" "frame_type f \<noteq> 0"
    using frame_type_range [of f] by simp_all
  have ne: "venc (frame_type f) \<noteq> []" using length_venc(1) [of "frame_type f"] t(1) by auto
  show ?thesis
    using assms t ne varint_Parse_venc [OF t(1), of "frame_payload f @ rest"]
    by (simp add: ParseType_def ParseType_loop_padding frame_bytes_def ParseType_loop.simps [of _ _ _ "venc _ @ _"] accepts_def)
qed

lemma ParseType_end: "ParseType p (replicate n 0) encLevel = (Inl IoEOF, n)"
  using ParseType_loop_padding [of p encLevel 0 n "[]"]
  by (simp add: ParseType_def ParseType_loop.simps [of _ _ _ "[]"])

text \<open>The call that handles a frame, by the kind of the frame.\<close>

fun call_of :: "('c, 'e) ConnOps \<Rightarrow> EncryptionLevel \<Rightarrow> ConnectionID \<Rightarrow> mtime \<Rightarrow> Frame \<Rightarrow> ('c, 'e) frame_call" where
  "call_of h encLevel destConnID rcvTime (StreamFrame f) = (\<lambda>c. (None, handled (HandleStreamFrame h f rcvTime c)))"
| "call_of h encLevel destConnID rcvTime (AckFrame f) = (\<lambda>c. (None, handled (handleAckFrame h f encLevel rcvTime c)))"
| "call_of h encLevel destConnID rcvTime (DatagramFrame f) = (\<lambda>c. (None, handled (handleDatagramFrame h f c)))"
| "call_of h encLevel destConnID rcvTime f = handleFrame h f encLevel destConnID rcvTime"

lemma call_of_less_common: "less_common f \<Longrightarrow> call_of h encLevel destConnID rcvTime f = handleFrame h f encLevel destConnID rcvTime"
  by (cases f) simp_all

lemma less_common_type:
  "less_common f \<Longrightarrow> \<not> IsStreamFrameType (frame_type f) \<and> \<not> IsAckFrameType (frame_type f) \<and> \<not> IsDatagramFrameType (frame_type f)"
  by (cases f) (auto simp: frame_types word_le_nat_alt split: StreamType.splits)

lemma less_common_as_received [simp]: "less_common (as_received f) = less_common f"
  by (cases f) simp_all

fun parser_after :: "FrameParser \<Rightarrow> Frame \<Rightarrow> FrameParser" where
  "parser_after p (AckFrame f) = p\<lparr>ackFrame := on_the_wire f\<rparr>"
| "parser_after p _ = p"

lemma next_frame_bytes:
  assumes ok: "frame_ok f" "accepts p encLevel f" "len62 (frame_payload f @ rest)" "delimited f \<or> rest = []"
  shows "next_frame h encLevel destConnID rcvTime p (frame_type f) (frame_payload f @ rest) =
    Inr (Inr (as_received f, length (frame_payload f), call_of h encLevel destConnID rcvTime (as_received f)), parser_after p f)"
proof (cases "less_common f")
  case True
  then have "parser_after p f = p" by (cases f) simp_all
  with True show ?thesis
    using less_common_type [OF True] ParseLessCommonFrame_bytes [OF ok(1) True ok(3)]
    by (simp add: next_frame_def call_of_less_common)
next
  case False
  then consider a where "f = StreamFrame a" | a where "f = AckFrame a" | a where "f = DatagramFrame a"
    by (cases f) simp_all
  then show ?thesis
  proof cases
    case 1
    then show ?thesis using ok stream_types(1,2) [of a] ParseStreamFrame_bytes [of a rest]
      by (simp add: next_frame_def IsStreamFrameType_def)
  next
    case 2
    have "\<not> IsStreamFrameType (frame_type f)" "IsAckFrameType (frame_type f)" using 2 by (simp_all add: frame_types)
    then show ?thesis using ok 2 ParseAckFrame_bytes [of a p encLevel rest]
      by (simp add: next_frame_def accepts_def)
  next
    case 3
    have "\<not> IsStreamFrameType (frame_type f)" "\<not> IsAckFrameType (frame_type f)" "IsDatagramFrameType (frame_type f)"
      using 3 by (simp_all add: frame_types)
    then show ?thesis using ok 3 ParseDatagramFrame_bytes [of a rest] by (simp add: next_frame_def)
  qed
qed

section \<open>The frames of a packet\<close>

text \<open>A packet: frames, each after some PADDING frames, and PADDING frames at the end.\<close>

fun packet :: "(nat \<times> Frame) list \<Rightarrow> nat \<Rightarrow> bytes" where
  "packet [] m = replicate m 0"
| "packet ((n, f) # ps) m = replicate n 0 @ frame_bytes f @ packet ps m"

fun packet_ok :: "FrameParser \<Rightarrow> EncryptionLevel \<Rightarrow> (nat \<times> Frame) list \<Rightarrow> nat \<Rightarrow> bool" where
  "packet_ok p encLevel [] m = True"
| "packet_ok p encLevel ((n, f) # ps) m =
     (frame_ok f \<and> accepts p encLevel f \<and> (delimited f \<or> packet ps m = []) \<and> packet_ok p encLevel ps m)"

text \<open>What the loop does, on frames instead of bytes.\<close>

fun process :: "(Frame \<Rightarrow> ('c, 'e) frame_call) \<Rightarrow> bool \<Rightarrow> Frame list \<Rightarrow> ('c, 'e) frames_state \<Rightarrow> 'e conn_error option \<times> ('c, 'e) frames_state" where
  "process call logging [] s = (None, s)"
| "process call logging (f # fs) s =
     (let s = log_frame logging (as_received f) ((note_type (frame_type f) s)\<lparr>frameParser := parser_after (frameParser s) f\<rparr>) in
      if skipHandling s then process call logging fs s
      else
        let s = call_handler (call (as_received f)) s in
        if handleErr s \<noteq> None then
          (let s = s\<lparr>skipHandling := True\<rparr> in
           if \<not> logging then (handleErr s, s) else process call logging fs s)
        else process call logging fs s)"

lemma packet_ok_parser [simp]: "packet_ok (parser_after p f) encLevel ps m = packet_ok p encLevel ps m"
proof (cases f)
  case (AckFrame a)
  then show ?thesis by (induction ps) auto
qed simp_all

lemma state_parser [simp]:
  "frameParser (note_type t s) = frameParser s" "frameParser (log_frame logging f s) = frameParser s"
  "frameParser (call_handler h s) = frameParser s" "skipHandling (note_type t s) = skipHandling s"
  "skipHandling (log_frame logging f s) = skipHandling s" "skipHandling (call_handler h s) = skipHandling s"
  by (simp_all add: note_type_def log_frame_def call_handler_def split: prod.split)

lemma handleFrames_loop_packet:
  assumes "packet_ok (frameParser s) encLevel ps m" "len62 (packet ps m)"
  shows "handleFrames_loop h logging encLevel destConnID rcvTime (packet ps m) s =
    Inr (process (call_of h encLevel destConnID rcvTime) logging (map snd ps) s)"
  using assms
proof (induction ps arbitrary: s logging)
  case Nil
  then show ?case by (simp add: handleFrames_loop.simps [of _ _ _ _ _ "replicate m 0"] ParseType_end)
next
  case (Cons a ps)
  obtain n f where a: "a = (n, f)" by (cases a)
  let ?s = "log_frame logging (as_received f) ((note_type (frame_type f) s)\<lparr>frameParser := parser_after (frameParser s) f\<rparr>)"
  have ok: "frame_ok f" "accepts (frameParser s) encLevel f" "delimited f \<or> packet ps m = []"
    "packet_ok (frameParser s) encLevel ps m" "len62 (packet ps m)" "len62 (frame_payload f @ packet ps m)"
    using Cons.prems by (auto simp: a frame_bytes_def dest!: len62_append)
  have ne: "packet (a # ps) m \<noteq> []"
    using frame_type_range [of f] length_venc(1) [of "frame_type f"] by (auto simp: a frame_bytes_def)
  have d: "advance (packet (a # ps) m) (n + length (venc (frame_type f))) = Inr (frame_payload f @ packet ps m)"
    by (simp add: a frame_bytes_def advance_def)
  have t: "ParseType (frameParser s) (packet (a # ps) m) encLevel = (Inr (frame_type f), n + length (venc (frame_type f)))"
    using ParseType_bytes [OF ok(2), of n "packet ps m"] by (simp add: a)
  have sa: "snd a = f" by (simp add: a)
  note IH = Cons.IH [OF _ ok(5)]
  show ?case
    unfolding handleFrames_loop.simps [of _ _ _ _ _ "packet (a # ps) m"]
    using ne ok(4) sa by (simp add: t d next_frame_bytes [OF ok(1,2,6,3)] advance_def [of "_ @ _"] Let_def IH)
qed

text \<open>Handling the frames one after the other, up to the first error.\<close>

fun run_frames :: "(Frame \<Rightarrow> ('c, 'e) frame_call) \<Rightarrow> Frame list \<Rightarrow> 'c \<Rightarrow> 'c \<times> 'e conn_error option" where
  "run_frames call [] c = (c, None)"
| "run_frames call (f # fs) c =
     (case call f c of (_, c, Some e) \<Rightarrow> (c, Some e) | (_, c, None) \<Rightarrow> run_frames call fs c)"

definition challenge_of :: "Frame \<Rightarrow> PathChallengeFrame option" where
  "challenge_of f = (case f of PathChallengeFrame a \<Rightarrow> Some a | _ \<Rightarrow> None)"

fun last_challenge :: "PathChallengeFrame option \<Rightarrow> Frame list \<Rightarrow> PathChallengeFrame option" where
  "last_challenge pc [] = pc"
| "last_challenge pc (f # fs) = last_challenge (if challenge_of f \<noteq> None then challenge_of f else pc) fs"

lemma call_of_challenge: "fst (call_of h encLevel destConnID rcvTime f c) = challenge_of f"
  by (cases f) (simp_all add: challenge_of_def)

lemma frame_type_eliciting: "IsFrameTypeAckEliciting (frame_type f) = IsFrameAckEliciting f"
  using stream_types(2) [of "case f of StreamFrame a \<Rightarrow> a | _ \<Rightarrow> undefined"]
  by (cases f) (auto simp: frame_types stream_type_def split: StreamType.splits)

lemma frame_type_probing: "IsProbingFrameType (frame_type f) = IsProbingFrame f"
  by (cases f) (auto simp: frame_types stream_type_def split: StreamType.splits)

lemma process_skip:
  "skipHandling s \<Longrightarrow> \<exists>s'. process call logging fs s = (None, s') \<and> fs_conn s' = fs_conn s \<and> handleErr s' = handleErr s \<and>
     frames s' = (if logging then frames s @ map as_received fs else frames s)"
proof (induction fs arbitrary: s)
  case (Cons f fs)
  from Cons.IH [of "log_frame logging (as_received f) ((note_type (frame_type f) s)\<lparr>frameParser := parser_after (frameParser s) f\<rparr>)"]
    Cons.prems show ?case
    by (auto simp: Let_def log_frame_def note_type_def)
qed simp

lemma process_run:
  assumes "\<not> skipHandling s" "handleErr s = None" and pc: "\<And>f c. fst (call f c) = challenge_of f"
  shows "\<exists>s'. case run_frames call (map as_received fs) (fs_conn s) of
      (c, None) \<Rightarrow> process call logging fs s = (None, s') \<and> fs_conn s' = c \<and> handleErr s' = None \<and>
        isAckEliciting s' = (isAckEliciting s \<or> list_ex IsFrameAckEliciting fs) \<and>
        isNonProbing s' = (isNonProbing s \<or> \<not> list_all IsProbingFrame fs) \<and>
        pathChallenge s' = last_challenge (pathChallenge s) (map as_received fs) \<and>
        frames s' = (if logging then frames s @ map as_received fs else frames s)
    | (c, Some e) \<Rightarrow> process call logging fs s = (if logging then None else Some e, s') \<and> fs_conn s' = c \<and> handleErr s' = Some e \<and>
        (logging \<longrightarrow> frames s' = frames s @ map as_received fs)"
  using assms(1,2)
proof (induction fs arbitrary: s)
  case (Cons f fs)
  define t where "t = log_frame logging (as_received f) ((note_type (frame_type f) s)\<lparr>frameParser := parser_after (frameParser s) f\<rparr>)"
  obtain q c e where call: "call (as_received f) (fs_conn s) = (q, c, e)" by (cases "call (as_received f) (fs_conn s)")
  have t: "fs_conn t = fs_conn s" "\<not> skipHandling t" "frames t = (if logging then frames s @ [as_received f] else frames s)"
    "isAckEliciting t = (isAckEliciting s \<or> IsFrameAckEliciting f)" "isNonProbing t = (isNonProbing s \<or> \<not> IsProbingFrame f)"
    "pathChallenge t = pathChallenge s"
    using Cons.prems by (simp_all add: t_def log_frame_def note_type_def frame_type_eliciting frame_type_probing)
  define u where "u = call_handler (call (as_received f)) t"
  have q: "q = challenge_of (as_received f)" using pc [of "as_received f" "fs_conn s"] call by simp
  have u: "u = t\<lparr>fs_conn := c, pathChallenge := (if q \<noteq> None then q else pathChallenge s), handleErr := e\<rparr>"
    by (simp add: u_def call_handler_def t call)
  then have he: "handleErr u = e" by simp
  have step: "process call logging (f # fs) s =
      (if e \<noteq> None then (if \<not> logging then (e, u\<lparr>skipHandling := True\<rparr>) else process call logging fs (u\<lparr>skipHandling := True\<rparr>))
       else process call logging fs u)"
    using t(2) he by (simp add: Let_def t_def [symmetric] u_def [symmetric])
  show ?case
  proof (cases e)
    case None
    from Cons.IH [of u] None t(2) show ?thesis
      unfolding step by (auto simp: call u t q None split: prod.splits option.splits)
  next
    case (Some x)
    from process_skip [of "u\<lparr>skipHandling := True\<rparr>" call logging fs] Some show ?thesis
      unfolding step by (auto simp: call u t)
  qed
qed simp

text \<open>What the connection should do with the frames \<open>fs\<close> of a packet: its result and its state afterwards.\<close>

definition frames_spec ::
  "('c, 'e) ConnOps \<Rightarrow> EncryptionLevel \<Rightarrow> ConnectionID \<Rightarrow> mtime \<Rightarrow> Frame list \<Rightarrow> 'c \<Rightarrow>
   ('e conn_error + (bool \<times> bool \<times> PathChallengeFrame option)) \<times> 'c" where
  "frames_spec h encLevel destConnID rcvTime fs c =
     (case run_frames (call_of h encLevel destConnID rcvTime) fs c of
        (c', Some e) \<Rightarrow> (Inl e, c')
      | (c', None) \<Rightarrow>
          let ok = Inr (list_ex IsFrameAckEliciting fs, \<not> list_all IsProbingFrame fs, last_challenge None fs) in
          if \<not> handshakeComplete h c \<and> handshakeComplete h c' then
            (case handleHandshakeComplete h rcvTime c' of (c'', Some e) \<Rightarrow> (Inl (HandlerError e), c'') | (c'', None) \<Rightarrow> (ok, c''))
          else (ok, c'))"

lemma as_received_flags [simp]:
  "IsFrameAckEliciting (as_received f) = IsFrameAckEliciting f" "IsProbingFrame (as_received f) = IsProbingFrame f"
  by (cases f; simp)+

lemma handleFrames_packet:
  assumes "packet_ok p encLevel ps m" "len62 (packet ps m)"
  shows "\<exists>r. handleFrames h logging (packet ps m) destConnID encLevel rcvTime p c = Inr r \<and>
    (fr_result r, fr_conn r) = frames_spec h encLevel destConnID rcvTime (map (as_received \<circ> snd) ps) c \<and>
    (logging \<longrightarrow> fr_logged r = Some (map (as_received \<circ> snd) ps))"
proof -
  let ?call = "call_of h encLevel destConnID rcvTime" and ?fs = "map snd ps"
  define s where "s = \<lparr>fs_conn = c, frameParser = p, isAckEliciting = False, isNonProbing = False, pathChallenge = None, frames = [],
         handleErr = None :: 'b conn_error option, skipHandling = False\<rparr>"
  have s0: "\<not> skipHandling s" "handleErr s = None" "fs_conn s = c" "frames s = []" "isAckEliciting s = False"
    "isNonProbing s = False" "pathChallenge s = None"
    by (simp_all add: s_def)
  have loop: "handleFrames_loop h logging encLevel destConnID rcvTime (packet ps m) s = Inr (process ?call logging ?fs s)"
    using assms by (intro handleFrames_loop_packet) (simp_all add: s_def)
  have flags: "list_ex IsFrameAckEliciting (map as_received ?fs) = list_ex IsFrameAckEliciting ?fs"
    "list_all IsProbingFrame (map as_received ?fs) = list_all IsProbingFrame ?fs"
    by (simp_all add: list_ex_iff list_all_iff)
  have fs: "map (as_received \<circ> snd) ps = map as_received ?fs" by simp
  obtain c' e where run: "run_frames ?call (map as_received ?fs) c = (c', e)" by (cases "run_frames ?call (map as_received ?fs) c")
  obtain s' where s': "case (c', e) of
      (c, None) \<Rightarrow> process ?call logging ?fs s = (None, s') \<and> fs_conn s' = c \<and> handleErr s' = None \<and>
        isAckEliciting s' = list_ex IsFrameAckEliciting ?fs \<and> isNonProbing s' = (\<not> list_all IsProbingFrame ?fs) \<and>
        pathChallenge s' = last_challenge None (map as_received ?fs) \<and> frames s' = (if logging then map as_received ?fs else [])
    | (c, Some e) \<Rightarrow> process ?call logging ?fs s = (if logging then None else Some e, s') \<and> fs_conn s' = c \<and> handleErr s' = Some e \<and>
        (logging \<longrightarrow> frames s' = map as_received ?fs)"
    using process_run [where call = ?call and fs = ?fs and logging = logging, OF s0(1,2) call_of_challenge, unfolded s0(3) run]
    by (simp only: s0(4-) simp_thms append_Nil) blast
  show ?thesis
  proof (cases e)
    case None
    then show ?thesis
      using s' unfolding handleFrames_def s_def [symmetric] loop frames_spec_def flags fs run
      by (auto simp: handled_def Let_def split: prod.split option.split)
  next
    case (Some x)
    then show ?thesis
      using s' unfolding handleFrames_def s_def [symmetric] loop frames_spec_def flags fs run
      by (auto simp: Let_def)
  qed
qed

section \<open>Properties\<close>

text \<open>
  Property C39.  Every well-formed frame is written as its type and its fields, takes exactly \<^verbatim>\<open>Length\<close> bytes, and is
  read back from a packet by a parser that supports it, behind any amount of padding and before anything that follows: \<^verbatim>\<open>ParseType\<close>
  finds the type, the branch of \<^verbatim>\<open>handleFrames\<close> for that type returns the frame, with its delay rounded down if it has one, and the
  call of its handler, and the bytes read are the padding and the frame.
\<close>

theorem frame_roundtrip:
  assumes "frame_ok f" "accepts p encLevel f" "len62 (frame_bytes f @ rest)" "delimited f \<or> rest = []"
  shows "Frame_Append f raw = Inr (Inr (raw @ frame_bytes f)) \<and> Frame_Length f = Inr (int (length (frame_bytes f))) \<and>
    (\<exists>l l' p'. ParseType p (replicate n 0 @ frame_bytes f @ rest) encLevel = (Inr (frame_type f), l) \<and>
       next_frame h encLevel destConnID rcvTime p (frame_type f) (drop l (replicate n 0 @ frame_bytes f @ rest)) =
         Inr (Inr (as_received f, l', call_of h encLevel destConnID rcvTime (as_received f)), p') \<and> l + l' = n + length (frame_bytes f))"
proof -
  have len: "len62 (frame_payload f @ rest)" using assms(3) by (auto simp: frame_bytes_def dest!: len62_append)
  show ?thesis
    using Frame_Append_bytes [OF assms(1)] Frame_Length_bytes [OF assms(1)] ParseType_bytes [OF assms(2), of n rest]
      next_frame_bytes [OF assms(1,2) len assms(4), of h destConnID rcvTime]
    by (simp add: frame_bytes_def)
qed

text \<open>A connection whose state is the list of the frames it was given.\<close>

definition trace_ops :: "(Frame list, unit) ConnOps" where
  "trace_ops = \<lparr>HandleStreamFrame = \<lambda>f t c. (c @ [StreamFrame f], None), handleAckFrame = \<lambda>f e t c. (c @ [AckFrame f], None),
     handleDatagramFrame = \<lambda>f c. (c @ [DatagramFrame f], None), handleCryptoFrame = \<lambda>f e t c. (c @ [CryptoFrame f], None),
     HandleResetStreamFrame = \<lambda>f t c. (c @ [ResetStreamFrame f], None),
     UpdateSendWindow = \<lambda>n c. c @ [MaxDataFrame \<lparr>maxdata_MaximumData = n\<rparr>],
     HandleMaxStreamDataFrame = \<lambda>f c. (c @ [MaxStreamDataFrame f], None), HandleMaxStreamsFrame = \<lambda>f c. c @ [MaxStreamsFrame f],
     HandleStreamDataBlockedFrame = \<lambda>f c. (c @ [StreamDataBlockedFrame f], None),
     HandleStopSendingFrame = \<lambda>f c. (c @ [StopSendingFrame f], None), handlePathChallengeFrame = \<lambda>f c. c @ [PathChallengeFrame f],
     handlePathResponseFrame = \<lambda>f c. (c @ [PathResponseFrame f], None), handleNewTokenFrame = \<lambda>f c. (c @ [NewTokenFrame f], None),
     connIDManager_Add = \<lambda>f c. (c @ [NewConnectionIDFrame f], None),
     connIDGenerator_Retire = \<lambda>n d t c. (c @ [RetireConnectionIDFrame \<lparr>rci_SequenceNumber = n\<rparr>], None),
     handleHandshakeDoneFrame = \<lambda>t c. (c @ [HandshakeDoneFrame], None), handleHandshakeComplete = \<lambda>t c. (c, None),
     handshakeComplete = \<lambda>c. True, conn_rttStats = \<lambda>c. NewRTTStats\<rparr>"

definition parser_example :: FrameParser where
  "parser_example = SetAckDelayExponent (NewFrameParser True True True) 3"

definition stream_example :: StreamFrame where
  "stream_example = \<lparr>stream_StreamID = 4, stream_Offset = 300, stream_Data = [1, 2, 3], stream_Fin = False, stream_DataLenPresent = True\<rparr>"

lemma stream_example_ok:
  "frame_ok (StreamFrame stream_example)" "accepts parser_example Encryption1RTT (StreamFrame stream_example)"
  "frame_bytes (StreamFrame stream_example) = [14, 4, 65, 44, 3, 1, 2, 3]"
  by code_simp+

theorem frame_roundtrip_witness:
  "Frame_Append (StreamFrame stream_example) [] = Inr (Inr [14, 4, 65, 44, 3, 1, 2, 3]) \<and>
   (\<exists>l l' p'. next_frame trace_ops Encryption1RTT [] 0 parser_example 14 (drop l [0, 0, 14, 4, 65, 44, 3, 1, 2, 3, 9]) =
      Inr (Inr (StreamFrame stream_example, l', call_of trace_ops Encryption1RTT [] 0 (StreamFrame stream_example)), p') \<and> l + l' = 10)"
proof -
  have "frame_type (StreamFrame stream_example) = 14" "stream_DataLenPresent stream_example" "replicate 2 (0 :: u8) = [0, 0]"
    by code_simp+
  then show ?thesis
    using frame_roundtrip [OF stream_example_ok(1,2), of "[9]" "[]" 2 trace_ops "[]" 0]
    by (auto simp: stream_example_ok(3) len62_def in62_def)
qed

end
