(* ===== verification/FrameSplit.thy ===== *)
theory FrameSplit
  imports FrameProofs
begin

text \<open>
  The splitting of STREAM frames: a frame that does not fit is split without losing, moving or reordering a byte, and the
  frame split off is as large as possible.
\<close>

section \<open>Splitting STREAM frames\<close>

definition header_size :: "StreamFrame \<Rightarrow> nat" where
  "header_size f = 1 + length (vint (stream_StreamID f)) + (if stream_Offset f \<noteq> 0 then length (vint (stream_Offset f)) else 0)"

definition len_size :: "StreamFrame \<Rightarrow> int \<Rightarrow> int" where
  "len_size f n = (if stream_DataLenPresent f then if n \<le> 63 then 1 else 2 else 0)"

lemma Len_small: "0 \<le> n \<Longrightarrow> n \<le> 16383 \<Longrightarrow> varint_Len (word_of_int n) = Inr (if n \<le> 63 then 1 else 2)"
  by (auto simp: varint_Len_def maxVarInt_defs word_le_def uint_word_of_int)

lemma header_size_le: "header_size f \<le> 17"
  using length_venc(2) [of "word_of_int (stream_StreamID f)"] length_venc(2) [of "word_of_int (stream_Offset f)"]
  by (simp add: header_size_def vint_def)

lemma header_Len:
  assumes "in62 (stream_StreamID f)" "in62 (stream_Offset f)"
  obtains l1 l2 where "varint_Len (word_of_int (stream_StreamID f)) = Inr l1"
    "(if stream_Offset f \<noteq> 0 then varint_Len (word_of_int (stream_Offset f)) else Inr 0) = Inr l2" "header_size f = 1 + l1 + l2"
  using assms by (intro that [of "length (vint (stream_StreamID f))" "if stream_Offset f \<noteq> 0 then length (vint (stream_Offset f)) else 0"])
    (simp_all add: header_size_def wire_simps vint_def)

lemma StreamFrame_Length_size:
  assumes "in62 (stream_StreamID f)" "in62 (stream_Offset f)" "DataLen f \<le> 16383"
  shows "StreamFrame_Length f = Inr (int (header_size f) + len_size f (DataLen f) + DataLen f)"
proof -
  obtain l1 l2 where l: "varint_Len (word_of_int (stream_StreamID f)) = Inr l1"
    "(if stream_Offset f \<noteq> 0 then varint_Len (word_of_int (stream_Offset f)) else Inr 0) = Inr l2" "header_size f = 1 + l1 + l2"
    using header_Len [OF assms(1,2)] by blast
  have "0 \<le> DataLen f" by (simp add: DataLen_def)
  then show ?thesis
    unfolding StreamFrame_Length_def l go_bind_simps using Len_small [of "DataLen f"] assms(3) by (simp add: len_size_def)
qed

lemma MaxDataLen_size:
  assumes "in62 (stream_StreamID f)" "in62 (stream_Offset f)" "maxSize \<le> 16383"
  shows "StreamFrame_MaxDataLen f maxSize =
    (let m = maxSize - int (header_size f) - (if stream_DataLenPresent f then 1 else 0) in
     Inr (if m < 0 then 0 else if stream_DataLenPresent f \<and> m > 63 then m - 1 else m))"
proof -
  obtain l1 l2 where l: "varint_Len (word_of_int (stream_StreamID f)) = Inr l1"
    "(if stream_Offset f \<noteq> 0 then varint_Len (word_of_int (stream_Offset f)) else Inr 0) = Inr l2" "header_size f = 1 + l1 + l2"
    using header_Len [OF assms(1,2)] by blast
  show ?thesis
    unfolding StreamFrame_MaxDataLen_def l go_bind_simps Let_def
    using Len_small [of "maxSize - int (1 + l1 + l2) - 1"] assms(3) by (cases "stream_DataLenPresent f") (simp_all add: algebra_simps)
qed

text \<open>The number of bytes that go into the frame split off is the largest with which it fits.\<close>

lemma MaxDataLen_fits:
  assumes "in62 (stream_StreamID f)" "in62 (stream_Offset f)" "maxSize \<le> 16383" "StreamFrame_MaxDataLen f maxSize = Inr n" "0 < k"
  shows "0 \<le> n" "int (header_size f) + len_size f k + k \<le> maxSize \<longleftrightarrow> k \<le> n"
  using assms(4,5) unfolding MaxDataLen_size [OF assms(1-3)] Let_def len_size_def
  by (auto split: if_splits)

text \<open>The two frames that a split after \<open>n\<close> bytes yields.\<close>

definition split_front :: "StreamFrame \<Rightarrow> nat \<Rightarrow> StreamFrame" where
  "split_front f n = f\<lparr>stream_Fin := False, stream_Data := take n (stream_Data f)\<rparr>"

definition split_rest :: "StreamFrame \<Rightarrow> nat \<Rightarrow> StreamFrame" where
  "split_rest f n = f\<lparr>stream_Offset := stream_Offset f + int n, stream_Data := drop n (stream_Data f)\<rparr>"

lemma split_front_Length:
  assumes "frame_ok (StreamFrame f)" "k \<le> length (stream_Data f)"
  shows "StreamFrame_Length (split_front f k) = Inr (int (header_size f) + len_size f (int k) + int k)"
proof -
  have "header_size (split_front f k) = header_size f" "len_size (split_front f k) = len_size f" "DataLen (split_front f k) = int k"
    using assms(2) by (simp_all add: split_front_def header_size_def len_size_def DataLen_def fun_eq_iff)
  then show ?thesis using StreamFrame_Length_size [of "split_front f k"] in62_DataLen [OF assms(1)] assms
    by (simp add: MaxPacketBufferSize_def) (simp add: split_front_def)
qed

lemma split_pieces_ok:
  assumes "frame_ok (StreamFrame f)" "0 < n" "n < length (stream_Data f)"
  shows "frame_ok (StreamFrame (split_front f n))" "frame_ok (StreamFrame (split_rest f n))"
  using assms by (auto simp: split_front_def split_rest_def DataLen_def)

section \<open>Properties\<close>

text \<open>
  Property C40.  A STREAM frame is split exactly if it does not fit into the given size, whatever the size is.  The frame split
  off then carries the largest number of bytes with which it fits, and the frame keeps the remaining bytes, at least one, at the
  offset behind them, and the FIN bit; if not even one byte fits the frame is left as it is.  Both frames are well
  formed again, and no slice is out of range.
\<close>

theorem stream_frame_split:
  assumes ok: "frame_ok (StreamFrame f)"
  shows "\<exists>len n. StreamFrame_Length f = Inr len \<and>
    (if len \<le> maxSize then StreamFrame_MaybeSplitOffFrame f maxSize = Inr (None, False, f)
     else (0 < n \<longrightarrow> n < length (stream_Data f) \<and> frame_ok (StreamFrame (split_front f n)) \<and> frame_ok (StreamFrame (split_rest f n))) \<and>
       StreamFrame_MaybeSplitOffFrame f maxSize =
         Inr (if n = 0 then (None, True, f) else (Some (split_front f n), True, split_rest f n)) \<and>
       (\<forall>k \<in> {1..length (stream_Data f)}. \<exists>l. StreamFrame_Length (split_front f k) = Inr l \<and> (l \<le> maxSize \<longleftrightarrow> k \<le> n)))"
proof -
  have f: "in62 (stream_StreamID f)" "in62 (stream_Offset f)" "length (stream_Data f) \<le> 1452"
    using in62_DataLen [OF ok] ok by (simp_all add: MaxPacketBufferSize_def)
  let ?d = "DataLen f"
  define len where "len = int (header_size f) + len_size f ?d + ?d"
  have len: "StreamFrame_Length f = Inr len"
    using StreamFrame_Length_size [OF f(1,2)] f(3) by (simp add: len_def DataLen_def)
  show ?thesis
  proof (cases "len \<le> maxSize")
    case True
    then show ?thesis using len by (simp add: StreamFrame_MaybeSplitOffFrame_def)
  next
    case False
    have small: "maxSize \<le> 16383"
      using False f(3) header_size_le [of f] by (simp add: len_def len_size_def DataLen_def split: if_splits)
    define n where "n = (case StreamFrame_MaxDataLen f maxSize of Inr n \<Rightarrow> n)"
    have n: "StreamFrame_MaxDataLen f maxSize = Inr n" unfolding n_def MaxDataLen_size [OF f(1,2) small] Let_def by simp
    note fits = MaxDataLen_fits [OF f(1,2) small n]
    have n0: "0 \<le> n" using fits(1) [of 1] by simp
    have lt: "n < ?d" if "0 < n"
      using fits(2) [of ?d] fits(2) [of 1] False that n0 unfolding len_def by (cases "0 < ?d") (auto simp: DataLen_def len_size_def split: if_splits)
    have k: "\<exists>l. StreamFrame_Length (split_front f k) = Inr l \<and> (l \<le> maxSize \<longleftrightarrow> k \<le> nat n)" if "k \<in> {1..length (stream_Data f)}" for k
      using split_front_Length [OF ok, of k] fits(2) [of "int k"] that by (auto simp: le_nat_iff [OF n0])
    have split: "StreamFrame_MaybeSplitOffFrame f maxSize =
        Inr (if nat n = 0 then (None, True, f) else (Some (split_front f (nat n)), True, split_rest f (nat n)))"
      using False lt n0 f(3)
      by (auto simp: StreamFrame_MaybeSplitOffFrame_def len n Let_def DataLen_def split_front_def split_rest_def MaxPacketBufferSize_def)
    show ?thesis
      using len False k split lt split_pieces_ok [OF ok, of "nat n"] by (intro exI [of _ len] exI [of _ "nat n"]) (auto simp: DataLen_def)
  qed
qed

definition split_example :: StreamFrame where
  "split_example = \<lparr>stream_StreamID = 4, stream_Offset = 0, stream_Data = replicate 100 7, stream_Fin = True, stream_DataLenPresent = True\<rparr>"

theorem stream_frame_split_witness:
  "\<exists>n. StreamFrame_MaybeSplitOffFrame split_example 20 =
     Inr (if n = 0 then (None, True, split_example) else (Some (split_front split_example n), True, split_rest split_example n))"
proof -
  have "frame_ok (StreamFrame split_example)" "StreamFrame_Length split_example = Inr 104" by code_simp+
  then show ?thesis using stream_frame_split [of split_example 20] by auto
qed

end
