(* ===== verification/PacketPacker.thy ===== *)
theory PacketPacker
  imports FrameProofs "HOL-Library.Multiset"
begin

text \<open>
  How \<^verbatim>\<open>packet_packer.go\<close> writes the payload of a packet, and that the peer's \<^verbatim>\<open>handleFrames\<close> handles what was packed.  The
  frames of a payload are those of \<^verbatim>\<open>internal/wire\<close>; the handlers that come with them are not used here.
\<close>

section \<open>Writing the payload\<close>

record packet_payload =
  pl_streamFrames :: "StreamFrame list"
  pl_frames :: "Frame list"
  pl_ack :: "AckFrame option"
  pl_length :: byte_count

text \<open>
  \<^verbatim>\<open>Shuffle\<close> of \<^verbatim>\<open>math/rand/v2\<close>, with the random numbers as an argument: the element at \<open>i\<close>, from the last one down to the second, is
  swapped with the one at a random index that is at most \<open>i\<close>.
\<close>

fun Shuffle :: "(nat \<Rightarrow> nat) \<Rightarrow> nat \<Rightarrow> 'a list \<Rightarrow> 'a list" where
  "Shuffle rnd 0 xs = xs"
| "Shuffle rnd (Suc i) xs =
     (let j = rnd (Suc i) mod (Suc i + 1) in Shuffle rnd i (xs[Suc i := xs ! j, j := xs ! Suc i]))"

text \<open>A loop that appends frames and stops at the first error.\<close>

fun append_frames :: "Frame list \<Rightarrow> bytes \<Rightarrow> (wire_error + bytes) go" where
  "append_frames [] raw = Inr (Inr raw)"
| "append_frames (f # fs) raw = go_bind (Frame_Append f raw) (\<lambda>r. case r of Inl e \<Rightarrow> Inr (Inl e) | Inr raw \<Rightarrow> append_frames fs raw)"

text \<open>The result is an error, or the bytes and the frames of the payload in their new order.\<close>

definition appendPacketPayload :: "(nat \<Rightarrow> nat) \<Rightarrow> bytes \<Rightarrow> packet_payload \<Rightarrow> byte_count \<Rightarrow> (wire_error + (bytes \<times> Frame list)) go" where
  "appendPacketPayload rnd raw pl paddingLen =
     (let payloadOffset = length raw in
      go_bind (case pl_ack pl of None \<Rightarrow> Inr (Inr raw) | Some ack \<Rightarrow> Frame_Append (AckFrame ack) raw) (\<lambda>r. case r of Inl e \<Rightarrow> Inr (Inl e) | Inr raw \<Rightarrow>
      let raw = (if paddingLen > 0 then raw @ replicate (nat paddingLen) 0 else raw);
          fs = (if length (pl_frames pl) > 1 then Shuffle rnd (length (pl_frames pl) - 1) (pl_frames pl) else pl_frames pl) in
      go_bind (append_frames fs raw) (\<lambda>r. case r of Inl e \<Rightarrow> Inr (Inl e) | Inr raw \<Rightarrow>
      go_bind (append_frames (map StreamFrame (pl_streamFrames pl)) raw) (\<lambda>r. case r of Inl e \<Rightarrow> Inr (Inl e) | Inr raw \<Rightarrow>
      if i64 (int (length raw - payloadOffset) - paddingLen) \<noteq> pl_length pl
      then Inr (Inl (Msg ''PacketPacker BUG: payload size inconsistent''))
      else Inr (Inr (raw, fs))))))"

section \<open>What was written\<close>

lemma mset_Shuffle: "i < length xs \<Longrightarrow> mset (Shuffle rnd i xs) = mset xs"
proof (induction i arbitrary: xs)
  case (Suc i)
  have "rnd (Suc i) mod (Suc i + 1) < length xs" using Suc.prems mod_less_divisor [of "Suc i + 1" "rnd (Suc i)"] by linarith
  then show ?case using Suc mset_swap [of "rnd (Suc i) mod (Suc i + 1)" xs "Suc i"] by (simp add: Let_def)
qed simp

lemma append_frames_bytes:
  "\<forall>f \<in> set fs. frame_ok f \<Longrightarrow> append_frames fs raw = Inr (Inr (raw @ concat (map frame_bytes fs)))"
  by (induction fs arbitrary: raw) (simp_all add: Frame_Append_bytes)

lemma packet_plain: "packet (map (Pair 0) fs) m = concat (map frame_bytes fs) @ replicate m 0"
  by (induction fs) simp_all

lemma packet_append: "packet (map (Pair 0) fs @ ps) m = concat (map frame_bytes fs) @ packet ps m"
  by (induction fs) simp_all

lemma packet_ok_append:
  "packet_ok p encLevel (map (Pair 0) fs @ ps) m \<longleftrightarrow> (\<forall>f \<in> set fs. frame_ok f \<and> accepts p encLevel f) \<and> packet_ok p encLevel ps m"
  if "\<forall>f \<in> set fs. delimited f"
  using that by (induction fs) auto

lemma packet_ok_last:
  assumes "\<forall>f \<in> set fs. frame_ok f \<and> accepts p encLevel f" "\<forall>f \<in> set (butlast fs). delimited f"
  shows "packet_ok p encLevel (map (Pair 0) fs) 0"
proof (cases fs rule: rev_cases)
  case (snoc gs g)
  then show ?thesis using assms packet_ok_append [of gs p encLevel "[(0, g)]" 0] by simp
qed simp

text \<open>The ACK frame, padding and other frames form a packet in the sense of \<open>handleFrames_packet\<close>.\<close>

lemma padded_packet:
  assumes ok: "\<forall>f \<in> set (acks @ fs). frame_ok f \<and> accepts p encLevel f" and d: "\<forall>f \<in> set acks. delimited f" "\<forall>f \<in> set (butlast fs). delimited f"
  shows "\<exists>ps m. concat (map frame_bytes acks) @ replicate n 0 @ concat (map frame_bytes fs) = packet ps m \<and>
    packet_ok p encLevel ps m \<and> map snd ps = acks @ fs"
proof (cases fs)
  case Nil
  then show ?thesis using ok d(1) packet_ok_append [OF d(1), of p encLevel "[]" n]
    by (intro exI [of _ "map (Pair 0) acks"] exI [of _ n]) (simp add: packet_plain comp_def)
next
  case (Cons g gs)
  have "packet_ok p encLevel ((n, g) # map (Pair 0) gs) 0" using packet_ok_last [of fs p encLevel] ok d(2) Cons by simp
  then show ?thesis using ok packet_ok_append [OF d(1), of p encLevel "(n, g) # map (Pair 0) gs" 0] Cons
    by (intro exI [of _ "map (Pair 0) acks @ (n, g) # map (Pair 0) gs"] exI [of _ 0]) (simp add: packet_append packet_plain comp_def)
qed

text \<open>
  The payloads that the packer composes: every frame is well formed and allowed at the encryption level, only the last STREAM frame may lack
  a length field, and the length is the sum of the lengths of the frames.
\<close>

definition ack_frames :: "packet_payload \<Rightarrow> Frame list" where
  "ack_frames pl = (case pl_ack pl of None \<Rightarrow> [] | Some ack \<Rightarrow> [AckFrame ack])"

definition payload_frames :: "packet_payload \<Rightarrow> Frame list" where
  "payload_frames pl = ack_frames pl @ pl_frames pl @ map StreamFrame (pl_streamFrames pl)"

definition payload_ok :: "FrameParser \<Rightarrow> EncryptionLevel \<Rightarrow> packet_payload \<Rightarrow> bool" where
  "payload_ok p encLevel pl \<longleftrightarrow> list_all (\<lambda>f. frame_ok f \<and> accepts p encLevel f) (payload_frames pl) \<and>
     list_all delimited (pl_frames pl) \<and> list_all stream_DataLenPresent (butlast (pl_streamFrames pl)) \<and>
     pl_length pl = (\<Sum>f\<leftarrow>payload_frames pl. case Frame_Length f of Inr n \<Rightarrow> n | Inl _ \<Rightarrow> 0)"

lemma frames_length:
  "\<forall>f \<in> set fs. frame_ok f \<Longrightarrow>
     (\<Sum>f\<leftarrow>fs. case Frame_Length f of Inr n \<Rightarrow> n | Inl _ \<Rightarrow> 0) = int (length (concat (map frame_bytes fs)))"
  by (induction fs) (simp_all add: Frame_Length_bytes)

lemma length_concat_mset: "mset xs = mset ys \<Longrightarrow> length (concat (map f xs)) = length (concat (map f ys))"
  by (metis length_concat map_map mset_map sum_mset_sum_list)

lemma butlast_streams: "list_all stream_DataLenPresent (butlast ss) \<Longrightarrow> list_all delimited fs \<Longrightarrow>
    \<forall>f \<in> set (butlast (fs @ map StreamFrame ss)). delimited f"
  by (auto simp: butlast_append list_all_iff map_butlast [symmetric] dest: in_set_butlastD)

lemma appendPacketPayload_bytes:
  assumes ok: "payload_ok p encLevel pl" and n: "0 \<le> n" "n + pl_length pl < 2 ^ 62"
  obtains fs where "mset fs = mset (pl_frames pl)"
    "appendPacketPayload rnd raw pl n = Inr (Inr (raw @ concat (map frame_bytes (ack_frames pl)) @ replicate (nat n) 0 @
       concat (map frame_bytes (fs @ map StreamFrame (pl_streamFrames pl))), fs))"
proof -
  let ?ss = "map StreamFrame (pl_streamFrames pl)"
  define fs where "fs = (if length (pl_frames pl) > 1 then Shuffle rnd (length (pl_frames pl) - 1) (pl_frames pl) else pl_frames pl)"
  have perm: "mset fs = mset (pl_frames pl)" by (simp add: fs_def mset_Shuffle)
  have fok: "\<forall>f \<in> set (payload_frames pl). frame_ok f" using ok by (simp add: payload_ok_def list_all_iff)
  then have all: "\<forall>f \<in> set (ack_frames pl). frame_ok f" "\<forall>f \<in> set fs. frame_ok f" "\<forall>f \<in> set ?ss. frame_ok f"
    using mset_eq_setD [OF perm] by (auto simp: payload_frames_def)
  have ack: "(case pl_ack pl of None \<Rightarrow> Inr (Inr raw) | Some ack \<Rightarrow> Frame_Append (AckFrame ack) raw) =
      Inr (Inr (raw @ concat (map frame_bytes (ack_frames pl))))"
    using all(1) Frame_Append_bytes by (auto simp: ack_frames_def split: option.split simp del: Frame_Append.simps)
  have len: "pl_length pl = int (length (concat (map frame_bytes (ack_frames pl)))) + int (length (concat (map frame_bytes fs))) +
      int (length (concat (map frame_bytes ?ss)))"
    using ok frames_length [OF fok] length_concat_mset [OF perm, of frame_bytes] by (simp add: payload_ok_def payload_frames_def)
  have pad: "(if n > 0 then r @ replicate (nat n) 0 else r) = r @ replicate (nat n) (0 :: u8)" for r by simp
  have size: "i64 (int (length (raw @ concat (map frame_bytes (ack_frames pl)) @ replicate (nat n) 0 @
      concat (map frame_bytes fs) @ concat (map frame_bytes ?ss)) - length raw) - n) = pl_length pl"
    using n len by (simp add: i64_id is_i64_def)
  have "appendPacketPayload rnd raw pl n = Inr (Inr (raw @ concat (map frame_bytes (ack_frames pl)) @ replicate (nat n) 0 @
       concat (map frame_bytes (fs @ ?ss)), fs))"
    unfolding appendPacketPayload_def Let_def ack go_bind_simps sum.case pad fs_def [symmetric]
      append_frames_bytes [OF all(2)] append_frames_bytes [OF all(3)]
    using size by simp
  with perm show thesis by (rule that)
qed

section \<open>Properties\<close>

text \<open>
  Property C37.  What the packer writes is what the peer handles: the payload takes exactly the announced number of bytes plus the padding, and
  \<^verbatim>\<open>handleFrames\<close> of a peer whose parser supports the frames calls the handlers of the ACK frame, the control frames in some order and
  the STREAM frames, one after the other up to the first error, whatever the handlers do, and reports correctly whether the
  packet is ACK eliciting, whether it is non-probing, and the last path challenge.
\<close>

theorem packet_roundtrip:
  assumes ok: "payload_ok p encLevel pl" and n: "0 \<le> n" "n + pl_length pl < 2 ^ 62"
  shows "\<exists>body fs r. appendPacketPayload rnd raw pl n = Inr (Inr (raw @ body, fs)) \<and> int (length body) = pl_length pl + n \<and>
    mset fs = mset (pl_frames pl) \<and>
    handleFrames h logging body destConnID encLevel rcvTime p c = Inr r \<and>
    (fr_result r, fr_conn r) = frames_spec h encLevel destConnID rcvTime
      (map as_received (ack_frames pl @ fs @ map StreamFrame (pl_streamFrames pl))) c"
proof -
  let ?ss = "map StreamFrame (pl_streamFrames pl)"
  obtain fs where fs: "mset fs = mset (pl_frames pl)"
    "appendPacketPayload rnd raw pl n = Inr (Inr (raw @ concat (map frame_bytes (ack_frames pl)) @ replicate (nat n) 0 @
       concat (map frame_bytes (fs @ ?ss)), fs))"
    by (rule appendPacketPayload_bytes [OF assms])
  have all: "\<forall>f \<in> set (ack_frames pl @ fs @ ?ss). frame_ok f \<and> accepts p encLevel f"
    and d: "list_all delimited fs" "list_all stream_DataLenPresent (butlast (pl_streamFrames pl))"
    and fok: "\<forall>f \<in> set (payload_frames pl). frame_ok f"
    using ok mset_eq_setD [OF fs(1)] by (auto simp: payload_ok_def payload_frames_def list_all_iff)
  have ack: "\<forall>f \<in> set (ack_frames pl). delimited f" by (auto simp: ack_frames_def split: option.splits)
  obtain ps m where ps: "concat (map frame_bytes (ack_frames pl)) @ replicate (nat n) 0 @ concat (map frame_bytes (fs @ ?ss)) = packet ps m"
    "packet_ok p encLevel ps m" "map snd ps = ack_frames pl @ fs @ ?ss"
    using padded_packet [OF all ack butlast_streams [OF d(2,1)], of "nat n"] by blast
  have "int (length (concat (map frame_bytes (payload_frames pl)))) = pl_length pl"
    using ok frames_length [OF fok] by (simp add: payload_ok_def)
  then have len: "int (length (packet ps m)) = pl_length pl + n"
    using n(1) length_concat_mset [OF fs(1), of frame_bytes] by (simp add: ps(1) [symmetric] payload_frames_def)
  have "len62 (packet ps m)" using len n by (simp add: len62_def in62_def)
  from handleFrames_packet [OF ps(2) this, of h logging destConnID rcvTime c] obtain r where
    r: "handleFrames h logging (packet ps m) destConnID encLevel rcvTime p c = Inr r"
      "(fr_result r, fr_conn r) = frames_spec h encLevel destConnID rcvTime (map as_received (ack_frames pl @ fs @ ?ss)) c"
    by (auto simp: ps(3) [symmetric] comp_def)
  then show ?thesis using fs len ps(1) by auto
qed

definition payload_example :: packet_payload where
  "payload_example = \<lparr>pl_streamFrames = [stream_example, stream_example\<lparr>stream_Offset := 303, stream_DataLenPresent := False\<rparr>],
     pl_frames = [MaxDataFrame \<lparr>maxdata_MaximumData = 70000\<rparr>, PingFrame, PathChallengeFrame \<lparr>pc_Data = [1, 2, 3, 4, 5, 6, 7, 8]\<rparr>],
     pl_ack = Some (new_AckFrame\<lparr>AckRanges := [\<lparr>Smallest = 5, Largest = 9\<rparr>]\<rparr>), pl_length = 35\<rparr>"

lemma payload_example_ok: "payload_ok parser_example Encryption1RTT payload_example"
  by code_simp

theorem packet_roundtrip_witness:
  "\<exists>body fs r. appendPacketPayload (\<lambda>i. i - 1) [] payload_example 2 = Inr (Inr (body, fs)) \<and> length body = 37 \<and>
     handleFrames trace_ops True body [] Encryption1RTT 0 parser_example [] = Inr r \<and>
     (fr_result r, fr_conn r) = frames_spec trace_ops Encryption1RTT [] 0
       (map as_received (ack_frames payload_example @ fs @ map StreamFrame (pl_streamFrames payload_example))) []"
  using packet_roundtrip [OF payload_example_ok, of 2 "\<lambda>i. i - 1" "[]" trace_ops True "[]" 0 "[]"]
  by (auto simp: payload_example_def)

end
