(* ===== verification/Spec2Isabelle.thy ===== *)
theory Spec2Isabelle
  imports ReceivedPackets SentHistory ECNTracker FlowControl BBRv3Proofs FrameSorterProofs FrameSafety FrameSplit PacketPacker
begin

text \<open>
  A verification library of the QUIC implementation under \<^verbatim>\<open>src/quic-go-bbr\<close>, a fork of quic-go whose congestion
  controller is BBRv3, with the Media-over-QUIC code under \<^verbatim>\<open>src/moq-go\<close> as its client.

  \<^bold>\<open>The program.\<close>  A connection receives packets, remembers their numbers and acknowledges them
  (\<^verbatim>\<open>internal/ackhandler/received_packet_*.go\<close>); it sends packets under numbers it chooses, remembers them until they are
  acknowledged or lost (\<^verbatim>\<open>sent_packet_history.go\<close>, \<^verbatim>\<open>lost_packet_tracker.go\<close>, \<^verbatim>\<open>packet_number_generator.go\<close>), validates ECN
  marks (\<^verbatim>\<open>ecn.go\<close>), estimates the round-trip time (\<^verbatim>\<open>internal/utils/rtt_stats.go\<close>) and limits what it sends by flow
  control (\<^verbatim>\<open>internal/flowcontrol\<close>) and congestion control (\<^verbatim>\<open>internal/congestion/bbrv3.go\<close>).  Frames are coded with
  variable-length integers (\<^verbatim>\<open>quicvarint\<close>, \<^verbatim>\<open>internal/wire\<close>), written into packets by \<^verbatim>\<open>packet_packer.go\<close> and taken out of them by
  \<^verbatim>\<open>handleFrames\<close> of \<^verbatim>\<open>connection.go\<close>, and received stream data is put in order by
  \<^verbatim>\<open>frame_sorter.go\<close>.

  \<^bold>\<open>Conventions\<close> (\<^theory_text>\<open>Prelude\<close>).  Structs are records, enumerations are datatypes, one definition models one function and
  keeps its name, with a prefix where several types have a method of that name.  Unsigned integers are words of their width;
  the signed types are integers, with \<open>i64\<close> writing out the wrap-around where a value could leave 64 bits.  A call that can
  panic returns \<open>Inl\<close> of the message or \<open>Inr\<close> of the result; errors are values of their own types, without their texts.  State
  is passed explicitly.  Readings of the clock and random numbers are arguments.  Floating-point arithmetic rounds as IEEE 754
  prescribes (\<^theory_text>\<open>GoFloat\<close>); what a conversion out of range yields depends on the machine and is a parameter.

  \<^bold>\<open>The theories and what they show.\<close>
  \<^item> \<^theory_text>\<open>Varint\<close>: \<^verbatim>\<open>varint.go\<close>, on bytes and words.  Round trips, agreement of the two readers, bounds of parsed values.
  \<^item> \<^theory_text>\<open>Protocol\<close>: packet number coding, stream identifiers and constants of \<^verbatim>\<open>internal/protocol\<close>.
  \<^item> \<^theory_text>\<open>Wire\<close>, \<^theory_text>\<open>AckFrame\<close>: the integer step shared by all parsers as an instance of the locale \<open>stream_codec\<close>; the ACK frame of
    \<^verbatim>\<open>ack_frame.go\<close> with round trip, exact length, truncation and the binary search of \<^verbatim>\<open>AcksPacket\<close>.
  \<^item> \<^theory_text>\<open>Frames\<close>, \<^theory_text>\<open>FrameParser\<close>, \<^theory_text>\<open>HandleFrames\<close>: all other frames of \<^verbatim>\<open>internal/wire\<close>, \<^verbatim>\<open>frame_parser.go\<close>, and the loop of
    \<^verbatim>\<open>handleFrames\<close> that takes a packet apart.  The handlers of the frames are a record of arbitrary operations on an arbitrary
    connection state, which do not panic.
  \<^item> \<^theory_text>\<open>FrameProofs\<close>, \<^theory_text>\<open>FrameSafety\<close>, \<^theory_text>\<open>FrameSplit\<close>, \<^theory_text>\<open>PacketPacker\<close>: every frame is read back as it was written and has the length announced;
    no packet, whatever its bytes, makes the parsers or the loop panic; STREAM frames are split at the largest size that fits;
    and the peer handles exactly the frames that \<^verbatim>\<open>appendPacketPayload\<close> has written.
  \<^item> \<^theory_text>\<open>ReceivedPackets\<close>: the history of ranges implements a set of packet numbers (locale \<open>packet_history\<close>); on every run
    (\<open>app_reach\<close>) the ACK frames are sound and sent in time.  If the history was emptied by \<^verbatim>\<open>IgnoreBelow\<close> while an ACK was due,
    the frame has no ranges and cannot be written.
  \<^item> \<^theory_text>\<open>SentHistory\<close>: the slice of sent packets implements a finite map (locale \<open>packet_store\<close>); the packet number generators
    keep the contract of locale \<open>number_generator\<close>.
  \<^item> \<^theory_text>\<open>ECNTracker\<close>: the ECN state machine with its runs \<open>ecn_reach\<close>.
  \<^item> \<^theory_text>\<open>GoFloat\<close>, \<^theory_text>\<open>RTTStats\<close>: rounding, and the bounds and exactness of the smoothed estimates on runs \<open>rtt_reach\<close>.
  \<^item> \<^theory_text>\<open>FlowControl\<close>: stream and connection controllers with the accounting invariant on runs \<open>flow_reach\<close> of any number of
    streams, and the contract \<open>send_credit\<close> of both.
  \<^item> \<^theory_text>\<open>BBRStats\<close>, \<^theory_text>\<open>BBRv3\<close>, \<^theory_text>\<open>BBRv3Proofs\<close>: the whole sender of \<^verbatim>\<open>bbrv3.go\<close> with its statistics, and on runs \<open>bbr_reach\<close> its
    state machine, the bounds of its window, the counting of rounds and how it gets stuck in ProbeRTT.
  \<^item> \<^theory_text>\<open>LinkedList\<close>, \<^theory_text>\<open>FrameSorter\<close>, \<^theory_text>\<open>FrameSorterProofs\<close>: the frame sorter over the elements of its linked list of gaps.  The gaps
    and the map of entries implement a partial map from offsets to bytes; on every run (\<open>sorter_run\<close>) the stream is delivered
    in order, every buffer of an accepted frame is released exactly once, and peeking returns.

  \<^bold>\<open>Bounds and termination.\<close>  All operations are total functions, by structural recursion or a measure, except the loops of
  \<^verbatim>\<open>Peek\<close>, which are partial functions proved to return.  Properties of the BBRv3 sender assume datagram sizes below
  64 kilobytes, the largest UDP payload; on its runs acknowledged bytes are not negative, the 64-bit count of delivered bytes does
  not wrap and RTT samples are below \<open>2\<^sup>6\<^sup>4 - 1\<close>.  Runs of the RTT statistics have send deltas below \<open>2\<^sup>2\<^sup>1\<close> microseconds, about two
  seconds.  Runs of flow control have receive windows below \<open>2\<^sup>6\<^sup>2\<close>, which \<^verbatim>\<open>config.go\<close> enforces; the amounts sent are not
  restricted.  Runs of the frame sorter consist of accepted frames that end before \<^verbatim>\<open>MaxByteCount\<close>.  The parser of stream frames
  also lets a frame pass that ends exactly there; such a frame makes \<^verbatim>\<open>Push\<close> panic, as \<open>frame_sorter_well_formed\<close> shows.

  \<^bold>\<open>Not modelled.\<close>  The event loop, server, transport and stream objects (goroutines, channels, timers, sockets), the composition of payloads and packet headers; TLS and packet
  protection, which are outside the repository; HTTP/3, qlog output, the Media-over-QUIC sessions, examples, test support and
  mocks.  Log and trace calls, mutexes and object pools are left out of the definitions.
\<close>

end
